(* ===== verification/Py_IO.thy ===== *)
theory Py_IO
  imports Main
begin

text \<open>
  The effects of the scripts under \<open>src/scripts/\<close>, as one monad.  A statement that reads or
  changes a state \<open>'s\<close> (the host, a socket, a broker) is a function
  \<open>'s \<Rightarrow> ((exn + 'a) \<times> 's) option\<close>:
  \<^item> \<open>None\<close>: the statement never returns (a loop that spins for ever);
  \<^item> \<open>Some (Inl e, s)\<close>: it raised the Python exception \<open>e\<close>, leaving the state \<open>s\<close>;
  \<^item> \<open>Some (Inr a, s)\<close>: it returned \<open>a\<close>.
  The theory holds the exceptions with the \<open>except\<close> classes the scripts name, the statement
  forms (\<open>bind\<close>, \<open>raise\<close>, \<open>try_except\<close>, \<open>try_finally\<close>, \<open>for_each\<close> and the \<open>while\<close> loop
  \<open>iterate\<close>) and the two rules the components use for loops: an invariant rule (whatever the
  environment does, if the loop returns) and a termination rule.
\<close>

named_theorems io_simps \<open>rewrite rules that run one statement of the monad\<close>

section \<open>Exceptions\<close>

datatype exn =
    OSError
  | SocketTimeout        \<comment> \<open>\<open>socket.timeout\<close>, a subclass of \<open>OSError\<close>\<close>
  | ValueError
  | TypeError
  | KeyError
  | IndexError
  | AttributeError
  | OverflowError
  | ZeroDivisionError
  | AssertionError
  | StructError          \<comment> \<open>\<open>struct.error\<close>\<close>
  | UnicodeEncodeError   \<comment> \<open>a subclass of \<open>ValueError\<close>\<close>
  | SubprocessError      \<comment> \<open>\<open>subprocess.SubprocessError\<close>: the child failed before it ran its program\<close>
  | TimeoutExpired       \<comment> \<open>\<open>subprocess.TimeoutExpired\<close>\<close>
  | RuntimeError
  | RecursionError
  | InvalidURL           \<comment> \<open>\<open>http.client.InvalidURL\<close>\<close>
  | SystemExit int       \<comment> \<open>\<open>sys.exit\<close>; not a subclass of \<open>Exception\<close>\<close>

fun is_OSError :: "exn \<Rightarrow> bool" where
  "is_OSError OSError = True"
| "is_OSError SocketTimeout = True"
| "is_OSError _ = False"

fun is_ValueError :: "exn \<Rightarrow> bool" where
  "is_ValueError ValueError = True"
| "is_ValueError UnicodeEncodeError = True"
| "is_ValueError _ = False"

fun is_Exception :: "exn \<Rightarrow> bool" where
  "is_Exception (SystemExit _) = False"
| "is_Exception _ = True"

section \<open>Statements\<close>

type_synonym ('s, 'a) outcome = "((exn + 'a) \<times> 's) option"
type_synonym ('s, 'a) io = "'s \<Rightarrow> ('s, 'a) outcome"

definition ret :: "'a \<Rightarrow> ('s, 'a) io" where
  "ret a s = Some (Inr a, s)"

definition raise :: "exn \<Rightarrow> ('s, 'a) io" where
  "raise e s = Some (Inl e, s)"

definition get :: "('s \<Rightarrow> 'a) \<Rightarrow> ('s, 'a) io" where
  "get f s = Some (Inr (f s), s)"

definition modify :: "('s \<Rightarrow> 's) \<Rightarrow> ('s, unit) io" where
  "modify f s = Some (Inr (), f s)"

definition bind :: "('s, 'a) io \<Rightarrow> ('a \<Rightarrow> ('s, 'b) io) \<Rightarrow> ('s, 'b) io" where
  "bind m f s =
     (case m s of
        None \<Rightarrow> None
      | Some (r, s') \<Rightarrow> (case r of Inl e \<Rightarrow> Some (Inl e, s') | Inr a \<Rightarrow> f a s'))"

definition seq :: "('s, 'a) io \<Rightarrow> ('s, 'b) io \<Rightarrow> ('s, 'b) io" where
  "seq m n = bind m (\<lambda>_. n)"

definition try_except :: "('s, 'a) io \<Rightarrow> (exn \<Rightarrow> bool) \<Rightarrow> (exn \<Rightarrow> ('s, 'a) io) \<Rightarrow> ('s, 'a) io" where
  "try_except m p h s =
     (case m s of
        None \<Rightarrow> None
      | Some (r, s') \<Rightarrow>
          (case r of
             Inl e \<Rightarrow> (if p e then h e s' else Some (Inl e, s'))
           | Inr a \<Rightarrow> Some (Inr a, s')))"

text \<open>An exception raised by the \<open>finally\<close> block replaces the outcome of the body.\<close>

definition try_finally :: "('s, 'a) io \<Rightarrow> ('s, 'b) io \<Rightarrow> ('s, 'a) io" where
  "try_finally m c s =
     (case m s of
        None \<Rightarrow> None
      | Some (r, s') \<Rightarrow>
          (case c s' of
             None \<Rightarrow> None
           | Some (q, s'') \<Rightarrow>
               (case q of Inl e \<Rightarrow> Some (Inl e, s'') | Inr _ \<Rightarrow> Some (r, s''))))"

text \<open>\<open>try: m; except Exception: pass\<close>\<close>

definition swallow :: "('s, 'a) io \<Rightarrow> ('s, unit) io" where
  "swallow m = try_except (seq m (ret ())) is_Exception (\<lambda>_. ret ())"

definition when_io :: "bool \<Rightarrow> ('s, unit) io \<Rightarrow> ('s, unit) io" where
  "when_io b m = (if b then m else ret ())"

fun for_each :: "'a list \<Rightarrow> ('a \<Rightarrow> ('s, unit) io) \<Rightarrow> ('s, unit) io" where
  "for_each [] f = ret ()"
| "for_each (x # xs) f = seq (f x) (for_each xs f)"

fun collect :: "'a list \<Rightarrow> ('a \<Rightarrow> ('s, 'b list) io) \<Rightarrow> ('s, 'b list) io" where
  "collect [] f = ret []"
| "collect (x # xs) f = bind (f x) (\<lambda>ys. bind (collect xs f) (\<lambda>zs. ret (ys @ zs)))"

text \<open>A pure computation that may raise, inside the monad.\<close>

definition lift :: "exn + 'a \<Rightarrow> ('s, 'a) io" where
  "lift r s = Some (r, s)"

text \<open>The same for pure code: \<open>ebind r f\<close> goes on with the value of \<open>r\<close> unless it raised.\<close>

definition ebind :: "exn + 'a \<Rightarrow> ('a \<Rightarrow> exn + 'b) \<Rightarrow> exn + 'b" where
  "ebind r f = (case r of Inl e \<Rightarrow> Inl e | Inr a \<Rightarrow> f a)"

lemma ebind_Inr [simp]: "ebind (Inr a) f = f a"
  by (simp add: ebind_def)

lemma ebind_Inl [simp]: "ebind (Inl e) f = Inl e"
  by (simp add: ebind_def)

lemma ebind_eq_Inr: "ebind r f = Inr b \<longleftrightarrow> (\<exists>a. r = Inr a \<and> f a = Inr b)"
  by (cases r) auto

lemma ret_run [io_simps]: "ret a s = Some (Inr a, s)"
  by (simp add: ret_def)

lemma raise_run [io_simps]: "raise e s = Some (Inl e, s)"
  by (simp add: raise_def)

lemma get_run [io_simps]: "get f s = Some (Inr (f s), s)"
  by (simp add: get_def)

lemma modify_run [io_simps]: "modify f s = Some (Inr (), f s)"
  by (simp add: modify_def)

lemma lift_run [io_simps]: "lift r s = Some (r, s)"
  by (simp add: lift_def)

lemma bind_ret_left: "bind (ret a) f = f a"
  by (rule ext) (simp add: bind_def ret_def)

lemma bind_ret_right: "bind m ret = m"
  by (rule ext) (auto simp: bind_def ret_def split: option.splits sum.splits)

lemma bind_assoc: "bind (bind m f) g = bind m (\<lambda>x. bind (f x) g)"
  by (rule ext) (auto simp: bind_def split: option.splits sum.splits)

lemma seq_assoc: "seq (seq m n) k = seq m (seq n k)"
  by (simp add: seq_def bind_assoc)

lemma bind_ret [io_simps]: "m s = Some (Inr a, s') \<Longrightarrow> bind m f s = f a s'"
  by (simp add: bind_def)

lemma bind_raise [io_simps]: "m s = Some (Inl e, s') \<Longrightarrow> bind m f s = Some (Inl e, s')"
  by (simp add: bind_def)

lemma bind_diverge [io_simps]: "m s = None \<Longrightarrow> bind m f s = None"
  by (simp add: bind_def)

lemma seq_ret [io_simps]: "m s = Some (Inr a, s') \<Longrightarrow> seq m n s = n s'"
  by (simp add: seq_def bind_def)

lemma seq_raise [io_simps]: "m s = Some (Inl e, s') \<Longrightarrow> seq m n s = Some (Inl e, s')"
  by (simp add: seq_def bind_def)

lemma bind_Some_iff:
  "bind m f s = Some (r, s') \<longleftrightarrow>
     (\<exists>e. m s = Some (Inl e, s') \<and> r = Inl e) \<or>
     (\<exists>a t. m s = Some (Inr a, t) \<and> f a t = Some (r, s'))"
  by (auto simp: bind_def split: option.splits sum.splits)

lemma bind_Inr_iff:
  "bind m f s = Some (Inr b, s') \<longleftrightarrow> (\<exists>a t. m s = Some (Inr a, t) \<and> f a t = Some (Inr b, s'))"
  by (auto simp: bind_Some_iff)

lemma seq_Some_iff:
  "seq m n s = Some (r, s') \<longleftrightarrow>
     (\<exists>e. m s = Some (Inl e, s') \<and> r = Inl e) \<or>
     (\<exists>a t. m s = Some (Inr a, t) \<and> n t = Some (r, s'))"
  by (auto simp: seq_def bind_Some_iff)

lemma try_except_Some_iff:
  "try_except m p h s = Some (r, s') \<longleftrightarrow>
     (\<exists>a. m s = Some (Inr a, s') \<and> r = Inr a) \<or>
     (\<exists>e t. m s = Some (Inl e, t) \<and> (if p e then h e t = Some (r, s') else r = Inl e \<and> s' = t))"
  by (auto simp: try_except_def split: option.splits sum.splits)

lemma try_finally_Some_iff:
  "try_finally m c s = Some (r, s') \<longleftrightarrow>
     (\<exists>q t. m s = Some (q, t) \<and>
        ((\<exists>e. c t = Some (Inl e, s') \<and> r = Inl e) \<or> (\<exists>b. c t = Some (Inr b, s') \<and> r = q)))"
  by (auto simp: try_finally_def split: option.splits sum.splits)

text \<open>A \<open>finally\<close> block runs on every way out of the body.\<close>

lemma try_finally_runs:
  assumes "try_finally m c s = Some (r, s')"
  obtains q t b where "m s = Some (q, t)" and "c t = Some (b, s')"
  using assms by (auto simp: try_finally_Some_iff)

section \<open>Loops\<close>

text \<open>
  \<open>iterate body x\<close> is a \<open>while\<close> loop with the loop variables \<open>x\<close>: the body either goes round
  again with new variables (\<open>Inl\<close>) or leaves the loop with a result (\<open>Inr\<close>), as \<open>break\<close>,
  \<open>return\<close> and a false condition do.  A loop that never leaves is \<open>None\<close>.
\<close>

lemma bind_conv_Option:
  "bind m g s = Option.bind (m s)
     (\<lambda>p. case fst p of Inl e \<Rightarrow> Some (Inl e, snd p) | Inr a \<Rightarrow> g a (snd p))"
  by (cases "m s") (auto simp: bind_def split: sum.splits)

lemma io_bind_mono [partial_function_mono]:
  assumes "mono_option (\<lambda>f. B f s)" and "\<And>y t. mono_option (\<lambda>f. C y f t)"
  shows "mono_option (\<lambda>f. bind (B f) (\<lambda>y. C y f) s)"
  unfolding bind_conv_Option
proof (rule bind_mono [OF assms(1)])
  fix p
  show "mono_option (\<lambda>f. case fst p of Inl e \<Rightarrow> Some (Inl e, snd p) | Inr a \<Rightarrow> C a f (snd p))"
    by (cases "fst p") (simp_all add: assms(2) option.const_mono)
qed

partial_function (option) iterate :: "('x \<Rightarrow> ('s, 'x + 'r) io) \<Rightarrow> 'x \<Rightarrow> ('s, 'r) io" where
  "iterate body x s =
     bind (body x) (\<lambda>y t. case y of Inl x' \<Rightarrow> iterate body x' t | Inr r \<Rightarrow> Some (Inr r, t)) s"

lemma iterate_raise: "body x s = Some (Inl e, t) \<Longrightarrow> iterate body x s = Some (Inl e, t)"
  by (simp add: iterate.simps bind_raise)

lemma iterate_done: "body x s = Some (Inr (Inr r), t) \<Longrightarrow> iterate body x s = Some (Inr r, t)"
  by (simp add: iterate.simps bind_ret)

lemma iterate_step: "body x s = Some (Inr (Inl y), t) \<Longrightarrow> iterate body x s = iterate body y t"
  by (simp add: iterate.simps [of body x s] bind_ret)

lemma iterate_diverge: "body x s = None \<Longrightarrow> iterate body x s = None"
  by (simp add: iterate.simps bind_diverge)

lemmas iterate_run = iterate_raise iterate_done iterate_step iterate_diverge

text \<open>The invariant rule: \<open>I\<close> is kept by every round, and every way out gives \<open>Q\<close>.\<close>

lemma iterate_inv:
  assumes run: "iterate body x s = Some (r, t)"
    and init: "I x s"
    and round: "\<And>x s y t. I x s \<Longrightarrow> body x s = Some (Inr (Inl y), t) \<Longrightarrow> I y t"
    and leave: "\<And>x s r t. I x s \<Longrightarrow> body x s = Some (Inr (Inr r), t) \<Longrightarrow> Q (Inr r) t"
    and exc: "\<And>x s e t. I x s \<Longrightarrow> body x s = Some (Inl e, t) \<Longrightarrow> Q (Inl e) t"
  shows "Q r t"
proof -
  have "body = body \<longrightarrow> I x s \<longrightarrow> Q (fst (r, t)) (snd (r, t))"
  proof (rule iterate.raw_induct
      [where P = "\<lambda>b x s p. b = body \<longrightarrow> I x s \<longrightarrow> Q (fst p) (snd p)"
         and xa = "((body, x), s)" and y = "(r, t)", unfolded prod.case],
      intro impI)
    fix it b x s p
    assume IH: "\<And>b x s p. it b x s = Some p \<Longrightarrow>
        b = body \<longrightarrow> I x s \<longrightarrow> Q (fst p) (snd p)"
      and eq: "bind (b x) (\<lambda>y t. case y of Inl x' \<Rightarrow> it b x' t | Inr r \<Rightarrow> Some (Inr r, t)) s = Some p"
      and b: "b = body" and I: "I x s"
    obtain r' t' where p: "p = (r', t')" by (cases p)
    from eq consider e where "body x s = Some (Inl e, t')" "r' = Inl e"
      | x' u where "body x s = Some (Inr (Inl x'), u)" "it body x' u = Some p"
      | q where "body x s = Some (Inr (Inr q), t')" "r' = Inr q"
      by (auto simp: bind_def b p split: option.split_asm sum.split_asm)
    then show "Q (fst p) (snd p)"
    proof cases
      case 1
      with I show ?thesis by (simp add: exc p)
    next
      case 2
      then show ?thesis using IH [of body x' u p] round [OF I] by blast
    next
      case 3
      with I show ?thesis by (simp add: leave p)
    qed
  qed (use run in simp)
  with init show ?thesis by simp
qed

text \<open>The termination rule: every round returns and decreases a measure.\<close>

lemma iterate_total:
  fixes m :: "'x \<Rightarrow> 's \<Rightarrow> nat"
  assumes init: "I x s"
    and round: "\<And>x s. I x s \<Longrightarrow> \<exists>d t. body x s = Some (d, t) \<and>
                  (\<forall>y. d = Inr (Inl y) \<longrightarrow> I y t \<and> m y t < m x s)"
  shows "\<exists>r t. iterate body x s = Some (r, t)"
  using init
proof (induction "m x s" arbitrary: x s rule: less_induct)
  case less
  obtain d t where b: "body x s = Some (d, t)"
    and step: "\<And>y. d = Inr (Inl y) \<Longrightarrow> I y t \<and> m y t < m x s"
    using round [OF less.prems] by blast
  show ?case
  proof (cases d)
    case (Inl e)
    with b show ?thesis by (auto intro: iterate_raise)
  next
    case (Inr y)
    then show ?thesis
    proof (cases y)
      case (Inl x')
      with b Inr have "iterate body x s = iterate body x' t" by (simp add: iterate_step)
      moreover have "\<exists>r u. iterate body x' t = Some (r, u)"
        using step [of x'] Inr Inl less.hyps by blast
      ultimately show ?thesis by simp
    next
      case (Inr r)
      with b \<open>d = Inr y\<close> show ?thesis by (auto intro: iterate_done)
    qed
  qed
qed

text \<open>A loop whose body changes nothing never returns.\<close>

lemma iterate_spin:
  assumes "body x s = Some (Inr (Inl x), s)"
  shows "iterate body x s = None"
proof (rule ccontr)
  assume "iterate body x s \<noteq> None"
  then obtain r t where run: "iterate body x s = Some (r, t)" by force
  have "False"
    by (rule iterate_inv [OF run, where I = "\<lambda>y t. y = x \<and> t = s" and Q = "\<lambda>_ _. False"])
      (use assms in auto)
  then show False .
qed

lemma for_each_inv:
  assumes "for_each xs f s = Some (r, t)" and "I s"
    and "\<And>x s r t. x \<in> set xs \<Longrightarrow> I s \<Longrightarrow> f x s = Some (r, t) \<Longrightarrow> I t"
  shows "I t"
  using assms
proof (induction xs arbitrary: s)
  case Nil
  then show ?case by (simp add: ret_def)
next
  case (Cons x xs)
  from Cons.prems(1) consider e where "f x s = Some (Inl e, t)"
    | a u where "f x s = Some (Inr a, u)" and "for_each xs f u = Some (r, t)"
    by (auto simp: seq_Some_iff)
  then show ?case
  proof cases
    case 1
    with Cons.prems show ?thesis by auto
  next
    case 2
    then have "I u" using Cons.prems by auto
    then show ?thesis by (rule Cons.IH [OF 2(2)]) (use Cons.prems(3) in auto)
  qed
qed

section \<open>Statements that return and keep a relation\<close>

text \<open>
  \<open>settles I R m\<close> keeps apart what a statement does when it comes back and when it does: whatever way it
  comes back, the states before and after are related by \<open>R\<close>; and from a state with \<open>I\<close> it does come back,
  normally or by raising, in a state with \<open>I\<close>.  For a preorder \<open>R\<close> the statement forms keep this; the
  components instantiate \<open>R\<close> with what a group of operations leaves alone and \<open>I\<close> with what the other side
  has to do for the statement to end.
\<close>

definition settles :: "('s \<Rightarrow> bool) \<Rightarrow> ('s \<Rightarrow> 's \<Rightarrow> bool) \<Rightarrow> ('s, 'a) io \<Rightarrow> bool" where
  "settles I R m \<longleftrightarrow> (\<forall>s r s'. m s = Some (r, s') \<longrightarrow> R s s') \<and> (\<forall>s. I s \<longrightarrow> (\<exists>r s'. m s = Some (r, s') \<and> I s'))"

lemma settlesI:
  assumes "\<And>s r s'. m s = Some (r, s') \<Longrightarrow> R s s'" and "\<And>s. I s \<Longrightarrow> \<exists>r s'. m s = Some (r, s') \<and> I s'"
  shows "settles I R m"
  using assms by (simp add: settles_def)

text \<open>A statement that comes back from every state.\<close>

lemma settles_total: "(\<And>s. \<exists>r s'. m s = Some (r, s') \<and> R s s' \<and> (I s \<longrightarrow> I s')) \<Longrightarrow> settles I R m"
  unfolding settles_def by (metis option.inject prod.inject)

lemma settles_rel: "settles I R m \<Longrightarrow> m s = Some (r, s') \<Longrightarrow> R s s'"
  by (simp add: settles_def)

lemma settlesD: "settles I R m \<Longrightarrow> I s \<Longrightarrow> \<exists>r s'. m s = Some (r, s') \<and> R s s' \<and> I s'"
  by (fastforce simp: settles_def)

lemma settles_keep: "settles I R m \<Longrightarrow> I s \<Longrightarrow> m s = Some (r, s') \<Longrightarrow> I s'"
  by (fastforce simp: settles_def)

lemma settles_weaken: "settles I R m \<Longrightarrow> (\<And>s t. R s t \<Longrightarrow> Q s t) \<Longrightarrow> settles I Q m"
  by (auto simp: settles_def)

locale steady =
  fixes I :: "'s \<Rightarrow> bool"
    and R :: "'s \<Rightarrow> 's \<Rightarrow> bool"
  assumes R_refl: "R s s"
    and R_trans: "R s t \<Longrightarrow> R t u \<Longrightarrow> R s u"
begin

lemma s_ret: "settles I R (ret a)"
  by (simp add: settles_def ret_def R_refl)

lemma s_raise: "settles I R (raise e)"
  by (simp add: settles_def raise_def R_refl)

lemma s_lift: "settles I R (lift r)"
  by (simp add: settles_def lift_def R_refl)

lemma s_get: "settles I R (get f)"
  by (simp add: settles_def get_def R_refl)

lemma s_bind:
  assumes "settles I R m" and "\<And>a. settles I R (f a)"
  shows "settles I R (bind m f)"
proof (rule settlesI)
  fix s r s' assume "bind m f s = Some (r, s')"
  then show "R s s'"
    by (auto simp: bind_Some_iff dest!: settles_rel [OF assms(1)] settles_rel [OF assms(2)] intro: R_trans)
next
  fix s assume "I s"
  then obtain r t where m: "m s = Some (r, t)" "I t" using settlesD [OF assms(1)] by blast
  then show "\<exists>r s'. bind m f s = Some (r, s') \<and> I s'"
    using settlesD [OF assms(2) m(2)] by (cases r) (fastforce simp: bind_def)+
qed

lemma s_seq: "settles I R m \<Longrightarrow> settles I R n \<Longrightarrow> settles I R (seq m n)"
  by (simp add: seq_def s_bind)

lemma s_if: "(b \<Longrightarrow> settles I R m) \<Longrightarrow> (\<not> b \<Longrightarrow> settles I R n) \<Longrightarrow> settles I R (if b then m else n)"
  by simp

lemma s_option: "settles I R m \<Longrightarrow> (\<And>a. settles I R (f a)) \<Longrightarrow> settles I R (case v of None \<Rightarrow> m | Some a \<Rightarrow> f a)"
  by (cases v) simp_all

lemma s_sum: "(\<And>a. settles I R (f a)) \<Longrightarrow> (\<And>a. settles I R (g a)) \<Longrightarrow> settles I R (case v of Inl a \<Rightarrow> f a | Inr a \<Rightarrow> g a)"
  by (cases v) simp_all

lemma s_prod: "(\<And>a b. settles I R (f a b)) \<Longrightarrow> settles I R (case v of (a, b) \<Rightarrow> f a b)"
  by (cases v) simp

lemma s_list: "settles I R m \<Longrightarrow> (\<And>a b. settles I R (f a b)) \<Longrightarrow> settles I R (case v of [] \<Rightarrow> m | a # b \<Rightarrow> f a b)"
  by (cases v) simp_all

lemma s_when: "settles I R m \<Longrightarrow> settles I R (when_io b m)"
  by (simp add: when_io_def s_ret)

lemma s_try:
  assumes "settles I R m" and "\<And>e. settles I R (h e)"
  shows "settles I R (try_except m p h)"
proof (rule settlesI)
  fix s r s' assume "try_except m p h s = Some (r, s')"
  then show "R s s'"
    by (auto simp: try_except_Some_iff split: if_splits dest!: settles_rel [OF assms(1)] settles_rel [OF assms(2)] intro: R_trans)
next
  fix s assume "I s"
  then obtain r t where m: "m s = Some (r, t)" "I t" using settlesD [OF assms(1)] by blast
  then show "\<exists>r s'. try_except m p h s = Some (r, s') \<and> I s'"
    using settlesD [OF assms(2) m(2)] by (cases r) (fastforce simp: try_except_def)+
qed

lemma s_finally:
  assumes "settles I R m" and "settles I R c"
  shows "settles I R (try_finally m c)"
proof (rule settlesI)
  fix s r s' assume "try_finally m c s = Some (r, s')"
  then show "R s s'"
    by (auto simp: try_finally_Some_iff dest!: settles_rel [OF assms(1)] settles_rel [OF assms(2)] intro: R_trans)
next
  fix s assume "I s"
  then obtain r t where m: "m s = Some (r, t)" "I t" using settlesD [OF assms(1)] by blast
  obtain q u where c: "c t = Some (q, u)" "I u" using settlesD [OF assms(2) m(2)] by blast
  show "\<exists>r s'. try_finally m c s = Some (r, s') \<and> I s'" using m c by (cases q) (auto simp: try_finally_def)
qed

text \<open>A loop comes back when, from the states with \<open>I\<close>, every round lowers a measure.\<close>

lemma s_iterate:
  fixes lev :: "'x \<Rightarrow> 's \<Rightarrow> nat"
  assumes "\<And>x. settles I R (body x)"
    and "\<And>x s y t. I s \<Longrightarrow> body x s = Some (Inr (Inl y), t) \<Longrightarrow> lev y t < lev x s"
  shows "settles I R (iterate body x)"
proof (rule settlesI)
  fix s r s' assume run: "iterate body x s = Some (r, s')"
  show "R s s'"
    by (rule iterate_inv [OF run, where I = "\<lambda>_ t. R s t"])
       (auto intro: R_refl R_trans dest: settles_rel [OF assms(1)])
next
  fix s assume I: "I s"
  have "\<exists>r s'. iterate body x s = Some (r, s')"
  proof (rule iterate_total [where I = "\<lambda>_. I" and m = lev, OF I])
    fix y t assume I: "I t"
    then obtain d u where "body y t = Some (d, u)" "I u" using settlesD [OF assms(1)] by blast
    with assms(2) [OF I, of y] show "\<exists>d u. body y t = Some (d, u) \<and> (\<forall>z. d = Inr (Inl z) \<longrightarrow> I u \<and> lev z u < lev y t)" by auto
  qed
  then obtain r s' where run: "iterate body x s = Some (r, s')" by blast
  have "I s'" by (rule iterate_inv [OF run, where I = "\<lambda>_. I"]) (auto intro: I dest: settles_keep [OF assms(1)])
  with run show "\<exists>r s'. iterate body x s = Some (r, s') \<and> I s'" by blast
qed

lemma s_swallow: "settles I R m \<Longrightarrow> settles I R (swallow m)"
  by (simp add: swallow_def s_try s_seq s_ret)

lemma s_for_each: "(\<And>x. settles I R (f x)) \<Longrightarrow> settles I R (for_each xs f)"
  by (induction xs) (simp_all add: s_ret s_seq)

lemma s_collect: "(\<And>x. settles I R (f x)) \<Longrightarrow> settles I R (collect xs f)"
  by (induction xs) (simp_all add: s_ret s_bind)

lemmas forms = s_ret s_raise s_lift s_get s_bind s_seq s_if s_option s_sum s_prod s_list s_when s_try s_finally
  s_swallow s_for_each s_collect

end

interpretation returning: steady I "\<lambda>_ _. True" for I
  by unfold_locales simp_all

lemma returning_weaken: "settles I R m \<Longrightarrow> settles I (\<lambda>_ _. True) m"
  by (simp add: settles_def)

end
