(* ===== verification/Py_Text.thy ===== *)
theory Py_Text
  imports Py_IO "HOL-Library.Word" "HOL-Library.Sublist"
begin

text \<open>
  Python's \<open>bytes\<close> and \<open>str\<close>, as the scripts use them.  \<open>bytes\<close> is a list of 8-bit words;
  \<open>str\<close> is its list of code points (\<open>lit ''abc''\<close> is the literal \<open>"abc"\<close>).  The theory holds
  the operations the scripts call: \<open>in\<close>, \<open>index\<close>, \<open>split\<close>, \<open>strip\<close>, \<open>startswith\<close>,
  \<open>int\<close>, \<open>"%d"\<close>, UTF-8 \<open>encode\<close> and \<open>decode(errors="replace")\<close>, and the general facts about
  them the components share (\<open>bytes_simps\<close>), among them the two round trips: decimal rendering
  and parsing, and UTF-8 encoding and decoding.
\<close>

unbundle bit_operations_syntax

type_synonym byte = "8 word"
type_synonym bytes = "byte list"
type_synonym pystr = "nat list"

named_theorems bytes_simps \<open>rewrite rules for byte and text operations\<close>

section \<open>Searching\<close>

definition lit :: "string \<Rightarrow> pystr" where
  "lit s = map of_char s"

text \<open>A text of ASCII characters as bytes.\<close>

definition blit :: "string \<Rightarrow> bytes" where
  "blit s = map word_of_nat (lit s)"

text \<open>\<open>sub in xs\<close>, for \<open>bytes\<close> and for \<open>str\<close>.\<close>

fun contains :: "'a list \<Rightarrow> 'a list \<Rightarrow> bool" where
  "contains p [] = (p = [])"
| "contains p (x # xs) = (prefix p (x # xs) \<or> contains p xs)"

lemma contains_iff [bytes_simps]: "contains p xs \<longleftrightarrow> (\<exists>us vs. xs = us @ p @ vs)"
proof (induction xs)
  case Nil
  then show ?case by simp
next
  case (Cons x xs)
  show ?case
  proof
    assume "contains p (x # xs)"
    then consider "prefix p (x # xs)" | us vs where "xs = us @ p @ vs"
      using Cons.IH by auto
    then show "\<exists>us vs. x # xs = us @ p @ vs"
    proof cases
      case 1
      then show ?thesis by (auto simp: prefix_def intro: exI [of _ "[]"])
    next
      case 2
      then have "x # xs = (x # us) @ p @ vs" by simp
      then show ?thesis by blast
    qed
  next
    assume "\<exists>us vs. x # xs = us @ p @ vs"
    then obtain us vs where eq: "x # xs = us @ p @ vs" by blast
    show "contains p (x # xs)"
    proof (cases us)
      case Nil
      with eq have "prefix p (x # xs)" by (metis append_Nil prefixI)
      then show ?thesis by simp
    next
      case (Cons u us')
      with eq have "xs = us' @ p @ vs" by simp
      with Cons.IH show ?thesis by auto
    qed
  qed
qed

lemma contains_append_left: "contains p xs \<Longrightarrow> contains p (xs @ ys)"
  by (auto simp: contains_iff) (metis append.assoc)

lemma contains_append_right: "contains p ys \<Longrightarrow> contains p (xs @ ys)"
  by (auto simp: contains_iff) (metis append.assoc)

lemma contains_single [simp]: "contains [x] xs \<longleftrightarrow> x \<in> set xs"
  by (auto simp: contains_iff in_set_conv_decomp)

text \<open>\<open>xs.index(x)\<close> for one element; \<open>None\<close> is the \<open>ValueError\<close>.\<close>

fun index_of :: "'a \<Rightarrow> 'a list \<Rightarrow> nat option" where
  "index_of x [] = None"
| "index_of x (y # ys) = (if y = x then Some 0 else map_option Suc (index_of x ys))"

lemma index_of_None [simp]: "index_of x xs = None \<longleftrightarrow> x \<notin> set xs"
  by (induction xs) auto

lemma index_of_notin [simp]: "x \<notin> set xs \<Longrightarrow> index_of x xs = None"
  by simp

lemma index_of_append: "x \<notin> set us \<Longrightarrow> index_of x (us @ x # vs) = Some (length us)"
  by (induction us) auto

lemma index_of_SomeD:
  "index_of x xs = Some i \<Longrightarrow> i < length xs \<and> xs ! i = x \<and> x \<notin> set (take i xs)"
  by (induction xs arbitrary: i) (auto split: if_splits)

text \<open>\<open>xs.split(sep, 1)\<close> at one element: the part before and the part after, if \<open>sep\<close> occurs.\<close>

fun split_once :: "'a \<Rightarrow> 'a list \<Rightarrow> 'a list \<times> 'a list option" where
  "split_once x [] = ([], None)"
| "split_once x (y # ys) =
     (if y = x then ([], Some ys)
      else (let (a, b) = split_once x ys in (y # a, b)))"

definition before :: "'a \<Rightarrow> 'a list \<Rightarrow> 'a list" where
  "before x xs = takeWhile (\<lambda>y. y \<noteq> x) xs"   \<comment> \<open>\<open>xs.split(x)[0]\<close>\<close>

lemma split_once_fst: "fst (split_once x xs) = before x xs"
  by (induction xs) (auto simp: before_def split: prod.splits)

lemma before_append [simp]: "x \<notin> set us \<Longrightarrow> before x (us @ x # vs) = us"
  by (induction us) (auto simp: before_def)

lemma before_id [simp]: "x \<notin> set us \<Longrightarrow> before x us = us"
  by (induction us) (auto simp: before_def)

text \<open>\<open>xs.split(sep)\<close> at one element: all parts.\<close>

fun split_all :: "'a \<Rightarrow> 'a list \<Rightarrow> 'a list list" where
  "split_all x [] = [[]]"
| "split_all x (y # ys) =
     (if y = x then [] # split_all x ys
      else (case split_all x ys of [] \<Rightarrow> [[y]] | w # ws \<Rightarrow> (y # w) # ws))"

lemma split_all_neq_Nil [simp]: "split_all x xs \<noteq> []"
  by (induction xs) (auto split: list.splits)

text \<open>\<open>xs.partition(sep)[2]\<close> and the test whether \<open>sep\<close> occurs, for a separator of several
  elements: the suffix after the first occurrence.\<close>

fun after_sep :: "'a list \<Rightarrow> 'a list \<Rightarrow> 'a list option" where
  "after_sep p [] = (if p = [] then Some [] else None)"
| "after_sep p (x # xs) =
     (if prefix p (x # xs) then Some (drop (length p) (x # xs)) else after_sep p xs)"

lemma after_sep_None: "after_sep p xs = None \<longleftrightarrow> \<not> contains p xs"
  by (induction xs) auto

lemma after_sep_SomeD: "after_sep p xs = Some ys \<Longrightarrow> \<exists>us. xs = us @ p @ ys"
proof (induction xs)
  case Nil
  then show ?case by (auto split: if_splits)
next
  case (Cons x xs)
  show ?case
  proof (cases "prefix p (x # xs)")
    case True
    then obtain vs where "x # xs = p @ vs" by (auto simp: prefix_def)
    moreover from this Cons.prems True have "ys = vs" by (metis append_eq_conv_conj after_sep.simps(2) option.inject)
    ultimately show ?thesis by (metis append_Nil)
  next
    case False
    with Cons.prems have "after_sep p xs = Some ys" by simp
    then obtain us where "xs = us @ p @ ys" using Cons.IH by blast
    then have "x # xs = (x # us) @ p @ ys" by simp
    then show ?thesis by blast
  qed
qed

text \<open>\<open>s.lower()\<close> of an ASCII text.\<close>

definition ascii_lower :: "pystr \<Rightarrow> pystr" where
  "ascii_lower s = map (\<lambda>c. if 65 \<le> c \<and> c \<le> 90 then c + 32 else c) s"

section \<open>Whitespace\<close>

text \<open>The code points \<open>str.isspace\<close> holds for, which \<open>strip()\<close> and \<open>split()\<close> use; on \<open>bytes\<close>
  the six ASCII ones.\<close>

definition is_space :: "nat \<Rightarrow> bool" where
  "is_space c \<longleftrightarrow> c \<in> set [9, 10, 11, 12, 13, 28, 29, 30, 31, 32, 133, 160, 5760,
     8192, 8193, 8194, 8195, 8196, 8197, 8198, 8199, 8200, 8201, 8202,
     8232, 8233, 8239, 8287, 12288]"

definition is_space_byte :: "byte \<Rightarrow> bool" where
  "is_space_byte c \<longleftrightarrow> c \<in> set [9, 10, 11, 12, 13, 32]"

definition strip_by :: "('a \<Rightarrow> bool) \<Rightarrow> 'a list \<Rightarrow> 'a list" where
  "strip_by p xs = rev (dropWhile p (rev (dropWhile p xs)))"

abbreviation strip :: "pystr \<Rightarrow> pystr" where
  "strip \<equiv> strip_by is_space"

lemma strip_by_id: "xs \<noteq> [] \<Longrightarrow> \<not> p (hd xs) \<Longrightarrow> \<not> p (last xs) \<Longrightarrow> strip_by p xs = xs"
proof -
  assume a: "xs \<noteq> []" "\<not> p (hd xs)" "\<not> p (last xs)"
  have "dropWhile p xs = xs" using a by (cases xs) auto
  moreover have "dropWhile p (rev xs) = rev xs" using a by (cases "rev xs") (auto simp: last_rev hd_rev [symmetric])
  ultimately show ?thesis by (simp add: strip_by_def)
qed

text \<open>\<open>s.split()\<close>: the maximal runs of characters that are no whitespace.\<close>

fun words_aux :: "pystr \<Rightarrow> pystr \<Rightarrow> pystr list" where
  "words_aux w [] = (if w = [] then [] else [w])"
| "words_aux w (c # cs) =
     (if is_space c then (if w = [] then words_aux [] cs else w # words_aux [] cs)
      else words_aux (w @ [c]) cs)"

definition words :: "pystr \<Rightarrow> pystr list" where
  "words s = words_aux [] s"

lemma words_aux_no_space:
  "\<forall>c \<in> set w. \<not> is_space c \<Longrightarrow> u \<in> set (words_aux w s) \<Longrightarrow> u \<noteq> [] \<and> (\<forall>c \<in> set u. \<not> is_space c)"
proof (induction w s rule: words_aux.induct)
  case (1 w)
  then show ?case by (cases "w = []") simp_all
next
  case (2 w c cs)
  show ?case
  proof (cases "is_space c")
    case False
    then have "u \<in> set (words_aux (w @ [c]) cs)" using "2.prems" by simp
    moreover have "\<forall>c \<in> set (w @ [c]). \<not> is_space c" using "2.prems" False by simp
    ultimately show ?thesis using "2.IH"(3) [OF False] by blast
  next
    case True
    then have "u = w \<and> w \<noteq> [] \<or> u \<in> set (words_aux [] cs)"
      using "2.prems"(2) by (cases "w = []") auto
    then consider "u = w" "w \<noteq> []" | "u \<in> set (words_aux [] cs)" by blast
    then show ?thesis
    proof cases
      case 1
      with "2.prems"(1) show ?thesis by blast
    next
      case 2
      have nil: "\<forall>c \<in> set []. \<not> is_space c" by simp
      show ?thesis
        using "2.IH"(1) [OF True _ nil 2] "2.IH"(2) [OF True _ nil 2] by blast
    qed
  qed
qed

lemma words_no_space: "u \<in> set (words s) \<Longrightarrow> u \<noteq> [] \<and> (\<forall>c \<in> set u. \<not> is_space c)"
  using words_aux_no_space [of "[]"] by (simp add: words_def)

section \<open>Integers in decimal\<close>

fun dec_digits :: "nat \<Rightarrow> nat list" where
  "dec_digits n = (if n < 10 then [n] else dec_digits (n div 10) @ [n mod 10])"

declare dec_digits.simps [simp del]

definition str_of_nat :: "nat \<Rightarrow> pystr" where
  "str_of_nat n = map (\<lambda>d. 48 + d) (dec_digits n)"

text \<open>\<open>"%d" % n\<close> and \<open>str(n)\<close>.\<close>

definition str_of_int :: "int \<Rightarrow> pystr" where
  "str_of_int i = (if i < 0 then 45 # str_of_nat (nat (- i)) else str_of_nat (nat i))"

text \<open>\<open>"%02d" % n\<close>\<close>

definition str_of_nat2 :: "nat \<Rightarrow> pystr" where
  "str_of_nat2 n = (if n < 10 then 48 # str_of_nat n else str_of_nat n)"

text \<open>
  The first code points of the runs of ten decimal digits (Unicode category Nd) that \<open>int()\<close> reads.
\<close>

definition digit_zeros :: "nat list" where
  "digit_zeros = [48, 1632, 1776, 1984, 2406, 2534, 2662, 2790, 2918, 3046, 3174, 3302, 3430, 3558, 3664,
     3792, 3872, 4160, 4240, 6112, 6160, 6470, 6608, 6784, 6800, 6992, 7088, 7232, 7248,
     42528, 43216, 43264, 43472, 43504, 43600, 44016, 65296, 66720, 68912, 69734, 69872,
     69942, 70096, 70384, 70736, 70864, 71248, 71360, 71472, 71904, 72016, 72784, 73040,
     73120, 92768, 92864, 93008, 120782, 120792, 120802, 120812, 120822, 123200, 123632,
     125264, 130032]"

definition digit_val :: "nat \<Rightarrow> nat option" where
  "digit_val c = map_option (\<lambda>z. c - z) (List.find (\<lambda>z. z \<le> c \<and> c < z + 10) digit_zeros)"

text \<open>Digits with single underscores between them; the flag says a digit came just before.\<close>

fun parse_digits :: "nat \<Rightarrow> bool \<Rightarrow> pystr \<Rightarrow> nat option" where
  "parse_digits acc d [] = (if d then Some acc else None)"
| "parse_digits acc d (c # cs) =
     (case digit_val c of
        Some v \<Rightarrow> parse_digits (10 * acc + v) True cs
      | None \<Rightarrow> if c = 95 \<and> d then parse_digits acc False cs else None)"

text \<open>\<open>int(s)\<close>: \<open>None\<close> is the \<open>ValueError\<close>.  CPython refuses more than 4300 digits.\<close>

definition py_int :: "pystr \<Rightarrow> int option" where
  "py_int s =
     (let t = strip s;
          neg = (t \<noteq> [] \<and> hd t = 45);
          u = (if t \<noteq> [] \<and> (hd t = 45 \<or> hd t = 43) then tl t else t)
      in if 4300 < length (filter (\<lambda>c. c \<noteq> 95) u) then None
         else map_option (\<lambda>n. if neg then - int n else int n) (parse_digits 0 False u))"

text \<open>\<open>int(b)\<close> on \<open>bytes\<close>: the same on ASCII digits and ASCII whitespace.\<close>

definition py_int_bytes :: "bytes \<Rightarrow> int option" where
  "py_int_bytes b =
     (if list_all (\<lambda>c. unat c < 128 \<and> (is_space (unat c) \<longrightarrow> is_space_byte c)) b
      then py_int (map unat b) else None)"

lemma dec_digits_small: "d \<in> set (dec_digits n) \<Longrightarrow> d < 10"
proof (induction n rule: dec_digits.induct)
  case (1 n)
  then show ?case by (cases "n < 10") (auto simp: dec_digits.simps [of n])
qed

lemma digit_val_ascii [simp]: "d < 10 \<Longrightarrow> digit_val (48 + d) = Some d"
  by (simp add: digit_val_def digit_zeros_def)

lemma parse_digits_acc:
  "\<forall>d \<in> set ds. d < 10 \<Longrightarrow> ds \<noteq> [] \<Longrightarrow>
     parse_digits a f (map (\<lambda>d. 48 + d) ds) = Some (foldl (\<lambda>x d. 10 * x + d) a ds)"
proof (induction ds arbitrary: a f)
  case Nil
  then show ?case by simp
next
  case (Cons d ds)
  then show ?case by (cases "ds = []") simp_all
qed

lemma dec_digits_neq_Nil [simp]: "dec_digits n \<noteq> []"
  by (subst dec_digits.simps) simp

lemma foldl_dec_digits: "foldl (\<lambda>x d. 10 * x + d) 0 (dec_digits n) = n"
proof (induction n rule: dec_digits.induct)
  case (1 n)
  then show ?case
    by (cases "n < 10") (simp_all add: dec_digits.simps [of n])
qed

lemma parse_str_of_nat: "parse_digits 0 f (str_of_nat n) = Some n"
  unfolding str_of_nat_def
  by (subst parse_digits_acc) (auto simp: dec_digits_small foldl_dec_digits)

lemma str_of_nat_chars: "c \<in> set (str_of_nat n) \<Longrightarrow> 48 \<le> c \<and> c < 58"
  by (auto simp: str_of_nat_def dest: dec_digits_small)

lemma str_of_nat_neq_Nil [simp]: "str_of_nat n \<noteq> []"
  by (simp add: str_of_nat_def)

lemma digit_not_space: "48 \<le> c \<Longrightarrow> c < 58 \<Longrightarrow> \<not> is_space c"
  by (auto simp: is_space_def)

lemma str_of_int_chars: "c \<in> set (str_of_int i) \<Longrightarrow> c = 45 \<or> 48 \<le> c \<and> c < 58"
  by (auto simp: str_of_int_def dest: str_of_nat_chars split: if_splits)

lemma str_of_int_not_space: "c \<in> set (str_of_int i) \<Longrightarrow> \<not> is_space c"
  using str_of_int_chars [of c i] digit_not_space [of c] by (auto simp: is_space_def)

lemma strip_str_of_int: "strip (str_of_int i) = str_of_int i"
proof -
  have ne: "str_of_int i \<noteq> []" by (simp add: str_of_int_def)
  show ?thesis
    by (rule strip_by_id [OF ne]) (use ne in \<open>auto intro!: str_of_int_not_space [of _ i] hd_in_set last_in_set\<close>)
qed

section \<open>UTF-8\<close>

text \<open>\<open>s.encode()\<close>; a surrogate raises \<open>UnicodeEncodeError\<close>.\<close>

definition is_scalar :: "nat \<Rightarrow> bool" where
  "is_scalar c \<longleftrightarrow> c < 55296 \<or> 57344 \<le> c \<and> c < 1114112"

definition utf8_char :: "nat \<Rightarrow> bytes" where
  "utf8_char c =
     (if c < 128 then [word_of_nat c]
      else if c < 2048 then [word_of_nat (192 + c div 64), word_of_nat (128 + c mod 64)]
      else if c < 65536 then
        [word_of_nat (224 + c div 4096), word_of_nat (128 + c div 64 mod 64),
         word_of_nat (128 + c mod 64)]
      else
        [word_of_nat (240 + c div 262144), word_of_nat (128 + c div 4096 mod 64),
         word_of_nat (128 + c div 64 mod 64), word_of_nat (128 + c mod 64)])"

definition encode :: "pystr \<Rightarrow> exn + bytes" where
  "encode s = (if list_all is_scalar s then Inr (concat (map utf8_char s)) else Inl UnicodeEncodeError)"

text \<open>
  \<open>b.decode(errors="replace")\<close>: one step reads the code point at the head and says how many
  bytes it took; a malformed sequence gives U+FFFD for its longest valid beginning.
\<close>

definition is_cont :: "nat \<Rightarrow> bool" where
  "is_cont x \<longleftrightarrow> 128 \<le> x \<and> x < 192"

definition second_ok :: "nat \<Rightarrow> nat \<Rightarrow> bool" where
  "second_ok b x \<longleftrightarrow>
     (if b = 224 then 160 \<le> x \<and> x < 192
      else if b = 237 then 128 \<le> x \<and> x < 160
      else if b = 240 then 144 \<le> x \<and> x < 192
      else if b = 244 then 128 \<le> x \<and> x < 144
      else is_cont x)"

definition nth_byte :: "bytes \<Rightarrow> nat \<Rightarrow> nat" where
  "nth_byte bs i = (if i < length bs then unat (bs ! i) else 0)"   \<comment> \<open>0 is no continuation byte\<close>

definition utf8_step :: "bytes \<Rightarrow> nat \<times> nat" where
  "utf8_step bs =
     (let b = nth_byte bs 0; c = nth_byte bs 1; d = nth_byte bs 2; e = nth_byte bs 3
      in if b < 128 then (b, 1)
         else if 194 \<le> b \<and> b < 224 then
           (if is_cont c then ((b - 192) * 64 + (c - 128), 2) else (65533, 1))
         else if 224 \<le> b \<and> b < 240 then
           (if \<not> second_ok b c then (65533, 1)
            else if \<not> is_cont d then (65533, 2)
            else ((b - 224) * 4096 + (c - 128) * 64 + (d - 128), 3))
         else if 240 \<le> b \<and> b < 245 then
           (if \<not> second_ok b c then (65533, 1)
            else if \<not> is_cont d then (65533, 2)
            else if \<not> is_cont e then (65533, 3)
            else ((b - 240) * 262144 + (c - 128) * 4096 + (d - 128) * 64 + (e - 128), 4))
         else (65533, 1))"

lemma utf8_step_pos: "0 < snd (utf8_step bs)"
  by (simp add: utf8_step_def Let_def)

function decode :: "bytes \<Rightarrow> pystr" where
  "decode bs =
     (if bs = [] then []
      else fst (utf8_step bs) # decode (drop (snd (utf8_step bs)) bs))"
  by pat_completeness auto
termination
  by (relation "measure length") (auto simp: utf8_step_pos)

declare decode.simps [simp del]

lemma decode_Nil [simp]: "decode [] = []"
  by (simp add: decode.simps)

lemma decode_ascii_Cons: "unat b < 128 \<Longrightarrow> decode (b # bs) = unat b # decode bs"
  by (simp add: decode.simps [of "b # bs"] utf8_step_def nth_byte_def Let_def)

lemma decode_ascii: "\<forall>b \<in> set bs. unat b < 128 \<Longrightarrow> decode bs = map unat bs"
  by (induction bs) (simp_all add: decode_ascii_Cons)

lemma unat_byte: "n < 256 \<Longrightarrow> unat (word_of_nat n :: byte) = n"
  by (simp add: unat_of_nat)

lemma nth_byte_Cons [bytes_simps]:
  "n < 256 \<Longrightarrow> nth_byte (word_of_nat n # bs) 0 = n"
  "nth_byte (w # bs) (Suc i) = nth_byte bs i"
  by (simp_all add: nth_byte_def unat_byte)

lemma utf8_step_2:
  assumes "194 \<le> b" "b < 224" "128 \<le> c" "c < 192"
  shows "utf8_step (word_of_nat b # word_of_nat c # bs) = ((b - 192) * 64 + (c - 128), 2)"
  using assms by (simp add: utf8_step_def Let_def bytes_simps is_cont_def numeral_2_eq_2 numeral_3_eq_3)

lemma utf8_step_3:
  assumes "224 \<le> b" "b < 240" "second_ok b c" "c < 256" "128 \<le> d" "d < 192"
  shows "utf8_step (word_of_nat b # word_of_nat c # word_of_nat d # bs)
           = ((b - 224) * 4096 + (c - 128) * 64 + (d - 128), 3)"
  using assms by (simp add: utf8_step_def Let_def bytes_simps is_cont_def numeral_2_eq_2 numeral_3_eq_3)

lemma utf8_step_4:
  assumes "240 \<le> b" "b < 245" "second_ok b c" "c < 256" "128 \<le> d" "d < 192" "128 \<le> e" "e < 192"
  shows "utf8_step (word_of_nat b # word_of_nat c # word_of_nat d # word_of_nat e # bs)
           = ((b - 240) * 262144 + (c - 128) * 4096 + (d - 128) * 64 + (e - 128), 4)"
  using assms by (simp add: utf8_step_def Let_def bytes_simps is_cont_def numeral_2_eq_2 numeral_3_eq_3)

lemma utf8_step_char:
  assumes "is_scalar c"
  shows "utf8_step (utf8_char c @ bs) = (c, length (utf8_char c))"
proof -
  have up: "c < 1114112" and sur: "c < 55296 \<or> 57344 \<le> c" using assms by (auto simp: is_scalar_def)
  consider "c < 128" | "128 \<le> c" "c < 2048" | "2048 \<le> c" "c < 65536" | "65536 \<le> c" by linarith
  then show ?thesis
  proof cases
    case 1
    then show ?thesis by (simp add: utf8_char_def utf8_step_def Let_def bytes_simps)
  next
    case 2
    then have ch: "utf8_char c = [word_of_nat (192 + c div 64), word_of_nat (128 + c mod 64)]"
      by (simp add: utf8_char_def)
    have "2 \<le> c div 64" using 2 by (simp add: less_eq_div_iff_mult_less_eq)
    moreover have "c div 64 < 32" using 2 by (simp add: div_less_iff_less_mult)
    ultimately show ?thesis
      using utf8_step_2 [of "192 + c div 64" "128 + c mod 64" bs] unfolding ch by simp
  next
    case 3
    then have ch: "utf8_char c = [word_of_nat (224 + c div 4096), word_of_nat (128 + c div 64 mod 64),
        word_of_nat (128 + c mod 64)]"
      by (simp add: utf8_char_def)
    have a: "c div 4096 < 16" using 3 by (simp add: div_less_iff_less_mult)
    have q: "c div 64 = c div 4096 * 64 + c div 64 mod 64"
      using div_mult_mod_eq [of "c div 64" 64] by (simp add: div_mult2_eq [symmetric])
    have lo: "32 \<le> c div 64" using 3 by (simp add: less_eq_div_iff_mult_less_eq)
    have "c div 64 < 864 \<or> 896 \<le> c div 64"
      using sur by (auto simp: less_eq_div_iff_mult_less_eq div_less_iff_less_mult)
    with q lo have "c div 4096 = 0 \<longrightarrow> 32 \<le> c div 64 mod 64" "c div 4096 = 13 \<longrightarrow> c div 64 mod 64 < 32"
      by linarith+
    then have sec: "second_ok (224 + c div 4096) (128 + c div 64 mod 64)"
      unfolding second_ok_def is_cont_def using a by auto
    have "c div 4096 * 4096 + c div 64 mod 64 * 64 + c mod 64 = c"
      using q div_mult_mod_eq [of c 64] by linarith
    then show ?thesis
      using utf8_step_3 [OF _ _ sec, of "128 + c mod 64" bs] a unfolding ch by simp
  next
    case 4
    then have ch: "utf8_char c = [word_of_nat (240 + c div 262144), word_of_nat (128 + c div 4096 mod 64),
        word_of_nat (128 + c div 64 mod 64), word_of_nat (128 + c mod 64)]"
      by (simp add: utf8_char_def)
    have a: "c div 262144 < 5" using up by (simp add: div_less_iff_less_mult)
    have q: "c div 4096 = c div 262144 * 64 + c div 4096 mod 64"
      using div_mult_mod_eq [of "c div 4096" 64] by (simp add: div_mult2_eq [symmetric])
    have r: "c div 64 = c div 4096 * 64 + c div 64 mod 64"
      using div_mult_mod_eq [of "c div 64" 64] by (simp add: div_mult2_eq [symmetric])
    have "16 \<le> c div 4096" using 4 by (simp add: less_eq_div_iff_mult_less_eq)
    moreover have "c div 4096 < 272" using up by (simp add: div_less_iff_less_mult)
    ultimately have "c div 262144 = 0 \<longrightarrow> 16 \<le> c div 4096 mod 64" "c div 262144 = 4 \<longrightarrow> c div 4096 mod 64 < 16"
      using q by linarith+
    then have sec: "second_ok (240 + c div 262144) (128 + c div 4096 mod 64)"
      unfolding second_ok_def is_cont_def using a by auto
    have "c div 262144 * 262144 + c div 4096 mod 64 * 4096 + c div 64 mod 64 * 64 + c mod 64 = c"
      using q r div_mult_mod_eq [of c 64] by linarith
    then show ?thesis
      using utf8_step_4 [OF _ _ sec, of "128 + c div 64 mod 64" "128 + c mod 64" bs] a unfolding ch
      by simp
  qed
qed

lemma utf8_char_neq_Nil [simp]: "utf8_char c \<noteq> []"
  by (simp add: utf8_char_def)

lemma decode_concat_utf8:
  assumes "list_all is_scalar s"
  shows "decode (concat (map utf8_char s) @ bs) = s @ decode bs"
  using assms
proof (induction s)
  case Nil
  then show ?case by simp
next
  case (Cons c s)
  then show ?case
    by (subst decode.simps) (simp add: utf8_step_char)
qed

text \<open>Decoding what \<open>encode\<close> produced gives the text back.\<close>

lemma decode_encode: "encode s = Inr b \<Longrightarrow> decode b = s"
  using decode_concat_utf8 [of s "[]"] by (auto simp: encode_def split: if_splits)

lemma encode_ascii: "\<forall>c \<in> set s. c < 128 \<Longrightarrow> encode s = Inr (map word_of_nat s)"
proof -
  assume a: "\<forall>c \<in> set s. c < 128"
  then have "list_all is_scalar s" by (auto simp: list_all_iff is_scalar_def)
  moreover from a have "concat (map utf8_char s) = map word_of_nat s"
    by (induction s) (simp_all add: utf8_char_def)
  ultimately show ?thesis by (simp add: encode_def)
qed

text \<open>\<open>b.decode()\<close>: strict, so that \<open>UnicodeDecodeError\<close> (a \<open>ValueError\<close>) is raised unless the
  bytes are the encoding of a text.\<close>

definition decode_strict :: "bytes \<Rightarrow> exn + pystr" where
  "decode_strict b = (if encode (decode b) = Inr b then Inr (decode b) else Inl ValueError)"

lemma decode_strict_encode: "encode s = Inr b \<Longrightarrow> decode_strict b = Inr s"
  by (simp add: decode_strict_def decode_encode)

section \<open>The decimal round trip\<close>

text \<open>Rendering and reading back is the identity, within CPython's digit limit.\<close>

lemma py_int_str_of_int:
  assumes "length (str_of_int i) \<le> 4300"
  shows "py_int (str_of_int i) = Some i"
proof (cases "i < 0")
  case True
  then have s: "str_of_int i = 45 # str_of_nat (nat (- i))" by (simp add: str_of_int_def)
  have "length (filter (\<lambda>c. c \<noteq> 95) (str_of_nat (nat (- i)))) \<le> 4300"
    using assms s by (auto intro: le_trans [OF length_filter_le])
  with s True show ?thesis
    unfolding py_int_def strip_str_of_int by (simp add: parse_str_of_nat)
next
  case False
  then have s: "str_of_int i = str_of_nat (nat i)" by (simp add: str_of_int_def)
  have h: "48 \<le> hd (str_of_nat (nat i))"
    using str_of_nat_chars hd_in_set str_of_nat_neq_Nil by blast
  have "length (filter (\<lambda>c. c \<noteq> 95) (str_of_nat (nat i))) \<le> 4300"
    using assms s by (auto intro: le_trans [OF length_filter_le])
  with s False h show ?thesis
    unfolding py_int_def strip_str_of_int by (simp add: parse_str_of_nat)
qed

lemma str_of_nat_inject: "str_of_nat m = str_of_nat n \<longleftrightarrow> m = n"
  by (metis parse_str_of_nat option.inject)

lemma str_of_int_inject: "str_of_int i = str_of_int j \<longleftrightarrow> i = j"
proof -
  have "str_of_nat n \<noteq> 45 # xs" for n xs using str_of_nat_chars [of 45 n] by auto
  then show ?thesis by (auto simp: str_of_int_def str_of_nat_inject dest: sym split: if_splits)
qed

end
