(* ===== verification/Paths.thy ===== *)
theory Paths
  imports Py_Text
begin

text \<open>
  \<open>os.path\<close> (posix), as \<open>scripts/bake.py\<close> uses it: \<open>join\<close>, \<open>dirname\<close>, \<open>basename\<close>, \<open>isabs\<close>,
  \<open>normpath\<close>, \<open>abspath\<close>, and the \<open>"*.snap"\<close> filter of \<open>glob\<close>.  The lemmas are what the garbage
  collector relies on: the name of a directory entry is determined by its path, joining and
  splitting are inverse, and suffixes added to a path change no directory.
\<close>

abbreviation slash :: nat where "slash \<equiv> 47"

definition isabs :: "pystr \<Rightarrow> bool" where
  "isabs p \<longleftrightarrow> p \<noteq> [] \<and> hd p = slash"

definition join :: "pystr \<Rightarrow> pystr \<Rightarrow> pystr" where
  "join a b = (if isabs b then b else if a = [] \<or> last a = slash then a @ b else a @ slash # b)"

text \<open>\<open>p[:i]\<close> and \<open>p[i:]\<close> for \<open>i = p.rfind('/') + 1\<close>.\<close>

definition split_last :: "pystr \<Rightarrow> pystr \<times> pystr" where
  "split_last p = (rev (dropWhile (\<lambda>c. c \<noteq> slash) (rev p)), rev (takeWhile (\<lambda>c. c \<noteq> slash) (rev p)))"

definition basename :: "pystr \<Rightarrow> pystr" where
  "basename p = snd (split_last p)"

definition dirname :: "pystr \<Rightarrow> pystr" where
  "dirname p =
     (let head = fst (split_last p)
      in if head \<noteq> [] \<and> head \<noteq> replicate (length head) slash
         then rev (dropWhile (\<lambda>c. c = slash) (rev head)) else head)"

text \<open>\<open>normpath\<close>, component by component; \<open>slashes\<close> is Python's \<open>initial_slashes\<close>.\<close>

definition initial_slashes :: "pystr \<Rightarrow> nat" where
  "initial_slashes p =
     (if \<not> isabs p then 0
      else if prefix [slash, slash] p \<and> \<not> prefix [slash, slash, slash] p then 2 else 1)"

fun norm_comps :: "nat \<Rightarrow> pystr list \<Rightarrow> pystr list \<Rightarrow> pystr list" where
  "norm_comps sl new [] = new"
| "norm_comps sl new (c # cs) =
     (if c = [] \<or> c = lit ''.'' then norm_comps sl new cs
      else if c \<noteq> lit ''..'' \<or> (sl = 0 \<and> new = []) \<or> (new \<noteq> [] \<and> last new = lit ''..'')
        then norm_comps sl (new @ [c]) cs
      else if new \<noteq> [] then norm_comps sl (butlast new) cs
      else norm_comps sl new cs)"

fun join_comps :: "pystr list \<Rightarrow> pystr" where
  "join_comps [] = []"
| "join_comps [c] = c"
| "join_comps (c # cs) = c @ slash # join_comps cs"

definition normpath :: "pystr \<Rightarrow> pystr" where
  "normpath p =
     (if p = [] then lit ''.''
      else let sl = initial_slashes p;
               q = replicate sl slash @ join_comps (norm_comps sl [] (split_all slash p))
           in if q = [] then lit ''.'' else q)"

definition abspath :: "pystr \<Rightarrow> pystr \<Rightarrow> pystr" where
  "abspath cwd p = normpath (if isabs p then p else join cwd p)"

definition endswith :: "pystr \<Rightarrow> pystr \<Rightarrow> bool" where
  "endswith s p \<longleftrightarrow> suffix p s"

text \<open>The names \<open>glob\<close> lists for the pattern \<open>"*.snap"\<close>: not hidden, and with that ending.\<close>

definition is_snap_name :: "pystr \<Rightarrow> bool" where
  "is_snap_name n \<longleftrightarrow> endswith n (lit ''.snap'') \<and> hd n \<noteq> 46"

lemma split_last_append: "fst (split_last p) @ snd (split_last p) = p"
  unfolding split_last_def fst_conv snd_conv
  by (metis rev_append rev_rev_ident takeWhile_dropWhile_id)

lemma basename_no_slash: "slash \<notin> set (basename p)"
  by (auto simp: basename_def split_last_def dest: set_takeWhileD)

lemma not_isabs: "slash \<notin> set n \<Longrightarrow> \<not> isabs n"
  by (cases n) (auto simp: isabs_def)

lemma basename_join:
  assumes "slash \<notin> set n" and "n \<noteq> []"
  shows "basename (join d n) = n"
proof -
  have "\<forall>c \<in> set (rev n). c \<noteq> slash" using assms(1) by auto
  then have "takeWhile (\<lambda>c. c \<noteq> slash) (rev n @ x) = rev n @ takeWhile (\<lambda>c. c \<noteq> slash) x" for x
    by (intro takeWhile_append2) auto
  moreover have "\<not> isabs n" using assms by (simp add: not_isabs)
  moreover have "takeWhile (\<lambda>c. c \<noteq> slash) (rev d) = []" if "last d = slash"
    using that by (cases d rule: rev_cases) auto
  ultimately show ?thesis
    by (auto simp: basename_def split_last_def join_def)
qed

section \<open>Normal paths\<close>

text \<open>A file name that is no special component.\<close>

definition plain :: "pystr \<Rightarrow> bool" where
  "plain n \<longleftrightarrow> n \<noteq> [] \<and> slash \<notin> set n \<and> n \<noteq> lit ''.'' \<and> n \<noteq> lit ''..''"

lemma split_all_no_sep: "x \<notin> set n \<Longrightarrow> split_all x n = [n]"
  by (induction n) auto

lemma split_all_append: "split_all x (u @ x # v) = split_all x u @ split_all x v"
  by (induction u) (auto split: list.splits)

lemma split_all_no_sep_in: "c \<in> set (split_all x xs) \<Longrightarrow> x \<notin> set c"
  by (induction xs arbitrary: c) (auto split: if_splits list.splits)

lemma norm_comps_append: "norm_comps sl new (xs @ ys) = norm_comps sl (norm_comps sl new xs) ys"
  by (induction sl new xs rule: norm_comps.induct) auto

lemma norm_comps_plain: "plain n \<Longrightarrow> norm_comps sl new [n] = new @ [n]"
  by (simp add: plain_def)

lemma norm_comps_Nil: "norm_comps sl new [[]] = new"
  by simp

lemma norm_comps_parts:
  "c \<in> set (norm_comps sl new cs) \<Longrightarrow> (\<forall>d \<in> set new. d \<noteq> [] \<and> slash \<notin> set d) \<Longrightarrow>
     (\<forall>d \<in> set cs. slash \<notin> set d) \<Longrightarrow> c \<noteq> [] \<and> slash \<notin> set c"
proof (induction sl new cs rule: norm_comps.induct)
  case (1 sl new)
  then show ?case by simp
next
  case (2 sl new c' cs)
  show ?case
  proof (cases "c' = [] \<or> c' = lit ''.''")
    case True
    with 2 show ?thesis by simp
  next
    case False
    note nf = this
    show ?thesis
    proof (cases "c' \<noteq> lit ''..'' \<or> (sl = 0 \<and> new = []) \<or> (new \<noteq> [] \<and> last new = lit ''..'')")
      case True
      with 2(2) [OF nf True] 2(5-7) nf show ?thesis by simp
    next
      case False
      show ?thesis
      proof (cases "new \<noteq> []")
        case True
        with 2(3) [OF nf False True] 2(5-7) nf False show ?thesis by (auto dest: in_set_butlastD)
      next
        case new: False
        with 2(4) [OF nf False new] 2(5-7) nf False show ?thesis by simp
      qed
    qed
  qed
qed

lemma join_comps_snoc: "cs \<noteq> [] \<Longrightarrow> join_comps (cs @ [n]) = join_comps cs @ slash # n"
  by (induction cs rule: join_comps.induct) auto

lemma last_join_comps: "cs \<noteq> [] \<Longrightarrow> last cs \<noteq> [] \<Longrightarrow> join_comps cs \<noteq> [] \<and> last (join_comps cs) = last (last cs)"
  by (induction cs rule: join_comps.induct) auto

lemma initial_slashes_join:
  assumes "isabs d" and "plain n"
  shows "initial_slashes (join d n) = initial_slashes d"
proof -
  from assms(1) obtain d' where d: "d = slash # d'" by (cases d) (auto simp: isabs_def)
  obtain m n' where n: "n = m # n'" "m \<noteq> slash" using assms(2) by (cases n) (auto simp: plain_def)
  show ?thesis
  proof (cases d')
    case Nil
    then show ?thesis using d n by (simp add: join_def isabs_def initial_slashes_def)
  next
    case (Cons a d'')
    then show ?thesis using d n by (cases d'') (auto simp: join_def isabs_def initial_slashes_def)
  qed
qed

lemma split_all_join:
  assumes "isabs d" and "plain n"
  shows "norm_comps sl [] (split_all slash (join d n)) = norm_comps sl [] (split_all slash d) @ [n]"
proof -
  have sn: "split_all slash n = [n]" using assms(2) by (simp add: plain_def split_all_no_sep)
  have nabs: "\<not> isabs n" using assms(2) by (simp add: plain_def not_isabs)
  have "d \<noteq> []" using assms(1) by (simp add: isabs_def)
  show ?thesis
  proof (cases "last d = slash")
    case True
    then obtain e where e: "d = e @ [slash]" using \<open>d \<noteq> []\<close> by (metis append_butlast_last_id)
    then have "split_all slash d = split_all slash e @ [[]]" using split_all_append [of slash e "[]"] by simp
    moreover have "join d n = e @ slash # n" using e nabs by (simp add: join_def)
    ultimately show ?thesis
      by (simp add: split_all_append sn norm_comps_append norm_comps_plain [OF assms(2)] norm_comps_Nil
          del: norm_comps.simps)
  next
    case False
    then show ?thesis using nabs \<open>d \<noteq> []\<close>
      by (simp add: join_def split_all_append sn norm_comps_append norm_comps_plain [OF assms(2)]
          del: norm_comps.simps)
  qed
qed

text \<open>Normalising a directory entry normalises the directory.\<close>

lemma normpath_join:
  assumes "isabs d" and "plain n"
  shows "normpath (join d n) = join (normpath d) n"
proof -
  let ?sl = "initial_slashes d" and ?cs = "norm_comps (initial_slashes d) [] (split_all slash d)"
  have nabs: "\<not> isabs n" and "n \<noteq> []" using assms(2) by (simp_all add: plain_def not_isabs)
  have dne: "d \<noteq> []" and jne: "join d n \<noteq> []" using assms(1) \<open>n \<noteq> []\<close> by (auto simp: isabs_def join_def)
  have sl: "0 < ?sl" using assms(1) by (simp add: initial_slashes_def)
  have nd: "normpath d = replicate ?sl slash @ join_comps ?cs"
    using dne sl by (simp add: normpath_def Let_def)
  have nj: "normpath (join d n) = replicate ?sl slash @ join_comps (?cs @ [n])"
    using jne sl by (simp add: normpath_def Let_def initial_slashes_join [OF assms] split_all_join [OF assms])
  show ?thesis
  proof (cases "?cs = []")
    case True
    have "last (replicate ?sl slash) = slash" using sl by (simp add: last_replicate)
    then show ?thesis using True nd nj nabs sl by (simp add: join_def)
  next
    case False
    then have "last ?cs \<in> set ?cs" by simp
    then have "last ?cs \<noteq> [] \<and> slash \<notin> set (last ?cs)"
      by (rule norm_comps_parts) (auto dest: split_all_no_sep_in)
    moreover from this have "last (last ?cs) \<noteq> slash" by (metis last_in_set)
    ultimately have "join_comps ?cs \<noteq> []" "last (join_comps ?cs) \<noteq> slash"
      using last_join_comps [OF False] by auto
    then show ?thesis using nd nj nabs False by (simp add: join_def join_comps_snoc)
  qed
qed

lemma abspath_join:
  assumes "isabs cwd" and "plain n"
  shows "abspath cwd (join d n) = join (abspath cwd d) n"
proof (cases "isabs d")
  case True
  then have "isabs (join d n)" using assms(2) by (auto simp: isabs_def join_def plain_def)
  then show ?thesis using True normpath_join [OF True assms(2)] by (simp add: abspath_def)
next
  case False
  have nabs: "\<not> isabs n" using assms(2) by (simp add: plain_def not_isabs)
  have cne: "cwd \<noteq> []" using assms(1) by (simp add: isabs_def)
  have abs: "isabs (join cwd d)" using assms(1) False by (auto simp: isabs_def join_def)
  have nj: "\<not> isabs (join d n)"
    using False nabs by (cases d) (auto simp: join_def isabs_def)
  have "join cwd (join d n) = join (join cwd d) n"
    using False nabs nj cne by (auto simp: join_def)
  then show ?thesis
    using False nj normpath_join [OF abs assms(2)] by (simp add: abspath_def)
qed

lemma join_inj: "plain m \<Longrightarrow> plain n \<Longrightarrow> join d m = join d n \<Longrightarrow> m = n"
  by (metis basename_join plain_def)

lemma join_append: "plain n \<Longrightarrow> join d n @ x = join d (n @ x)"
proof -
  assume "plain n"
  then have "\<not> isabs n" "n \<noteq> []" by (simp_all add: plain_def not_isabs)
  moreover from this have "\<not> isabs (n @ x)" by (simp add: isabs_def)
  ultimately show ?thesis by (simp add: join_def)
qed

lemma snap_name_plain:
  assumes "is_snap_name n" and "slash \<notin> set n"
  shows "plain n"
proof -
  obtain u where "n = u @ lit ''.snap''" using assms(1) by (auto simp: is_snap_name_def endswith_def suffix_def)
  then have "5 \<le> length n" by (simp add: lit_def)
  then show ?thesis using assms(2) by (auto simp: plain_def lit_def)
qed

section \<open>Directory and name of a path\<close>

text \<open>Trailing slashes change no normal path.\<close>

lemma norm_comps_slashes: "norm_comps sl new (replicate k []) = new"
  by (induction k) simp_all

lemma split_all_slashes: "split_all x (u @ replicate k x) = split_all x u @ replicate k []"
proof (induction k arbitrary: u)
  case (Suc k)
  have "split_all x (u @ replicate (Suc k) x) = split_all x u @ split_all x (replicate k x)"
    using split_all_append [of x u "replicate k x"] by simp
  moreover have "split_all x (replicate k x) = replicate (Suc k) []" for k
    by (induction k) simp_all
  ultimately show ?case by simp
qed simp

lemma initial_slashes_append:
  assumes "p \<noteq> []" and "last p \<noteq> slash"
  shows "initial_slashes (p @ q) = initial_slashes p"
proof -
  obtain a p1 where p: "p = a # p1" using assms(1) by (cases p) auto
  consider "p1 = []" | b where "p1 = [b]" | b c p2 where "p1 = b # c # p2" by (cases p1; cases "tl p1") auto
  then show ?thesis using assms p
    by cases (auto simp: initial_slashes_def isabs_def)
qed

lemma normpath_slashes:
  assumes "p \<noteq> []" and "last p \<noteq> slash"
  shows "normpath (p @ replicate k slash) = normpath p"
  using assms
  by (simp add: normpath_def initial_slashes_append split_all_slashes norm_comps_append norm_comps_slashes)

lemma initial_slashes_dot:
  "u = [] \<or> u \<noteq> [] \<Longrightarrow> initial_slashes (u @ [slash, 46]) = initial_slashes (u @ [slash])"
proof -
  consider "u = []" | a where "u = [a]" | a b where "u = [a, b]" | a b c v where "u = a # b # c # v"
    by (cases u; cases "tl u"; cases "tl (tl u)") auto
  then show ?thesis by cases (auto simp: initial_slashes_def isabs_def)
qed

lemma normpath_dot: "normpath (u @ [slash, 46]) = normpath (u @ [slash])"
proof -
  have "split_all slash (u @ [slash, 46]) = split_all slash u @ [[46]]"
    "split_all slash (u @ [slash]) = split_all slash u @ [[]]"
    using split_all_append [of slash u "[46]"] split_all_append [of slash u "[]"] by simp_all
  then show ?thesis
    by (simp add: normpath_def initial_slashes_dot norm_comps_append lit_def)
qed

lemma split_last_head: "fst (split_last p) = [] \<or> last (fst (split_last p)) = slash"
proof -
  have "dropWhile (\<lambda>c. c \<noteq> slash) (rev p) = [] \<or> hd (dropWhile (\<lambda>c. c \<noteq> slash) (rev p)) = slash"
    using hd_dropWhile by blast
  then show ?thesis by (auto simp: split_last_def last_rev)
qed

lemma strip_slashes:
  assumes "h \<noteq> []" and "h \<noteq> replicate (length h) slash"
  obtains k where "h = rev (dropWhile (\<lambda>c. c = slash) (rev h)) @ replicate k slash"
    and "rev (dropWhile (\<lambda>c. c = slash) (rev h)) \<noteq> []" and "last (rev (dropWhile (\<lambda>c. c = slash) (rev h))) \<noteq> slash"
proof -
  let ?d = "dropWhile (\<lambda>c. c = slash) (rev h)" and ?t = "takeWhile (\<lambda>c. c = slash) (rev h)"
  have t: "?t = replicate (length ?t) slash" by (metis (full_types) replicate_eqI set_takeWhileD)
  have h: "h = rev ?d @ rev ?t" by (metis rev_append rev_rev_ident takeWhile_dropWhile_id)
  have rt: "rev ?t = replicate (length ?t) slash" by (metis t rev_replicate)
  have "?d \<noteq> []"
  proof
    assume "?d = []"
    then have "\<forall>c \<in> set h. c = slash" by (simp add: dropWhile_eq_Nil_conv)
    then show False using assms(2) by (metis replicate_eqI)
  qed
  moreover from this have "hd ?d \<noteq> slash" using hd_dropWhile by blast
  ultimately show thesis using that [of "length ?t"] h rt by (simp add: last_rev)
qed

text \<open>The entry of a directory, found from its path: \<open>dirname(p) or "."\<close> and \<open>basename(p)\<close>.\<close>

lemma abspath_split:
  assumes "isabs cwd" and "plain (basename p)"
  shows "abspath cwd p = join (abspath cwd (if dirname p = [] then lit ''.'' else dirname p)) (basename p)"
proof -
  let ?h = "fst (split_last p)" and ?b = "basename p"
  have nb: "\<not> isabs ?b" using assms(2) by (simp add: plain_def not_isabs)
  have p: "p = join ?h ?b"
    using split_last_append [of p] split_last_head [of p] nb by (auto simp: join_def basename_def)
  have cne: "cwd \<noteq> []" using assms(1) by (simp add: isabs_def)
  have "abspath cwd ?h = abspath cwd (if dirname p = [] then lit ''.'' else dirname p)"
  proof (cases "?h = [] \<or> ?h = replicate (length ?h) slash")
    case True
    show ?thesis
    proof (cases "?h = []")
      case h: True
      obtain u where u: "join cwd [] = u @ [slash]"
      proof (cases "last cwd = slash")
        case True
        then have "join cwd [] = butlast cwd @ [slash]"
          using cne by (simp add: join_def isabs_def) (metis append_butlast_last_id)
        then show thesis by (rule that)
      qed (use cne that in \<open>simp add: join_def isabs_def\<close>)
      have "join cwd (lit ''.'') = u @ [slash, 46]"
        using u cne by (auto simp: join_def isabs_def lit_def split: if_splits)
      then show ?thesis using h u normpath_dot [of u] by (simp add: dirname_def abspath_def isabs_def lit_def)
    next
      case False
      with True show ?thesis by (simp add: dirname_def Let_def)
    qed
  next
    case False
    then obtain k where k: "?h = rev (dropWhile (\<lambda>c. c = slash) (rev ?h)) @ replicate k slash"
      "rev (dropWhile (\<lambda>c. c = slash) (rev ?h)) \<noteq> []" "last (rev (dropWhile (\<lambda>c. c = slash) (rev ?h))) \<noteq> slash"
      using strip_slashes by blast
    define d where "d = rev (dropWhile (\<lambda>c. c = slash) (rev ?h))"
    have d: "?h = d @ replicate k slash" "d \<noteq> []" "last d \<noteq> slash" using k by (simp_all add: d_def)
    have dn: "dirname p = d" using False by (auto simp: dirname_def Let_def d_def)
    have ab: "isabs ?h \<longleftrightarrow> isabs d" using d by (simp add: isabs_def)
    have "join cwd ?h = join cwd d @ replicate k slash" if "\<not> isabs d" using d(1) ab that by (simp add: join_def)
    moreover have "join cwd d \<noteq> []" "last (join cwd d) \<noteq> slash" if "\<not> isabs d" using d that by (auto simp: join_def)
    ultimately show ?thesis using d ab dn normpath_slashes [of d k] normpath_slashes [of "join cwd d" k]
      by (auto simp: abspath_def)
  qed
  then show ?thesis using p abspath_join [OF assms, of ?h] by metis
qed

end
