(* ===== verification/Py_Value.thy ===== *)
theory Py_Value
  imports Py_Text Complex_Main
begin

text \<open>
  The dynamically typed values \<open>json.load\<close> and \<open>tomllib.loads\<close> return, with the operations
  \<open>scripts/bake.py\<close> applies to them: truth, \<open>.get\<close>, indexing, \<open>in\<close>, \<open>==\<close>, \<open>"%d"\<close> and \<open>"%s"\<close>.
  An operation on a value of the wrong type raises what CPython raises.
\<close>

datatype pyval =
    PNone
  | PBool bool
  | PInt int
  | PFloat rat                      \<comment> \<open>a finite float, by its value\<close>
  | PInf bool                       \<comment> \<open>an infinity; \<open>True\<close>: negative\<close>
  | PNan
  | PStr pystr
  | PList "pyval list"
  | PDict "(pystr \<times> pyval) list"   \<comment> \<open>in insertion order, keys distinct\<close>
  | PDate pystr                     \<comment> \<open>a TOML date or time\<close>

fun truthy :: "pyval \<Rightarrow> bool" where
  "truthy PNone = False"
| "truthy (PBool b) = b"
| "truthy (PInt i) = (i \<noteq> 0)"
| "truthy (PFloat r) = (r \<noteq> 0)"
| "truthy (PInf _) = True"
| "truthy PNan = True"
| "truthy (PStr s) = (s \<noteq> [])"
| "truthy (PList xs) = (xs \<noteq> [])"
| "truthy (PDict d) = (d \<noteq> [])"
| "truthy (PDate _) = True"

text \<open>\<open>v.get(k, dflt)\<close>\<close>

fun py_get :: "pyval \<Rightarrow> pystr \<Rightarrow> pyval \<Rightarrow> exn + pyval" where
  "py_get (PDict d) k dflt = Inr (case map_of d k of Some v \<Rightarrow> v | None \<Rightarrow> dflt)"
| "py_get _ k dflt = Inl AttributeError"

text \<open>\<open>v[k]\<close> for a string \<open>k\<close>\<close>

fun py_index :: "pyval \<Rightarrow> pystr \<Rightarrow> exn + pyval" where
  "py_index (PDict d) k = (case map_of d k of Some v \<Rightarrow> Inr v | None \<Rightarrow> Inl KeyError)"
| "py_index _ k = Inl TypeError"

text \<open>\<open>v[k] = x\<close>\<close>

fun dict_set :: "pystr \<Rightarrow> pyval \<Rightarrow> (pystr \<times> pyval) list \<Rightarrow> (pystr \<times> pyval) list" where
  "dict_set k x [] = [(k, x)]"
| "dict_set k x ((k', y) # d) = (if k' = k then (k, x) # d else (k', y) # dict_set k x d)"

fun py_set :: "pyval \<Rightarrow> pystr \<Rightarrow> pyval \<Rightarrow> exn + pyval" where
  "py_set (PDict d) k x = Inr (PDict (dict_set k x d))"
| "py_set _ k x = Inl TypeError"

lemma map_of_dict_set: "map_of (dict_set k x d) = (map_of d)(k \<mapsto> x)"
  by (induction d) auto

definition num_val :: "pyval \<Rightarrow> rat option" where
  "num_val v =
     (case v of PBool b \<Rightarrow> Some (if b then 1 else 0) | PInt i \<Rightarrow> Some (of_int i) | PFloat r \<Rightarrow> Some r | _ \<Rightarrow> None)"

text \<open>\<open>v == w\<close>: numbers compare by value, dictionaries without regard to order.\<close>

function py_eq :: "pyval \<Rightarrow> pyval \<Rightarrow> bool" where
  "py_eq v w =
     (case (v, w) of
        (PNone, PNone) \<Rightarrow> True
      | (PInf s, PInf t) \<Rightarrow> s = t
      | (PStr s, PStr t) \<Rightarrow> s = t
      | (PDate s, PDate t) \<Rightarrow> s = t
      | (PList xs, PList ys) \<Rightarrow> length xs = length ys \<and> list_all (\<lambda>(x, y). py_eq x y) (zip xs ys)
      | (PDict d, PDict e) \<Rightarrow> length d = length e \<and>
          list_all (\<lambda>(k, x). case map_of e k of None \<Rightarrow> False | Some y \<Rightarrow> py_eq x y) d
      | _ \<Rightarrow> (case (num_val v, num_val w) of (Some a, Some b) \<Rightarrow> a = b | _ \<Rightarrow> False))"
  by pat_completeness auto
termination
proof (relation "measure (\<lambda>(v, w). size v)", goal_cases)
  case 1
  then show ?case by simp
next
  case (2 v w _ _ xs ys p x y)
  then have "x \<in> set xs" by (auto dest: set_zip_leftD)
  then have "size x < Suc (size_list size xs)" by (induction xs) auto
  with 2 show ?case by auto
next
  case (3 v w _ _ d e p k x y)
  then have "(k, x) \<in> set d" by auto
  then have "size x < Suc (size_list (size_prod (\<lambda>_. 0) size) d)" by (induction d) auto
  with 3 show ?case by auto
qed

declare py_eq.simps [simp del]

fun py_mem :: "pystr \<Rightarrow> pyval \<Rightarrow> exn + bool" where
  "py_mem k (PDict d) = Inr (map_of d k \<noteq> None)"
| "py_mem k (PStr s) = Inr (contains k s)"
| "py_mem k (PList xs) = Inr (list_ex (\<lambda>x. py_eq (PStr k) x) xs)"
| "py_mem k _ = Inl TypeError"

text \<open>\<open>"%d" % v\<close>\<close>

fun fmt_d :: "pyval \<Rightarrow> exn + pystr" where
  "fmt_d (PInt i) = Inr (str_of_int i)"
| "fmt_d (PBool b) = Inr (str_of_int (if b then 1 else 0))"
| "fmt_d (PFloat r) = Inr (str_of_int (if 0 \<le> r then floor r else ceiling r))"
| "fmt_d (PInf _) = Inl OverflowError"
| "fmt_d PNan = Inl ValueError"
| "fmt_d _ = Inl TypeError"

text \<open>\<open>"%s" % v\<close>; \<open>rp\<close> is the \<open>repr\<close> of the values whose text is not a matter of this model.\<close>

fun fmt_s :: "(pyval \<Rightarrow> pystr) \<Rightarrow> pyval \<Rightarrow> pystr" where
  "fmt_s rp (PStr s) = s"
| "fmt_s rp (PInt i) = str_of_int i"
| "fmt_s rp (PBool b) = (if b then lit ''True'' else lit ''False'')"
| "fmt_s rp PNone = lit ''None''"
| "fmt_s rp v = rp v"

text \<open>A string where the library wants one (\<open>os.path\<close>, \<open>open\<close>).\<close>

fun as_str :: "pyval \<Rightarrow> exn + pystr" where
  "as_str (PStr s) = Inr s"
| "as_str _ = Inl TypeError"

text \<open>The elements of a \<open>for\<close> loop over a value.\<close>

fun py_iter :: "pyval \<Rightarrow> exn + pyval list" where
  "py_iter (PList xs) = Inr xs"
| "py_iter (PDict d) = Inr (map (\<lambda>(k, v). PStr k) d)"
| "py_iter (PStr s) = Inr (map (\<lambda>c. PStr [c]) s)"
| "py_iter _ = Inl TypeError"

text \<open>Equality on the values a manifest key holds: strings and \<open>None\<close> under fixed names.\<close>

lemma py_eq_PStr [simp]: "py_eq (PStr s) w \<longleftrightarrow> w = PStr s"
  by (cases w) (auto simp: py_eq.simps [of "PStr s"] num_val_def)

lemma py_eq_PNone [simp]: "py_eq PNone w \<longleftrightarrow> w = PNone"
  by (cases w) (auto simp: py_eq.simps [of PNone] num_val_def)

lemma case_option_ex: "(case a of None \<Rightarrow> False | Some y \<Rightarrow> P y) \<longleftrightarrow> (\<exists>y. a = Some y \<and> P y)"
  by (cases a) auto

lemma py_eq_dict:
  "py_eq (PDict d) w \<longleftrightarrow>
     (\<exists>e. w = PDict e \<and> length d = length e \<and>
        (\<forall>(k, x) \<in> set d. \<exists>y. map_of e k = Some y \<and> py_eq x y))"
  by (cases w) (simp_all add: py_eq.simps [of "PDict d"] num_val_def list_all_iff case_option_ex)

lemma py_eq_to_dict: "py_eq v (PDict q) \<Longrightarrow> (\<And>e. v = PDict e \<Longrightarrow> thesis) \<Longrightarrow> thesis"
  by (subst (asm) py_eq.simps) (cases v; auto simp: num_val_def)

lemma py_eq_to_PStr: "py_eq v (PStr s) \<longleftrightarrow> v = PStr s"
  by (subst py_eq.simps) (cases v; auto simp: num_val_def)

end
