(* ===== verification/Wire.thy ===== *)
theory Wire
  imports Py_Text
begin

text \<open>
  The control protocol as the scripts speak it.  A \<open>sock\<close> is the client's end of an
  \<open>AF_UNIX\<close> stream: the chunks still to arrive with their arrival times (one chunk is what one
  \<open>recv\<close> can see), when the peer closes, the bytes sent so far, the timeout and the clock.
  What the peer answers is its own business: \<open>peer\<close> maps everything sent so far to the chunks
  it sends back, and the theorems hold for every peer and every chunking.  A peer need not come to an
  end: once the inbox is used up, \<open>drip\<close> gives what it goes on to send, chunk by chunk, for ever if it
  likes, or that it resets the connection; a peer that at some point stops is \<open>terse\<close>.  A send can fail
  (\<open>broken\<close>).  The timeouts of the scripts are those of single calls, so a reader that looks for a marker
  comes back for every terse peer, and need not come back for others.

  The readers are those of \<open>scripts/bake.py\<close> (\<open>frame\<close>, \<open>cmd\<close>, \<open>meta\<close>), of
  \<open>fork_serve.py\<close> (no end-of-file check), of the park proofs (\<open>un\<close>, \<open>framed\<close>), of
  \<open>proto_v2.py\<close> (\<open>read_framed\<close>, \<open>read_v1_settle\<close>), \<open>relay_proof.py\<close> and
  \<open>swerver_guest_burst.py\<close> (\<open>recv_frame\<close>); the writer is the guest agent's \<open>write_escaped\<close>
  and exit trailer (\<open>tools/agent.c\<close>).  The lemmas show what each reader returns for every
  chunking of a reply, what it does at end of file and on silence, and which of them spin.
\<close>

section \<open>The socket\<close>

datatype event =
    Chunk nat byte bytes              \<comment> \<open>arrival time, first byte and rest\<close>
  | Reset nat                         \<comment> \<open>\<open>ConnectionResetError\<close> from then on\<close>

record sock =
  inbox :: "(nat \<times> bytes) list"      \<comment> \<open>arrival time in microseconds, chunk\<close>
  closes :: "nat option"              \<comment> \<open>when the peer closes its end; \<open>None\<close>: it never does\<close>
  sent :: bytes
  shut :: bool                        \<comment> \<open>this end has been closed\<close>
  broken :: "bytes \<Rightarrow> (nat \<times> bool) option"
                                      \<comment> \<open>why a send fails that the peer does not answer: the time it takes, and whether it is a timeout\<close>
  drip :: "bytes \<Rightarrow> nat \<Rightarrow> event option"
                                      \<comment> \<open>after all bytes sent so far and an empty inbox, what comes next from a peer that does not close\<close>
  dripped :: nat                      \<comment> \<open>how many chunks of \<open>drip\<close> have been received\<close>
  tmo :: nat                          \<comment> \<open>\<open>settimeout\<close>, in microseconds\<close>
  now :: nat
  peer :: "bytes \<Rightarrow> (nat \<times> bytes) list" \<comment> \<open>the peer's reaction to all bytes sent so far, with delays\<close>

definition pending :: "sock \<Rightarrow> bytes" where
  "pending s = concat (map snd (inbox s))"

text \<open>\<open>s.recv(n)\<close>: at most \<open>n\<close> bytes of the next chunk, \<open>b""\<close> once the peer has closed, \<open>OSError\<close> once it
  has reset the connection, and \<open>socket.timeout\<close> when nothing arrives in time.\<close>

definition chunks :: "sock \<Rightarrow> (nat \<times> bytes) list" where
  "chunks s = filter (\<lambda>(t, b). b \<noteq> []) (inbox s)"

definition in_time :: "nat \<Rightarrow> sock \<Rightarrow> bool" where
  "in_time t s \<longleftrightarrow> t < now s + tmo s \<or> t \<le> now s"

definition recv_drip :: "nat \<Rightarrow> (sock, bytes) io" where
  "recv_drip n s =
     (case drip s (sent s) (dripped s) of
        Some (Chunk t x xs) \<Rightarrow>
          if in_time t s
          then Some (Inr (take n (x # xs)),
                 s\<lparr>now := max (now s) t, dripped := Suc (dripped s),
                   inbox := (if length (x # xs) \<le> n then [] else [(t, drop n (x # xs))])\<rparr>)
          else Some (Inl SocketTimeout, s\<lparr>now := now s + tmo s\<rparr>)
      | Some (Reset t) \<Rightarrow>
          if in_time t s then Some (Inl OSError, s\<lparr>now := max (now s) t\<rparr>)
          else Some (Inl SocketTimeout, s\<lparr>now := now s + tmo s\<rparr>)
      | None \<Rightarrow> Some (Inl SocketTimeout, s\<lparr>now := now s + tmo s\<rparr>))"

definition recv :: "nat \<Rightarrow> (sock, bytes) io" where
  "recv n s =
     (case chunks s of
        (t, b) # r \<Rightarrow>
          if t < now s + tmo s \<or> t \<le> now s
          then Some (Inr (take n b),
                 s\<lparr>now := max (now s) t,
                   inbox := (if length b \<le> n then r else (t, drop n b) # r)\<rparr>)
          else Some (Inl SocketTimeout, s\<lparr>now := now s + tmo s\<rparr>)
      | [] \<Rightarrow>
          (case closes s of
             Some t \<Rightarrow>
               if t < now s + tmo s \<or> t \<le> now s
               then Some (Inr [], s\<lparr>now := max (now s) t, inbox := []\<rparr>)
               else Some (Inl SocketTimeout, s\<lparr>now := now s + tmo s\<rparr>)
           | None \<Rightarrow> recv_drip n s))"

definition settimeout :: "nat \<Rightarrow> (sock, unit) io" where
  "settimeout ms = modify (\<lambda>s. s\<lparr>tmo := ms\<rparr>)"

text \<open>A send that the peer answers has reached it; any other can fail.\<close>

definition sendall :: "bytes \<Rightarrow> (sock, unit) io" where
  "sendall b s =
     (let h = sent s @ b in
      case (if peer s h = [] then broken s h else None) of
        Some (dt, late) \<Rightarrow> Some (Inl (if late then SocketTimeout else OSError), s\<lparr>now := now s + dt\<rparr>)
      | None \<Rightarrow>
          Some (Inr (), s\<lparr>sent := h, inbox := inbox s @ map (\<lambda>(d, c). (now s + d, c)) (peer s h)\<rparr>))"

text \<open>\<open>s.close()\<close>: the peer can tell (what it does next may depend on it), and no script uses a socket it closed.\<close>

definition sock_close :: "(sock, unit) io" where
  "sock_close = modify (\<lambda>s. s\<lparr>shut := True\<rparr>)"

text \<open>\<open>s.sendall(line.encode() + b"\n")\<close>\<close>

definition send_line :: "pystr \<Rightarrow> (sock, unit) io" where
  "send_line line = bind (lift (encode line)) (\<lambda>b. sendall (b @ [10]))"

text \<open>Every chunk, and the close, arrives before the timeout of the \<open>recv\<close> that waits for it.\<close>

fun prompt_from :: "nat \<Rightarrow> nat \<Rightarrow> (nat \<times> bytes) list \<Rightarrow> bool" where
  "prompt_from u m [] = True"
| "prompt_from u m ((t, b) # r) = ((t < u + m \<or> t \<le> u) \<and> prompt_from (max u t) m r)"

definition prompt :: "sock \<Rightarrow> bool" where
  "prompt s = prompt_from (now s) (tmo s) (chunks s)"

section \<open>Reading until a condition: the interface of a stream\<close>

text \<open>One round of \<open>while not stop(b): c = s.recv(n); if not c: <eof>; b += c\<close>.\<close>

definition read_body ::
    "('s, bytes) io \<Rightarrow> (bytes \<Rightarrow> bool) \<Rightarrow> (bytes \<Rightarrow> ('s, bytes + 'r) io) \<Rightarrow> (bytes \<Rightarrow> 'r) \<Rightarrow> bytes \<Rightarrow>
      ('s, bytes + 'r) io" where
  "read_body rcv stop eof fin b =
     (if stop b then ret (Inr (fin b))
      else bind rcv (\<lambda>c. if c = [] then eof b else ret (Inl (b @ c))))"

locale stream_source =
  fixes rcv :: "nat \<Rightarrow> ('s, bytes) io"
    and buffered :: "'s \<Rightarrow> bytes"
    and live :: "'s \<Rightarrow> bool"
  assumes rcv_data: "live s \<Longrightarrow> buffered s \<noteq> [] \<Longrightarrow> 0 < n \<Longrightarrow>
      \<exists>c s'. rcv n s = Some (Inr c, s') \<and> c \<noteq> [] \<and> length c \<le> n \<and>
             buffered s = c @ buffered s' \<and> live s'"
begin

text \<open>
  If the stop condition holds once everything has arrived, the loop stops at a prefix of the
  stream for which it holds, whatever the chunks are and whatever it would do at end of file.
\<close>

lemma read_until:
  assumes "live s" and "0 < n" and "stop (b @ buffered s)"
  shows "\<exists>acc s'. iterate (read_body (rcv n) stop eof fin) b s = Some (Inr (fin acc), s') \<and>
           stop acc \<and> acc @ buffered s' = b @ buffered s \<and> live s' \<and> (\<exists>c. acc = b @ c)"
  using assms
proof (induction "length (buffered s)" arbitrary: b s rule: less_induct)
  case less
  show ?case
  proof (cases "stop b")
    case True
    then have "read_body (rcv n) stop eof fin b s = Some (Inr (Inr (fin b)), s)"
      by (simp add: read_body_def ret_def)
    with True less.prems show ?thesis by (auto dest: iterate_done)
  next
    case False
    then have "buffered s \<noteq> []" using less.prems by auto
    then obtain c s' where c: "rcv n s = Some (Inr c, s')" "c \<noteq> []" "buffered s = c @ buffered s'" "live s'"
      using rcv_data less.prems by blast
    then have "read_body (rcv n) stop eof fin b s = Some (Inr (Inl (b @ c)), s')"
      using False by (simp add: read_body_def bind_def ret_def)
    then have eq: "iterate (read_body (rcv n) stop eof fin) b s =
        iterate (read_body (rcv n) stop eof fin) (b @ c) s'"
      by (rule iterate_step)
    have "stop ((b @ c) @ buffered s')" using less.prems c by simp
    then obtain acc t where
      "iterate (read_body (rcv n) stop eof fin) (b @ c) s' = Some (Inr (fin acc), t)" "stop acc"
      "acc @ buffered t = (b @ c) @ buffered s'" "live t" "\<exists>d. acc = (b @ c) @ d"
      using less.hyps [of s' "b @ c"] c less.prems by auto
    then show ?thesis using eq c by auto
  qed
qed

end

lemma pending_chunks: "pending s = concat (map snd (chunks s))"
proof -
  have "concat (map snd (filter (\<lambda>(t, b). b \<noteq> []) xs)) = concat (map snd xs)" for xs :: "(nat \<times> bytes) list"
    by (induction xs) auto
  then show ?thesis by (simp add: pending_def chunks_def)
qed

lemma chunks_nonempty: "(t, b) \<in> set (chunks s) \<Longrightarrow> b \<noteq> []"
  by (auto simp: chunks_def)

lemma chunks_Nil: "chunks s = [] \<longleftrightarrow> pending s = []"
proof
  assume "pending s = []"
  then show "chunks s = []"
    using chunks_nonempty [of _ _ s] by (cases "chunks s") (force simp: pending_chunks)+
qed (simp add: pending_chunks)

lemma chunks_inbox: "chunks (s\<lparr>inbox := xs, now := u\<rparr>) = filter (\<lambda>(t, b). b \<noteq> []) xs"
  by (simp add: chunks_def)

lemma chunks_idem: "filter (\<lambda>(t, b). b \<noteq> []) (chunks s) = chunks s"
  by (simp add: chunks_def)

text \<open>What a \<open>recv\<close> on a prompt socket does: it hands over a non-empty piece of what is pending.\<close>

lemma recv_prompt:
  assumes "prompt s" and "pending s \<noteq> []" and "0 < n"
  shows "\<exists>c s'. recv n s = Some (Inr c, s') \<and> c \<noteq> [] \<and> length c \<le> n \<and>
           pending s = c @ pending s' \<and> prompt s' \<and>
           tmo s' = tmo s \<and> sent s' = sent s \<and> peer s' = peer s \<and> closes s' = closes s \<and>
           now s \<le> now s' \<and> drip s' = drip s \<and> dripped s' = dripped s"
proof -
  from assms(2) obtain t b r where ch: "chunks s = (t, b) # r"
    by (cases "chunks s") (auto simp: pending_chunks)
  have b: "b \<noteq> []" using ch chunks_nonempty [of t b s] by simp
  have r: "filter (\<lambda>(t, b). b \<noteq> []) r = r" using chunks_idem [of s] ch b by simp
  have tp: "t < now s + tmo s \<or> t \<le> now s" and pr: "prompt_from (max (now s) t) (tmo s) r"
    using assms(1) by (simp_all add: prompt_def ch)
  show ?thesis
  proof (cases "length b \<le> n")
    case True
    then show ?thesis using ch tp pr b r
      by (simp add: recv_def pending_def [of "_\<lparr>inbox := _\<rparr>"] pending_chunks [of s] prompt_def chunks_def [of "_\<lparr>inbox := _\<rparr>"])
  next
    case False
    then show ?thesis using ch tp pr b r assms(3)
      by (simp add: recv_def pending_def [of "_\<lparr>inbox := _\<rparr>"] pending_chunks [of s] prompt_def chunks_def [of "_\<lparr>inbox := _\<rparr>"])
  qed
qed

text \<open>The parts of a socket no \<open>recv\<close> changes; the clock only goes forward.\<close>

definition same_conn :: "sock \<Rightarrow> sock \<Rightarrow> bool" where
  "same_conn s s' \<longleftrightarrow> tmo s' = tmo s \<and> sent s' = sent s \<and> peer s' = peer s \<and> closes s' = closes s \<and>
     now s \<le> now s'"

interpretation sk: stream_source recv pending "\<lambda>s. prompt s \<and> same_conn s0 s" for s0
proof unfold_locales
  fix s and n :: nat
  assume live: "prompt s \<and> same_conn s0 s" and "pending s \<noteq> []" and "0 < n"
  then obtain c s' where "recv n s = Some (Inr c, s')" "c \<noteq> []" "length c \<le> n"
    "pending s = c @ pending s'" "prompt s'" "same_conn s s'"
    using recv_prompt [of s n] by (auto simp: same_conn_def)
  moreover from this live have "same_conn s0 s'" by (auto simp: same_conn_def)
  ultimately show "\<exists>c s'. recv n s = Some (Inr c, s') \<and> c \<noteq> [] \<and> length c \<le> n \<and>
      pending s = c @ pending s' \<and> prompt s' \<and> same_conn s0 s'" by blast
qed

section \<open>The guest agent's side: escaping and the exit trailer\<close>

definition RS :: byte where "RS = 0x1e"
definition ESC :: byte where "ESC = 0x1f"

fun write_escaped :: "bytes \<Rightarrow> bytes" where
  "write_escaped [] = []"
| "write_escaped (b # bs) =
     (if b = RS \<or> b = ESC then ESC # (b XOR 0x40) # write_escaped bs else b # write_escaped bs)"

definition trailer :: "int \<Rightarrow> bytes" where
  "trailer code = RS # map word_of_nat (str_of_int code) @ [10]"

definition agent_reply :: "bytes \<Rightarrow> int \<Rightarrow> bytes" where
  "agent_reply body code = write_escaped body @ trailer code"

section \<open>The client's side\<close>

text \<open>\<open>un\<close> / \<open>unescape\<close>: the flag is the script's \<open>e\<close> / \<open>esc\<close>.\<close>

fun un_from :: "bool \<Rightarrow> bytes \<Rightarrow> bytes" where
  "un_from e [] = []"
| "un_from e (x # xs) =
     (if e then (x XOR 0x40) # un_from False xs
      else if x = ESC then un_from True xs
      else x # un_from False xs)"

definition un :: "bytes \<Rightarrow> bytes" where
  "un b = un_from False b"

lemma xor_40: "(b XOR 0x40) XOR 0x40 = (b :: byte)"
  by (simp add: xor.assoc)

lemma un_write_escaped: "un (write_escaped b) = b"
proof -
  have "un_from False (write_escaped b) = b"
    by (induction b) (simp_all add: xor_40)
  then show ?thesis by (simp add: un_def)
qed

lemma RS_XOR: "RS XOR 0x40 = 0x5e" "ESC XOR 0x40 = 0x5f"
  by (simp_all add: RS_def ESC_def)

lemma RS_not_in_escaped: "RS \<notin> set (write_escaped b)"
  by (induction b) (auto simp: RS_XOR, auto simp: RS_def ESC_def)

subsection \<open>\<open>bake.py\<close>\<close>

text \<open>\<open>frame\<close>: read until \<open>0x1e\<close>; a closed peer ends the loop.\<close>

definition frame :: "(sock, bytes) io" where
  "frame = iterate (read_body (recv 4096) (\<lambda>b. RS \<in> set b) (\<lambda>b. ret (Inr b)) id) []"

definition cmd :: "pystr \<Rightarrow> nat \<Rightarrow> (sock, pystr) io" where
  "cmd line to =
     bind (get tmo) (\<lambda>old.
     seq (settimeout to) (
     seq (send_line line) (
     bind frame (\<lambda>b.
     seq (settimeout old) (
     ret (decode (before RS b)))))))"

definition meta :: "pystr \<Rightarrow> nat \<Rightarrow> (sock, pystr) io" where
  "meta line to =
     bind (get tmo) (\<lambda>old.
     seq (settimeout to) (
     seq (send_line line) (
     bind (iterate (read_body (recv 256) (\<lambda>b. 10 \<in> set b) (\<lambda>b. ret (Inr b)) id) []) (\<lambda>b.
     seq (settimeout old) (
     ret (strip (decode b)))))))"

subsection \<open>\<open>fork_serve.py\<close>: no end-of-file check\<close>

definition fork_serve_frame :: "(sock, bytes) io" where
  "fork_serve_frame = iterate (read_body (recv 4096) (\<lambda>b. RS \<in> set b) (\<lambda>b. ret (Inl b)) id) []"

definition fork_serve_cmd :: "pystr \<Rightarrow> (sock, pystr) io" where
  "fork_serve_cmd line =
     seq (send_line line) (bind fork_serve_frame (\<lambda>b. ret (decode (before RS b))))"

subsection \<open>The park proofs: \<open>framed\<close> and \<open>cmd\<close>\<close>

text \<open>The second loop, \<open>while b"\n" not in b[rs + 1:]: b += s.recv(64)\<close>, has no end-of-file check.\<close>

definition framed :: "nat \<Rightarrow> (sock, bytes \<times> int option) io" where
  "framed to =
     seq (settimeout to) (
     bind (iterate (read_body (recv 4096) (\<lambda>b. RS \<in> set b) (\<lambda>b. ret (Inr (Inl b))) Inr) []) (\<lambda>r.
     case r of
       Inl b \<Rightarrow> ret (un b, None)
     | Inr b \<Rightarrow>
         (case index_of RS b of
            None \<Rightarrow> raise ValueError
          | Some rs \<Rightarrow>
              bind (iterate (read_body (recv 64) (\<lambda>b. 10 \<in> set (drop (rs + 1) b)) (\<lambda>b. ret (Inl b)) id) b) (\<lambda>b.
              case py_int_bytes (before 10 (drop (rs + 1) b)) of
                None \<Rightarrow> raise ValueError
              | Some i \<Rightarrow> ret (un (take rs b), Some i)))))"

definition park_cmd :: "pystr \<Rightarrow> nat \<Rightarrow> (sock, pystr) io" where
  "park_cmd line to = seq (send_line line) (bind (framed to) (\<lambda>(b, e). ret (decode b)))"

subsection \<open>\<open>proto_v2.py\<close>\<close>

text \<open>Here the second loop leaves at end of file, and \<open>buf.index\<close> then raises \<open>ValueError\<close>.\<close>

definition read_framed :: "nat \<Rightarrow> (sock, bytes \<times> int option) io" where
  "read_framed to =
     seq (settimeout to) (
     bind (iterate (read_body (recv 4096) (\<lambda>b. RS \<in> set b) (\<lambda>b. ret (Inr (Inl b))) Inr) []) (\<lambda>r.
     case r of
       Inl b \<Rightarrow> ret (un b, None)
     | Inr b \<Rightarrow>
         (case index_of RS b of
            None \<Rightarrow> raise ValueError
          | Some rs \<Rightarrow>
              bind (iterate (read_body (recv 64) (\<lambda>b. 10 \<in> set (drop (rs + 1) b)) (\<lambda>b. ret (Inr b)) id) b) (\<lambda>b.
              case index_of 10 (drop (rs + 1) b) of
                None \<Rightarrow> raise ValueError
              | Some nl \<Rightarrow>
                  (case py_int_bytes (take nl (drop (rs + 1) b)) of
                     None \<Rightarrow> raise ValueError
                   | Some i \<Rightarrow> ret (un (take rs b), Some i))))))"

text \<open>\<open>select.select([s], [], [], t)\<close>: wait until a chunk or the close is there, or the time is over.\<close>

definition readable_at :: "sock \<Rightarrow> nat option" where
  "readable_at s =
     (case chunks s of
        (t, b) # _ \<Rightarrow> Some t
      | [] \<Rightarrow>
          (case closes s of
             Some t \<Rightarrow> Some t
           | None \<Rightarrow>
               map_option (\<lambda>e. case e of Chunk t x xs \<Rightarrow> t | Reset t \<Rightarrow> t) (drip s (sent s) (dripped s))))"

definition select_read :: "nat \<Rightarrow> (sock, bool) io" where
  "select_read ms s =
     (case readable_at s of
        Some t \<Rightarrow>
          if t < now s + ms \<or> t \<le> now s then Some (Inr True, s\<lparr>now := max (now s) t\<rparr>)
          else Some (Inr False, s\<lparr>now := now s + ms\<rparr>)
      | None \<Rightarrow> Some (Inr False, s\<lparr>now := now s + ms\<rparr>))"

datatype v1_kind = Bare | Hang | Eof | Framed | Timeout

definition v1_bare :: "bytes \<Rightarrow> bool" where
  "v1_bare buf \<longleftrightarrow> RS \<notin> set buf \<and> 10 \<in> set buf \<and>
     (prefix [0x4f, 0x4b, 0x20] buf \<or> prefix [0x45, 0x52, 0x52, 0x20] buf)"

definition read_v1_settle :: "nat \<Rightarrow> nat \<Rightarrow> (sock, v1_kind \<times> bytes) io" where
  "read_v1_settle settle hang =
     bind (get now) (\<lambda>t0.
     iterate (\<lambda>buf.
       bind (get now) (\<lambda>t.
       if \<not> t - t0 < hang then ret (Inr (Timeout, buf))
       else
         bind (select_read (if v1_bare buf then settle else hang)) (\<lambda>r.
         if \<not> r then
           (if v1_bare buf then ret (Inr (Bare, before 10 buf)) else ret (Inr (Hang, buf)))
         else
           bind (recv 4096) (\<lambda>c.
           if c = [] then ret (Inr (Eof, buf))
           else if RS \<in> set (buf @ c) then ret (Inr (Framed, before RS (buf @ c)))
           else ret (Inl (buf @ c)))))) [])"

subsection \<open>\<open>relay_proof.py\<close>: a silent peer is a result\<close>

datatype relay_exit = Exit int | NoExit | TimedOut

text \<open>A \<open>recv\<close> inside \<open>try: ... except socket.timeout\<close>.\<close>

definition recv_or_timeout :: "nat \<Rightarrow> (sock, bytes option) io" where
  "recv_or_timeout n =
     try_except (bind (recv n) (\<lambda>c. ret (Some c))) (\<lambda>e. e = SocketTimeout) (\<lambda>_. ret None)"

definition relay_framed :: "nat \<Rightarrow> (sock, bytes \<times> relay_exit) io" where
  "relay_framed to =
     seq (settimeout to) (
     bind (iterate (\<lambda>b.
       if RS \<in> set b then ret (Inr (Inr b))
       else bind (recv_or_timeout 4096) (\<lambda>oc.
         case oc of
           None \<Rightarrow> ret (Inr (Inl (b, TimedOut)))
         | Some c \<Rightarrow> if c = [] then ret (Inr (Inl (un b, NoExit))) else ret (Inl (b @ c)))) []) (\<lambda>r.
     case r of
       Inl q \<Rightarrow> ret q
     | Inr b \<Rightarrow>
         (case index_of RS b of
            None \<Rightarrow> raise ValueError
          | Some rs \<Rightarrow>
              bind (iterate (\<lambda>b.
                if 10 \<in> set (drop (rs + 1) b) then ret (Inr (Inr b))
                else bind (recv_or_timeout 64) (\<lambda>oc.
                  case oc of
                    None \<Rightarrow> ret (Inr (Inl (b, TimedOut)))
                  | Some c \<Rightarrow> if c = [] then ret (Inr (Inr b)) else ret (Inl (b @ c)))) b) (\<lambda>r.
              case r of
                Inl q \<Rightarrow> ret q
              | Inr b \<Rightarrow>
                  (case index_of 10 (drop (rs + 1) b) of
                     None \<Rightarrow> raise ValueError
                   | Some nl \<Rightarrow>
                       (case py_int_bytes (take nl (drop (rs + 1) b)) of
                          None \<Rightarrow> raise ValueError
                        | Some i \<Rightarrow> ret (un (take rs b), Exit i)))))))"

subsection \<open>\<open>swerver_guest_burst.py\<close>\<close>

text \<open>\<open>recv_frame\<close>: the last \<open>0x1e\<close> of the data, once the data ends with a newline.\<close>

definition rindex_of :: "'a \<Rightarrow> 'a list \<Rightarrow> nat option" where
  "rindex_of x xs = map_option (\<lambda>i. length xs - 1 - i) (index_of x (rev xs))"

definition recv_frame_body :: "bytes \<Rightarrow> (sock, bytes + bytes \<times> int) io" where
  "recv_frame_body data =
     bind (recv 4096) (\<lambda>chunk.
     if chunk = [] then raise RuntimeError
     else
       let data = data @ chunk in
       case rindex_of RS data of
         None \<Rightarrow> ret (Inl data)
       | Some marker \<Rightarrow>
           if last data = 10 then
             (case py_int_bytes (butlast (drop (marker + 1) data)) of
                None \<Rightarrow> raise ValueError
              | Some i \<Rightarrow> ret (Inr (take marker data, i)))
           else ret (Inl data))"

definition recv_frame :: "(sock, bytes \<times> int) io" where
  "recv_frame = iterate recv_frame_body []"

section \<open>What the readers return\<close>

lemma split_at_sep:
  assumes "x \<notin> set w" and "acc @ p = w @ x # v" and "x \<in> set acc"
  obtains u where "acc = w @ x # u" and "u @ p = v"
proof -
  from assms(2) consider us where "acc = w @ us" "us @ p = x # v" | us where "w = acc @ us"
    by (auto simp: append_eq_append_conv2)
  then show ?thesis
  proof cases
    case 1
    then obtain u where "us = x # u" using assms(1,3) by (cases us) auto
    with 1 that show ?thesis by auto
  next
    case 2
    with assms(1,3) show ?thesis by auto
  qed
qed

lemma sep_cong:
  assumes "x \<notin> set u" and "x \<notin> set u'" and "u @ x # v = u' @ x # v'"
  shows "u = u' \<and> v = v'"
  using assms before_append [of x u v] before_append [of x u' v'] by simp

lemma py_int_bytes_code:
  assumes "length (str_of_int code) \<le> 4300"
  shows "py_int_bytes (map word_of_nat (str_of_int code)) = Some code"
proof -
  have small: "c < 128 \<and> \<not> is_space c" if "c \<in> set (str_of_int code)" for c
    using str_of_int_chars [OF that] str_of_int_not_space [OF that] by auto
  then have "map (unat \<circ> (word_of_nat :: nat \<Rightarrow> byte)) (str_of_int code) = str_of_int code"
    by (intro map_idI) (auto simp: unat_byte dest!: small)
  moreover have "list_all (\<lambda>c. unat c < 128 \<and> (is_space (unat c) \<longrightarrow> is_space_byte c))
      (map (word_of_nat :: nat \<Rightarrow> byte) (str_of_int code))"
    by (auto simp: list_all_iff unat_byte dest!: small)
  ultimately show ?thesis
    using py_int_str_of_int [OF assms] by (simp add: py_int_bytes_def)
qed

lemma code_byte: "b \<in> set (map word_of_nat (str_of_int code) :: bytes) \<Longrightarrow> unat b = 45 \<or> 48 \<le> unat b \<and> unat b < 58"
proof -
  assume "b \<in> set (map word_of_nat (str_of_int code) :: bytes)"
  then obtain c where c: "c \<in> set (str_of_int code)" "b = word_of_nat c" by auto
  then show ?thesis using str_of_int_chars [OF c(1)] unat_byte [of c] by auto
qed

lemma code_no_newline: "(10 :: byte) \<notin> set (map word_of_nat (str_of_int code))"
  using code_byte [of 10 code] by auto

lemma RS_not_in_code: "RS \<notin> set (map word_of_nat (str_of_int code) :: bytes)"
  using code_byte [of RS code] by (auto simp: RS_def)

text \<open>The two loops of a framed read on a prompt socket that holds a reply.\<close>

lemma read_to_sep:
  assumes "prompt s" and "pending s = w @ RS # v" and "RS \<notin> set w"
  obtains u s' where
    "iterate (read_body (recv 4096) (\<lambda>b. RS \<in> set b) eof fin) [] s =
       Some (Inr (fin (w @ RS # u)), s')"
    and "u @ pending s' = v" and "prompt s'" and "same_conn s s'"
proof -
  have "RS \<in> set ([] @ pending s)" using assms(2) by simp
  then obtain acc s' where
    run: "iterate (read_body (recv 4096) (\<lambda>b. RS \<in> set b) eof fin) [] s = Some (Inr (fin acc), s')"
    and "RS \<in> set acc" and st: "acc @ pending s' = pending s" and l: "prompt s' \<and> same_conn s s'"
    using sk.read_until [of s s 4096 "\<lambda>b. RS \<in> set b" "[]" eof "fin"] assms(1)
    by (auto simp: same_conn_def)
  moreover have "acc @ pending s' = w @ RS # v" using st assms(2) by simp
  ultimately obtain u where "acc = w @ RS # u" "u @ pending s' = v"
    using split_at_sep [OF assms(3)] by metis
  with that run l show thesis by auto
qed

lemma read_to_marker:
  assumes "prompt s" and "pending s = agent_reply body code @ extra"
  obtains u s' where
    "iterate (read_body (recv 4096) (\<lambda>b. RS \<in> set b) eof fin) [] s =
       Some (Inr (fin (write_escaped body @ RS # u)), s')"
    and "u @ pending s' = tl (trailer code) @ extra" and "prompt s'" and "same_conn s s'"
proof -
  have "pending s = write_escaped body @ RS # (tl (trailer code) @ extra)"
    using assms(2) by (simp add: agent_reply_def trailer_def)
  from read_to_sep [OF assms(1) this RS_not_in_escaped] that show thesis by metis
qed

lemma read_to_newline:
  assumes "prompt s" and "u @ pending s = tl (trailer code) @ extra"
    and rs: "rs = length (write_escaped body)"
  obtains v s' where
    "iterate (read_body (recv 64) (\<lambda>b. 10 \<in> set (drop (rs + 1) b)) eof id) (write_escaped body @ RS # u) s =
       Some (Inr (write_escaped body @ RS # map word_of_nat (str_of_int code) @ 10 # v), s')"
    and "v @ pending s' = extra" and "prompt s'" and "same_conn s s'"
proof -
  let ?b = "write_escaped body @ RS # u" and ?w = "map word_of_nat (str_of_int code) :: bytes"
  have "10 \<in> set (drop (rs + 1) (?b @ pending s))"
    using assms(2) by (auto simp: rs trailer_def)
  then obtain acc s' c where
    run: "iterate (read_body (recv 64) (\<lambda>b. 10 \<in> set (drop (rs + 1) b)) eof id) ?b s = Some (Inr acc, s')"
    and nl: "10 \<in> set (drop (rs + 1) acc)" and st: "acc @ pending s' = ?b @ pending s"
    and l: "prompt s' \<and> same_conn s s'" and acc: "acc = ?b @ c"
    using sk.read_until [of s s 64 "\<lambda>b. 10 \<in> set (drop (rs + 1) b)" ?b eof id] assms(1)
    by (auto simp: same_conn_def)
  have "(u @ c) @ pending s' = ?w @ 10 # extra" and "10 \<in> set (u @ c)"
    using st nl acc assms(2) by (auto simp: rs trailer_def)
  then obtain v where "u @ c = ?w @ 10 # v" "v @ pending s' = extra"
    using split_at_sep [OF code_no_newline] by metis
  with that run acc l show thesis by auto
qed

lemma index_of_marker: "index_of RS (write_escaped body @ RS # u) = Some (length (write_escaped body))"
  by (rule index_of_append) (rule RS_not_in_escaped)

lemma before_code: "before 10 (map word_of_nat (str_of_int code) @ 10 # v) = (map word_of_nat (str_of_int code) :: bytes)"
  by (rule before_append) (rule code_no_newline)

lemma settimeout_run: "settimeout ms s = Some (Inr (), s\<lparr>tmo := ms\<rparr>)"
  by (simp add: settimeout_def modify_def)

lemma framed_complete:
  assumes "prompt (s\<lparr>tmo := to\<rparr>)" and "pending s = agent_reply body code @ extra"
    and "length (str_of_int code) \<le> 4300"
  shows "\<exists>v s'. framed to s = Some (Inr (body, Some code), s') \<and> v @ pending s' = extra \<and>
           prompt s' \<and> same_conn (s\<lparr>tmo := to\<rparr>) s'"
proof -
  let ?s = "s\<lparr>tmo := to\<rparr>"
  have "pending ?s = agent_reply body code @ extra" using assms(2) by (simp add: pending_def)
  from read_to_marker [OF assms(1) this, of "\<lambda>b. ret (Inr (Inl b))" Inr] obtain u s1 where
    1: "iterate (read_body (recv 4096) (\<lambda>b. RS \<in> set b) (\<lambda>b. ret (Inr (Inl b))) Inr) [] ?s =
       Some (Inr (Inr (write_escaped body @ RS # u)), s1)"
    "u @ pending s1 = tl (trailer code) @ extra" "prompt s1" "same_conn ?s s1" by metis
  from read_to_newline [OF 1(3,2) refl, of body "\<lambda>b. ret (Inl b)"] obtain v s2 where
    2: "iterate (read_body (recv 64) (\<lambda>b. 10 \<in> set (drop (length (write_escaped body) + 1) b)) (\<lambda>b. ret (Inl b)) id)
        (write_escaped body @ RS # u) s1 =
       Some (Inr (write_escaped body @ RS # map word_of_nat (str_of_int code) @ 10 # v), s2)"
    "v @ pending s2 = extra" "prompt s2" "same_conn s1 s2" by metis
  have "framed to s = Some (Inr (body, Some code), s2)"
    using 1 2 unfolding framed_def
    by (simp add: seq_def bind_def settimeout_run index_of_marker before_code py_int_bytes_code assms(3)
        un_write_escaped ret_def)
  with 1 2 show ?thesis by (auto simp: same_conn_def)
qed

lemma read_framed_complete:
  assumes "prompt (s\<lparr>tmo := to\<rparr>)" and "pending s = agent_reply body code @ extra"
    and "length (str_of_int code) \<le> 4300"
  shows "\<exists>v s'. read_framed to s = Some (Inr (body, Some code), s') \<and> v @ pending s' = extra \<and>
           prompt s' \<and> same_conn (s\<lparr>tmo := to\<rparr>) s'"
proof -
  let ?s = "s\<lparr>tmo := to\<rparr>"
  have "pending ?s = agent_reply body code @ extra" using assms(2) by (simp add: pending_def)
  from read_to_marker [OF assms(1) this, of "\<lambda>b. ret (Inr (Inl b))" Inr] obtain u s1 where
    1: "iterate (read_body (recv 4096) (\<lambda>b. RS \<in> set b) (\<lambda>b. ret (Inr (Inl b))) Inr) [] ?s =
       Some (Inr (Inr (write_escaped body @ RS # u)), s1)"
    "u @ pending s1 = tl (trailer code) @ extra" "prompt s1" "same_conn ?s s1" by metis
  from read_to_newline [OF 1(3,2) refl, of body "\<lambda>b. ret (Inr b)"] obtain v s2 where
    2: "iterate (read_body (recv 64) (\<lambda>b. 10 \<in> set (drop (length (write_escaped body) + 1) b)) (\<lambda>b. ret (Inr b)) id)
        (write_escaped body @ RS # u) s1 =
       Some (Inr (write_escaped body @ RS # map word_of_nat (str_of_int code) @ 10 # v), s2)"
    "v @ pending s2 = extra" "prompt s2" "same_conn s1 s2" by metis
  have "index_of 10 (map word_of_nat (str_of_int code) @ 10 # v) = Some (length (str_of_int code))"
    using index_of_append [OF code_no_newline, of code v] by simp
  then have "read_framed to s = Some (Inr (body, Some code), s2)"
    using 1 2 unfolding read_framed_def
    by (simp add: seq_def bind_def settimeout_run index_of_marker py_int_bytes_code assms(3)
        un_write_escaped ret_def)
  with 1 2 show ?thesis by (auto simp: same_conn_def)
qed

subsection \<open>End of file and silence\<close>

text \<open>A socket with nothing pending: the peer has closed, or is silent.\<close>

lemma recv_eof:
  assumes "pending s = []" and "closes s = Some t" and "t \<le> now s"
  shows "recv n s = Some (Inr [], s\<lparr>inbox := []\<rparr>)"
proof -
  have "chunks s = []" using assms(1) by (simp add: chunks_Nil)
  then show ?thesis using assms(2,3) by (simp add: recv_def max_absorb1)
qed

lemma recv_silent:
  assumes "pending s = []" and "closes s = None" and "drip s (sent s) (dripped s) = None"
  shows "recv n s = Some (Inl SocketTimeout, s\<lparr>now := now s + tmo s\<rparr>)"
proof -
  have "chunks s = []" using assms(1) by (simp add: chunks_Nil)
  then show ?thesis using assms(2,3) by (simp add: recv_def recv_drip_def)
qed

section \<open>Peers that stop, and peers that do not\<close>

text \<open>Whatever is sent to it, the peer at some point has nothing more to say of its own accord.\<close>

definition terse :: "sock \<Rightarrow> bool" where
  "terse s \<longleftrightarrow> (\<forall>h. \<exists>K. \<forall>k \<ge> K. \<forall>t x xs. drip s h k \<noteq> Some (Chunk t x xs))"

text \<open>How many bytes, and chunks of \<open>drip\<close>, can still come.\<close>

definition last_drip :: "sock \<Rightarrow> nat" where
  "last_drip s = (LEAST K. \<forall>k \<ge> K. \<forall>t x xs. drip s (sent s) k \<noteq> Some (Chunk t x xs))"

definition drip_size :: "sock \<Rightarrow> nat \<Rightarrow> nat" where
  "drip_size s k = (case drip s (sent s) k of Some (Chunk t x xs) \<Rightarrow> Suc (length xs) | _ \<Rightarrow> 0)"

definition to_come :: "sock \<Rightarrow> nat" where
  "to_come s = length (pending s) + (\<Sum>k = dripped s..<last_drip s. Suc (drip_size s k))"

lemma last_drip: "terse s \<Longrightarrow> last_drip s \<le> k \<Longrightarrow> drip s (sent s) k \<noteq> Some (Chunk t x xs)"
proof -
  assume "terse s" and k: "last_drip s \<le> k"
  then have "\<exists>K. \<forall>k \<ge> K. \<forall>t x xs. drip s (sent s) k \<noteq> Some (Chunk t x xs)" by (simp only: terse_def)
  then have "\<forall>k \<ge> last_drip s. \<forall>t x xs. drip s (sent s) k \<noteq> Some (Chunk t x xs)" unfolding last_drip_def by (rule LeastI_ex)
  with k show ?thesis by blast
qed

lemma recv_terse:
  assumes "terse s"
  shows "\<exists>r s'. recv n s = Some (r, s') \<and> terse s' \<and> (\<forall>c. r = Inr c \<longrightarrow> c \<noteq> [] \<longrightarrow> to_come s' < to_come s)"
proof (cases "chunks s")
  case (Cons p r)
  then obtain t b where p: "chunks s = (t, b) # r" by (cases p) auto
  have "b \<noteq> []" using p chunks_nonempty [of t b s] by simp
  have "filter (\<lambda>(t, b). b \<noteq> []) r = r" using chunks_idem [of s] p \<open>b \<noteq> []\<close> by simp
  then show ?thesis using p \<open>b \<noteq> []\<close> assms
    by (auto simp: recv_def pending_chunks [of s] pending_def [of "_\<lparr>inbox := _\<rparr>"] to_come_def last_drip_def drip_size_def terse_def)
next
  case Nil
  then have pend: "pending s = []" by (simp add: chunks_Nil)
  show ?thesis
  proof (cases "\<exists>t x xs. closes s = None \<and> drip s (sent s) (dripped s) = Some (Chunk t x xs)")
    case False
    then show ?thesis using Nil assms
      by (auto simp: recv_def recv_drip_def terse_def split: option.splits event.splits)
  next
    case True
    then obtain t x xs where d: "closes s = None" "drip s (sent s) (dripped s) = Some (Chunk t x xs)" by blast
    have "dripped s < last_drip s" using last_drip [OF assms, of "dripped s"] d(2) by (meson not_le)
    then have "(\<Sum>k = dripped s..<last_drip s. Suc (drip_size s k)) =
        Suc (drip_size s (dripped s)) + (\<Sum>k = Suc (dripped s)..<last_drip s. Suc (drip_size s k))"
      by (rule sum.atLeast_Suc_lessThan)
    moreover have "drip_size s (dripped s) = Suc (length xs)" using d(2) by (simp add: drip_size_def)
    ultimately show ?thesis using Nil d assms pend
      by (auto simp: recv_def recv_drip_def to_come_def last_drip_def drip_size_def terse_def pending_def)
  qed
qed

lemma returning_recv: "settles terse (\<lambda>_ _. True) (recv n)"
  using recv_terse [of _ n] by (fastforce intro: settlesI)

text \<open>A reading loop that leaves at end of file returns for every terse peer.\<close>

lemma returning_read_loop:
  assumes "\<And>b s. \<exists>q. eof b s = Some (Inr (Inr q), s)"
  shows "settles terse (\<lambda>_ _. True) (iterate (read_body (recv n) stop eof fin) b)"
proof (rule returning.s_iterate [where lev = "\<lambda>_. to_come"])
  fix b
  have "settles terse (\<lambda>_ _. True) (eof b)" using assms by (fastforce intro: settlesI)
  then show "settles terse (\<lambda>_ _. True) (read_body (recv n) stop eof fin b)"
    unfolding read_body_def by (intro returning.forms returning_recv)
next
  fix b s y t
  assume "terse s" and round: "read_body (recv n) stop eof fin b s = Some (Inr (Inl y), t)"
  then obtain r u where r: "recv n s = Some (r, u)" "\<forall>c. r = Inr c \<longrightarrow> c \<noteq> [] \<longrightarrow> to_come u < to_come s"
    using recv_terse by blast
  obtain q where "eof b u = Some (Inr (Inr q), u)" using assms by blast
  with r round show "to_come t < to_come s"
    by (cases r) (auto simp: read_body_def bind_def ret_def split: if_splits)
qed

text \<open>A peer that streams for ever, each chunk before the timeout of the \<open>recv\<close> that waits for it, and never a
  byte that would end the loop: the loop never returns.\<close>

definition arrival :: "sock \<Rightarrow> nat \<Rightarrow> nat" where
  "arrival s k = (case drip s (sent s) k of Some (Chunk t x xs) \<Rightarrow> t | _ \<Rightarrow> 0)"

definition streams :: "(byte \<Rightarrow> bool) \<Rightarrow> sock \<Rightarrow> bool" where
  "streams ok s \<longleftrightarrow> closes s = None \<and> prompt s \<and> list_all ok (pending s) \<and>
     (\<forall>k \<ge> dripped s. \<exists>t x xs. drip s (sent s) k = Some (Chunk t x xs) \<and> list_all ok (x # xs)) \<and>
     in_time (arrival s (dripped s)) s \<and> (\<forall>k \<ge> dripped s. arrival s (Suc k) < arrival s k + tmo s)"

lemma recv_streams:
  assumes "streams ok s" and "0 < n"
  shows "\<exists>c s'. recv n s = Some (Inr c, s') \<and> c \<noteq> [] \<and> list_all ok c \<and> streams ok s'"
proof (cases "pending s = []")
  case False
  obtain c s' where c: "recv n s = Some (Inr c, s')" "c \<noteq> []" "pending s = c @ pending s'" "prompt s'"
    "tmo s' = tmo s" "sent s' = sent s" "closes s' = closes s" "now s \<le> now s'" "drip s' = drip s" "dripped s' = dripped s"
    using recv_prompt [of s n] assms False by (auto simp: streams_def)
  moreover from c have "arrival s' = arrival s" by (auto simp: arrival_def)
  ultimately have "streams ok s' \<and> list_all ok c" using assms(1) by (auto simp: streams_def in_time_def)
  with c(1,2) show ?thesis by blast
next
  case True
  then have Nil: "chunks s = []" by (simp add: chunks_Nil)
  obtain t x xs where d: "drip s (sent s) (dripped s) = Some (Chunk t x xs)" "list_all ok (x # xs)"
    using assms(1) by (meson order_refl streams_def)
  let ?s = "s\<lparr>now := max (now s) t, dripped := Suc (dripped s), inbox := (if length (x # xs) \<le> n then [] else [(t, drop n (x # xs))])\<rparr>"
  have arr: "arrival s (dripped s) = t" "arrival ?s = arrival s" using d(1) by (auto simp: arrival_def)
  then have r: "recv n s = Some (Inr (take n (x # xs)), ?s)"
    using Nil d(1) assms(1) by (simp add: recv_def recv_drip_def streams_def)
  have ok: "list_all ok (take n (x # xs))" "list_all ok (drop n (x # xs))" "take n (x # xs) \<noteq> []"
    using d(2) assms(2) set_take_subset [of n "x # xs"] set_drop_subset [of n "x # xs"] by (auto simp only: list_all_iff) (cases n; simp)
  have "prompt ?s" by (auto simp: prompt_def chunks_def)
  moreover have "list_all ok (pending ?s)" using ok(2) by (simp add: pending_def)
  moreover have "arrival s (Suc (dripped s)) < t + tmo s" using assms(1) arr(1) by (metis order_refl streams_def)
  then have "in_time (arrival s (Suc (dripped s))) ?s" by (auto simp: in_time_def)
  ultimately have "streams ok ?s" using assms(1) arr(2) by (auto simp: streams_def)
  with r ok show ?thesis by blast
qed

lemma read_loop_hangs:
  assumes "streams ok s" and "0 < n" and "list_all ok b" and "\<And>b. list_all ok b \<Longrightarrow> \<not> stop b"
  shows "iterate (read_body (recv n) stop eof fin) b s = None"
proof (rule ccontr)
  let ?body = "read_body (recv n) stop eof fin"
  have step: "\<exists>y t. ?body x u = Some (Inr (Inl y), t) \<and> list_all ok y \<and> streams ok t" if ok: "list_all ok x \<and> streams ok u" for x u
  proof -
    obtain c t where "recv n u = Some (Inr c, t)" "c \<noteq> []" "list_all ok c" "streams ok t"
      using recv_streams [OF _ assms(2), of ok u] ok by blast
    with ok assms(4) [of x] show ?thesis by (auto simp: read_body_def bind_def ret_def)
  qed
  assume "iterate ?body b s \<noteq> None"
  then obtain r t where run: "iterate ?body b s = Some (r, t)" by force
  have "False"
    by (rule iterate_inv [OF run, where I = "\<lambda>x u. list_all ok x \<and> streams ok u" and Q = "\<lambda>_ _. False"])
       (use assms step in fastforce)+
  then show False .
qed

text \<open>A loop without the check spins at end of file.\<close>

lemma read_loop_spins:
  assumes "\<not> stop b" and "pending s = []" and "closes s = Some t" and "t \<le> now s"
  shows "iterate (read_body (recv n) stop (\<lambda>b. ret (Inl b)) fin) b s = None"
proof -
  let ?body = "read_body (recv n) stop (\<lambda>b. ret (Inl b)) fin"
  let ?s = "s\<lparr>inbox := []\<rparr>"
  have "recv n s = Some (Inr [], ?s)" using assms by (intro recv_eof)
  then have "?body b s = Some (Inr (Inl b), ?s)" using assms(1)
    by (simp add: read_body_def bind_def ret_def)
  then have "iterate ?body b s = iterate ?body b ?s" by (rule iterate_step)
  moreover have "recv n ?s = Some (Inr [], ?s)"
    using recv_eof [of ?s t n] assms by (simp add: pending_def)
  then have "?body b ?s = Some (Inr (Inl b), ?s)" using assms(1)
    by (simp add: read_body_def bind_def ret_def)
  then have "iterate ?body b ?s = None" by (rule iterate_spin)
  ultimately show ?thesis by simp
qed

text \<open>
  A stream that ends without the stop condition is read to its end first: \<open>eof\<close> is entered with
  everything that was pending.
\<close>

lemma read_to_eof:
  assumes "prompt s" and "\<And>c d. b @ pending s = c @ d \<Longrightarrow> \<not> stop c" and "0 < n"
  shows "\<exists>s'. iterate (read_body (recv n) stop eof fin) b s =
           iterate (read_body (recv n) stop eof fin) (b @ pending s) s' \<and>
         pending s' = [] \<and> prompt s' \<and> same_conn s s' \<and> now s \<le> now s'"
  using assms
proof (induction "length (pending s)" arbitrary: b s rule: less_induct)
  case less
  show ?case
  proof (cases "pending s = []")
    case True
    with less.prems show ?thesis by (auto simp: same_conn_def)
  next
    case False
    obtain c s' where c: "recv n s = Some (Inr c, s')" "c \<noteq> []" "pending s = c @ pending s'" "prompt s'"
      "same_conn s s'"
      using recv_prompt [OF less.prems(1) False less.prems(3)] by (auto simp: same_conn_def)
    have mono: "now s \<le> now s'" using c(1)
      using recv_prompt [OF less.prems(1) False less.prems(3)] by auto
    have ns: "\<not> stop b" using less.prems(2) [of b "pending s"] by simp
    then have "read_body (recv n) stop eof fin b s = Some (Inr (Inl (b @ c)), s')"
      using c by (simp add: read_body_def bind_def ret_def)
    then have eq: "iterate (read_body (recv n) stop eof fin) b s =
        iterate (read_body (recv n) stop eof fin) (b @ c) s'"
      by (rule iterate_step)
    have "length (pending s') < length (pending s)" using c by simp
    moreover have "\<not> stop d" if "(b @ c) @ pending s' = d @ e" for d e
      using less.prems(2) [of d e] that c by simp
    ultimately obtain s'' where
      "iterate (read_body (recv n) stop eof fin) (b @ c) s' =
         iterate (read_body (recv n) stop eof fin) ((b @ c) @ pending s') s''"
      "pending s'' = []" "prompt s''" "same_conn s' s''" "now s' \<le> now s''"
      using less.hyps [of s' "b @ c"] c less.prems(3) by blast
    then show ?thesis using eq c mono by (intro exI [of _ s'']) (auto simp: same_conn_def)
  qed
qed

subsection \<open>The supervisor's reader\<close>

lemma rindex_of_append: "x \<notin> set v \<Longrightarrow> rindex_of x (w @ x # v) = Some (length w)"
  using index_of_append [of x "rev v" "rev w"] by (simp add: rindex_of_def)

lemma rindex_of_None: "x \<notin> set xs \<Longrightarrow> rindex_of x xs = None"
  by (simp add: rindex_of_def)

text \<open>A proper beginning of a reply never looks complete to \<open>recv_frame\<close>.\<close>

lemma reply_prefix_incomplete:
  assumes "acc @ p = agent_reply body code" and "p \<noteq> []" and "RS \<in> set acc"
  obtains u where "acc = write_escaped body @ RS # u" and "RS \<notin> set u" and "last acc \<noteq> 10"
proof -
  let ?w = "map word_of_nat (str_of_int code) :: bytes"
  have "acc @ p = write_escaped body @ RS # (?w @ [10])"
    using assms(1) by (simp add: agent_reply_def trailer_def)
  then obtain u where u: "acc = write_escaped body @ RS # u" "u @ p = ?w @ [10]"
    using split_at_sep [OF RS_not_in_escaped _ assms(3)] by metis
  then have "u @ butlast p = ?w" using assms(2) by (metis append_butlast_last_id append.assoc butlast_append butlast_snoc)
  then have *: "set u \<subseteq> set ?w" by (metis Un_upper1 set_append)
  then have "RS \<notin> set u" and "10 \<notin> set u" using RS_not_in_code [of code] code_no_newline [of code] by blast+
  moreover have "last acc \<noteq> 10"
  proof (cases "u = []")
    case True
    then show ?thesis using u by (simp add: RS_def)
  next
    case False
    then show ?thesis using u \<open>10 \<notin> set u\<close> last_in_set by fastforce
  qed
  ultimately show thesis using that u by blast
qed

lemma recv_frame_body_done:
  assumes "recv 4096 s = Some (Inr c, s')" and "c \<noteq> []" and "data @ c = agent_reply body code"
    and "length (str_of_int code) \<le> 4300"
  shows "recv_frame_body data s = Some (Inr (Inr (write_escaped body, code)), s')"
proof -
  let ?w = "map word_of_nat (str_of_int code) :: bytes"
  let ?d = "write_escaped body @ RS # (?w @ [10])"
  have d: "data @ c = ?d" using assms(3) by (simp add: agent_reply_def trailer_def)
  have "RS \<notin> set (?w @ [10])" using RS_not_in_code [of code] by (simp add: RS_def)
  then have r: "rindex_of RS ?d = Some (length (write_escaped body))" by (rule rindex_of_append)
  have k: "butlast (drop (length (write_escaped body) + 1) ?d) = ?w"
    "take (length (write_escaped body)) ?d = write_escaped body" "last ?d = 10"
    by simp_all
  show ?thesis
    unfolding recv_frame_body_def bind_def assms(1) d
    by (simp only: option.case sum.case prod.case assms(2) if_False Let_def d r k if_True
        py_int_bytes_code [OF assms(4)] ret_def simp_thms)
qed

lemma recv_frame_body_more:
  assumes "recv 4096 s = Some (Inr c, s')" and "c \<noteq> []" and "(data @ c) @ p = agent_reply body code"
    and "p \<noteq> []"
  shows "recv_frame_body data s = Some (Inr (Inl (data @ c)), s')"
proof (cases "RS \<in> set (data @ c)")
  case True
  then obtain u where "data @ c = write_escaped body @ RS # u" "RS \<notin> set u" "last (data @ c) \<noteq> 10"
    using reply_prefix_incomplete [OF assms(3,4)] by blast
  then show ?thesis using assms(1,2) rindex_of_append [of RS u "write_escaped body"]
    by (simp add: recv_frame_body_def bind_def ret_def Let_def)
next
  case False
  then show ?thesis using assms(1,2)
    by (simp add: recv_frame_body_def bind_def ret_def Let_def rindex_of_None)
qed

text \<open>\<open>recv_frame\<close> returns the body as it was on the wire, escapes included: it has no \<open>un\<close>.\<close>

lemma recv_frame_complete:
  assumes "prompt s" and "pending s = agent_reply body code" and "length (str_of_int code) \<le> 4300"
  shows "\<exists>s'. recv_frame s = Some (Inr (write_escaped body, code), s') \<and> pending s' = []"
proof -
  have "\<exists>s'. iterate recv_frame_body acc s = Some (Inr (write_escaped body, code), s') \<and> pending s' = []"
    if "prompt s" "acc @ pending s = agent_reply body code" "pending s \<noteq> []" for acc s
    using that
  proof (induction "length (pending s)" arbitrary: acc s rule: less_induct)
    case less
    obtain c s' where c: "recv 4096 s = Some (Inr c, s')" "c \<noteq> []" "pending s = c @ pending s'" "prompt s'"
      using recv_prompt [OF less.prems(1,3), of 4096] by auto
    show ?case
    proof (cases "pending s' = []")
      case True
      then have "acc @ c = agent_reply body code" using less.prems(2) c(3) by simp
      then have "recv_frame_body acc s = Some (Inr (Inr (write_escaped body, code)), s')"
        using recv_frame_body_done [of s c s' acc body code] c(1,2) assms(3) by blast
      then have "iterate recv_frame_body acc s = Some (Inr (write_escaped body, code), s')"
        by (rule iterate_done)
      with True show ?thesis by blast
    next
      case False
      have r: "(acc @ c) @ pending s' = agent_reply body code" using less.prems(2) c(3) by simp
      have "recv_frame_body acc s = Some (Inr (Inl (acc @ c)), s')"
        using recv_frame_body_more [of s c s' acc "pending s'" body code] c(1,2) r False by blast
      then have "iterate recv_frame_body acc s = iterate recv_frame_body (acc @ c) s'"
        by (rule iterate_step)
      moreover have "length (pending s') < length (pending s)" using c by simp
      ultimately show ?thesis using less.hyps [OF _ c(4) r False] by simp
    qed
  qed
  moreover have "agent_reply body code \<noteq> []" by (simp add: agent_reply_def trailer_def)
  ultimately show ?thesis
    using assms(1,2) unfolding recv_frame_def by simp
qed

section \<open>Sessions: the interface of a framed reader\<close>

text \<open>
  A session sends one line after the other and reads the reply of each before the next
  (\<open>cmd_line(s, l); read_framed(s)\<close>).
\<close>

fun session :: "(nat \<Rightarrow> (sock, bytes \<times> int option) io) \<Rightarrow> nat \<Rightarrow> pystr list \<Rightarrow>
    (sock, (bytes \<times> int option) list) io" where
  "session rd to [] = ret []"
| "session rd to (l # ls) =
     seq (send_line l) (bind (rd to) (\<lambda>r. bind (session rd to ls) (\<lambda>rs. ret (r # rs))))"

text \<open>A peer that answers each line with one framed reply, in chunks of its choice, in time.\<close>

definition answers :: "sock \<Rightarrow> nat \<Rightarrow> (bytes \<Rightarrow> bytes \<times> int) \<Rightarrow> bool" where
  "answers s to h \<longleftrightarrow>
     (\<forall>hist. concat (map snd (peer s hist)) = agent_reply (fst (h hist)) (snd (h hist)) \<and>
        (\<forall>(d, c) \<in> set (peer s hist). d < to) \<and> length (str_of_int (snd (h hist))) \<le> 4300)"

fun expected :: "(bytes \<Rightarrow> bytes \<times> int) \<Rightarrow> bytes \<Rightarrow> bytes list \<Rightarrow> (bytes \<times> int option) list" where
  "expected h hist [] = []"
| "expected h hist (l # ls) =
     (let hist' = hist @ l @ [10] in (fst (h hist'), Some (snd (h hist'))) # expected h hist' ls)"

lemma prompt_fromI: "(\<forall>(t, b) \<in> set xs. t < u + m) \<Longrightarrow> prompt_from u m xs"
proof (induction xs arbitrary: u)
  case Nil
  then show ?case by simp
next
  case (Cons p xs)
  obtain t b where p: "p = (t, b)" by (cases p)
  have "\<forall>(t', b) \<in> set xs. t' < max u t + m" using Cons.prems by fastforce
  then show ?case using Cons p by auto
qed

locale framed_reader =
  fixes rd :: "nat \<Rightarrow> (sock, bytes \<times> int option) io"
  assumes rd_reply: "prompt (s\<lparr>tmo := to\<rparr>) \<Longrightarrow> pending s = agent_reply body code \<Longrightarrow>
      length (str_of_int code) \<le> 4300 \<Longrightarrow>
      \<exists>s'. rd to s = Some (Inr (body, Some code), s') \<and> pending s' = [] \<and>
           same_conn (s\<lparr>tmo := to\<rparr>) s'"
begin

lemma exchange:
  assumes "answers s to h" and "pending s = []" and "encode line = Inr b"
  shows "\<exists>s'. seq (send_line line) (rd to) s =
           Some (Inr (fst (h (sent s @ b @ [10])), Some (snd (h (sent s @ b @ [10])))), s') \<and>
         pending s' = [] \<and> answers s' to h \<and> sent s' = sent s @ b @ [10] \<and> peer s' = peer s"
proof -
  let ?hist = "sent s @ b @ [10]"
  let ?s = "s\<lparr>sent := ?hist, inbox := inbox s @ map (\<lambda>(d, c). (now s + d, c)) (peer s ?hist)\<rparr>"
  have "concat (map snd (peer s ?hist)) \<noteq> []" using assms(1) by (simp add: answers_def agent_reply_def trailer_def)
  then have "peer s ?hist \<noteq> []" by auto
  then have snd: "send_line line s = Some (Inr (), ?s)"
    using assms(3) by (simp add: send_line_def sendall_def bind_def lift_def Let_def)
  have ch: "chunks s = []" using assms(2) by (simp add: chunks_Nil)
  have m: "concat (map snd (map (\<lambda>(d, c). (n + d, c)) xs)) = concat (map snd xs)"
    for n :: nat and xs :: "(nat \<times> bytes) list"
    by (induction xs) auto
  have "pending ?s = agent_reply (fst (h ?hist)) (snd (h ?hist))"
    using assms(1,2) by (simp add: pending_def answers_def m del: map_map)
  moreover have "prompt (?s\<lparr>tmo := to\<rparr>)"
    unfolding prompt_def
    by (rule prompt_fromI) (use assms(1) ch in \<open>fastforce simp: answers_def chunks_def\<close>)
  moreover have "length (str_of_int (snd (h ?hist))) \<le> 4300" using assms(1) by (simp add: answers_def)
  ultimately obtain s' where "rd to ?s = Some (Inr (fst (h ?hist), Some (snd (h ?hist))), s')"
    "pending s' = []" "same_conn (?s\<lparr>tmo := to\<rparr>) s'"
    using rd_reply by blast
  then show ?thesis using snd assms(1)
    by (auto simp: seq_def bind_def same_conn_def answers_def)
qed

text \<open>Every line of a session gets its own reply, in order.\<close>

lemma session_replies:
  assumes "answers s to h" and "pending s = []" and "list_all2 (\<lambda>l b. encode l = Inr b) ls bs"
  shows "\<exists>s'. session rd to ls s = Some (Inr (expected h (sent s) bs), s') \<and> pending s' = []"
  using assms
proof (induction ls arbitrary: s bs)
  case Nil
  then show ?case by (simp add: ret_def)
next
  case (Cons l ls)
  then obtain b bs' where bs: "bs = b # bs'" "encode l = Inr b"
    "list_all2 (\<lambda>l b. encode l = Inr b) ls bs'"
    by (auto simp: list_all2_Cons1)
  let ?hist = "sent s @ b @ [10]"
  obtain s1 where s1: "seq (send_line l) (rd to) s =
      Some (Inr (fst (h ?hist), Some (snd (h ?hist))), s1)"
    "pending s1 = []" "answers s1 to h" "sent s1 = ?hist"
    using exchange [OF Cons.prems(1,2) bs(2)] by blast
  then obtain s2 where "session rd to ls s1 = Some (Inr (expected h ?hist bs'), s2)" "pending s2 = []"
    using Cons.IH [OF s1(3,2) bs(3)] by auto
  then show ?case using s1 bs
    by (auto simp: seq_def bind_def ret_def Let_def split: option.splits sum.splits prod.splits)
qed

end

interpretation pk: framed_reader framed
  by unfold_locales (use framed_complete [where extra = "[]"] in fastforce)

interpretation v2: framed_reader read_framed
  by unfold_locales (use read_framed_complete [where extra = "[]"] in fastforce)

section \<open>Properties\<close>

text \<open>What evaluates a reply and a socket that are given in full.\<close>

lemmas wire_eval = pending_def chunks_def prompt_def agent_reply_def trailer_def RS_def ESC_def str_of_int_def
  str_of_nat_def dec_digits.simps Let_def v1_bare_def encode_def utf8_char_def lit_def is_scalar_def

text \<open>
  C10: the wire format is prefix-free: from the bytes of a reply followed by anything, the
  body, the exit code and what follows are determined, so a body can forge no trailer.
\<close>

theorem agent_reply_unique:
  assumes "agent_reply body code @ x = agent_reply body' code' @ x'"
  shows "body = body' \<and> code = code' \<and> x = x'"
proof -
  let ?w = "map word_of_nat (str_of_int code) :: bytes" and ?w' = "map word_of_nat (str_of_int code') :: bytes"
  have "write_escaped body @ RS # (?w @ 10 # x) = write_escaped body' @ RS # (?w' @ 10 # x')"
    using assms by (simp add: agent_reply_def trailer_def)
  from sep_cong [OF RS_not_in_escaped RS_not_in_escaped this]
  have e: "write_escaped body = write_escaped body'" and "?w @ 10 # x = ?w' @ 10 # x'" by simp_all
  from sep_cong [OF code_no_newline code_no_newline this(2)] have w: "?w = ?w'" and "x = x'" by simp_all
  moreover have "body = body'" using e un_write_escaped by metis
  moreover have "str_of_int code = str_of_int code'"
  proof (rule map_inj_on [OF w], rule inj_onI)
    fix c d assume "c \<in> set (str_of_int code) \<union> set (str_of_int code')"
      "d \<in> set (str_of_int code) \<union> set (str_of_int code')" "(word_of_nat c :: byte) = word_of_nat d"
    moreover from this have "c < 256" "d < 256"
      using str_of_int_chars [of c] str_of_int_chars [of d] by fastforce+
    ultimately show "c = d" by (metis unat_byte)
  qed
  ultimately show ?thesis by (simp add: str_of_int_inject)
qed

theorem agent_reply_unique_witness:
  "agent_reply [0x1e, 65] 7 @ [1] = agent_reply (0x1e # [65]) (3 + 4) @ [2 - 1] \<and>
   ([0x1e, 65] :: bytes) = 0x1e # [65] \<and> (7 :: int) = 3 + 4 \<and> ([1] :: bytes) = [2 - 1]"
  using agent_reply_unique [of "[0x1e, 65]" 7 "[1]" "0x1e # [65]" "3 + 4" "[2 - 1]"] by simp

text \<open>
  C3: for every chunking of a reply, with the arrivals in time, the framed readers of the
  proofs return the agent's body, unescaped, with its exit code, and consume at least the reply.
\<close>

theorem framed_any_chunking:
  assumes "prompt (s\<lparr>tmo := to\<rparr>)" and "pending s = agent_reply body code @ extra"
    and "length (str_of_int code) \<le> 4300"
  shows "\<exists>lost s'. framed to s = Some (Inr (body, Some code), s') \<and> extra = lost @ pending s'"
  using framed_complete [OF assms] by (metis (full_types))

theorem framed_any_chunking_witness:
  "\<exists>lost s'. framed 10 \<lparr>inbox = [(0, [65, 0x1f]), (5, [0x5e, 0x1e]), (9, [51, 10, 90])], closes = None,
       sent = [], shut = False, broken = \<lambda>_. None, drip = \<lambda>_ _. None, dripped = 0, tmo = 0, now = 0, peer = \<lambda>_. []\<rparr> = Some (Inr ([65, 0x1e], Some 3), s') \<and> [90] = lost @ pending s'"
  by (rule framed_any_chunking) (simp_all add: wire_eval)

text \<open>
  C24: in a session of \<open>proto_v2.py\<close> (\<open>cmd_line\<close>, then \<open>read_framed\<close>) with a peer that answers every
  line in time, in whatever chunks, each line gets its own reply and exit code, in order, and
  nothing is left over for the next.
\<close>

theorem session_in_order:
  assumes "answers s to h" and "pending s = []" and "list_all2 (\<lambda>l b. encode l = Inr b) ls bs"
  shows "\<exists>s'. session read_framed to ls s = Some (Inr (expected h (sent s) bs), s') \<and> pending s' = []"
  by (rule v2.session_replies [OF assms])

theorem session_in_order_witness:
  "\<exists>s'. session read_framed 9 [lit ''a'', lit ''b'']
     \<lparr>inbox = [], closes = None, sent = [], shut = False, broken = \<lambda>_. None, drip = \<lambda>_ _. None, dripped = 0, tmo = 0, now = 2, peer = \<lambda>sent. [(1, write_escaped sent), (2, trailer 5)]\<rparr> =
     Some (Inr [([97, 10], Some 5), ([97, 10, 98, 10], Some 5)], s') \<and> pending s' = []"
  using session_in_order [of "\<lparr>inbox = [], closes = None, sent = [], shut = False, broken = \<lambda>_. None, drip = \<lambda>_ _. None, dripped = 0, tmo = 0, now = 2,
      peer = \<lambda>sent. [(1, write_escaped sent), (2, trailer 5)]\<rparr>" 9 "\<lambda>sent. (sent, 5)" "[lit ''a'', lit ''b'']" "[[97], [98]]"]
  by (simp add: answers_def wire_eval)

text \<open>A peer that closes between the marker and the newline: the loop that looks for the newline comes to the end
  of what there is, whatever it does then.\<close>

abbreviation newline_loop :: "nat \<Rightarrow> (bytes \<Rightarrow> (sock, bytes + bytes) io) \<Rightarrow> bytes \<Rightarrow> (sock, bytes) io" where
  "newline_loop rs eof \<equiv> iterate (read_body (recv 64) (\<lambda>b. 10 \<in> set (drop (rs + 1) b)) eof id)"

lemma cut_after_marker:
  assumes "prompt (s\<lparr>tmo := to\<rparr>)" and "pending s = w @ RS # v" and "RS \<notin> set w" and "10 \<notin> set v"
    and "closes s = Some t" and "t \<le> now s"
  obtains u s1 where "iterate (read_body (recv 4096) (\<lambda>b. RS \<in> set b) (\<lambda>b. ret (Inr (Inl b))) Inr) [] (s\<lparr>tmo := to\<rparr>) =
      Some (Inr (Inr (w @ RS # u)), s1)"
    "\<forall>eof. \<exists>s2. newline_loop (length w) eof (w @ RS # u) s1 = newline_loop (length w) eof (w @ RS # v) s2 \<and> pending s2 = [] \<and>
      closes s2 = Some t \<and> t \<le> now s2"
proof -
  let ?s = "s\<lparr>tmo := to\<rparr>" and ?rs = "length w"
  have p: "pending ?s = w @ RS # v" using assms(2) by (simp add: pending_def)
  obtain u s1 where 1: "iterate (read_body (recv 4096) (\<lambda>b. RS \<in> set b) (\<lambda>b. ret (Inr (Inl b))) Inr) [] ?s =
      Some (Inr (Inr (w @ RS # u)), s1)" "u @ pending s1 = v" "prompt s1" "same_conn ?s s1"
    using read_to_sep [OF assms(1) p assms(3), of "\<lambda>b. ret (Inr (Inl b))" Inr] by metis
  have eq: "(w @ RS # u) @ pending s1 = w @ RS # v" using 1(2) by simp
  have ns: "10 \<notin> set (drop (?rs + 1) c)" if "(w @ RS # u) @ pending s1 = c @ d" for c d
  proof -
    have "drop (?rs + 1) (c @ d) = v" using that eq by (metis drop_Suc_Cons Suc_eq_plus1 append_eq_conv_conj drop_drop drop0 add.commute)
    then have "set (drop (?rs + 1) c) \<subseteq> set v" by auto
    then show ?thesis using assms(4) by blast
  qed
  have "\<exists>s2. newline_loop ?rs eof (w @ RS # u) s1 = newline_loop ?rs eof (w @ RS # v) s2 \<and> pending s2 = [] \<and>
      closes s2 = Some t \<and> t \<le> now s2" for eof
  proof -
    obtain s2 where "newline_loop ?rs eof (w @ RS # u) s1 = newline_loop ?rs eof ((w @ RS # u) @ pending s1) s2"
      "pending s2 = []" "same_conn s1 s2"
      using read_to_eof [OF 1(3), where n = 64 and eof = eof and fin = id and b = "w @ RS # u"
          and stop = "\<lambda>b. 10 \<in> set (drop (?rs + 1) b)"] ns by auto
    then show ?thesis using 1(4) assms(5,6) eq by (auto simp: same_conn_def)
  qed
  then show thesis using that [OF 1(1)] by blast
qed

text \<open>
  C27: a peer that closes after the marker but before the newline: \<open>framed\<close> never returns (its
  second loop adds \<open>b""\<close> for ever), while \<open>read_framed\<close> leaves its loop and raises \<open>ValueError\<close>.
\<close>

theorem framed_spins_read_framed_raises:
  assumes "prompt (s\<lparr>tmo := to\<rparr>)" and "pending s = w @ RS # v" and "RS \<notin> set w" and "10 \<notin> set v"
    and "closes s = Some t" and "t \<le> now s"
  shows "framed to s = None \<and> (\<exists>s'. read_framed to s = Some (Inl ValueError, s'))"
proof -
  let ?rs = "length w"
  obtain u s1 where 1: "iterate (read_body (recv 4096) (\<lambda>b. RS \<in> set b) (\<lambda>b. ret (Inr (Inl b))) Inr) [] (s\<lparr>tmo := to\<rparr>) =
      Some (Inr (Inr (w @ RS # u)), s1)"
    and end_: "\<forall>eof. \<exists>s2. newline_loop ?rs eof (w @ RS # u) s1 = newline_loop ?rs eof (w @ RS # v) s2 \<and> pending s2 = [] \<and>
      closes s2 = Some t \<and> t \<le> now s2"
    by (rule cut_after_marker [OF assms])
  have nl: "10 \<notin> set (drop (?rs + 1) (w @ RS # v))" using assms(4) by simp
  obtain s2 where "newline_loop ?rs (\<lambda>b. ret (Inl b)) (w @ RS # u) s1 = newline_loop ?rs (\<lambda>b. ret (Inl b)) (w @ RS # v) s2"
    "pending s2 = []" "closes s2 = Some t" "t \<le> now s2" using end_ by blast
  then have "newline_loop ?rs (\<lambda>b. ret (Inl b)) (w @ RS # u) s1 = None"
    using read_loop_spins [where b = "w @ RS # v" and s = s2 and t = t and n = 64 and fin = id and stop = "\<lambda>b. 10 \<in> set (drop (?rs + 1) b)"] nl by simp
  then have spin: "framed to s = None"
    using 1 index_of_append [OF assms(3), of u] by (simp add: framed_def seq_def bind_def settimeout_run)
  obtain s3 where s3: "newline_loop ?rs (\<lambda>b. ret (Inr b)) (w @ RS # u) s1 = newline_loop ?rs (\<lambda>b. ret (Inr b)) (w @ RS # v) s3"
    "pending s3 = []" "closes s3 = Some t" "t \<le> now s3" using end_ by blast
  have "newline_loop ?rs (\<lambda>b. ret (Inr b)) (w @ RS # v) s3 = Some (Inr (w @ RS # v), s3\<lparr>inbox := []\<rparr>)"
    by (rule iterate_done) (use nl recv_eof [OF s3(2-4), of 64] in \<open>simp add: read_body_def bind_def ret_def\<close>)
  then have "\<exists>s'. read_framed to s = Some (Inl ValueError, s')"
    using 1 index_of_append [OF assms(3), of u] s3(1) assms(4)
    by (simp add: read_framed_def seq_def bind_def settimeout_run raise_def)
  with spin show ?thesis by blast
qed

theorem framed_spins_read_framed_raises_witness:
  "framed 10 \<lparr>inbox = [(0, [65, 0x1e, 49])], closes = Some 1, sent = [], shut = False, broken = \<lambda>_. None, drip = \<lambda>_ _. None, dripped = 0, tmo = 0, now = 2, peer = \<lambda>_. []\<rparr> = None \<and>
   (\<exists>s'. read_framed 10 \<lparr>inbox = [(0, [65, 0x1e, 49])], closes = Some 1, sent = [], shut = False, broken = \<lambda>_. None, drip = \<lambda>_ _. None, dripped = 0, tmo = 0, now = 2, peer = \<lambda>_. []\<rparr> =
      Some (Inl ValueError, s'))"
  by (rule framed_spins_read_framed_raises [where w = "[65]" and v = "[49]" and t = 1]) (simp_all add: wire_eval)

text \<open>
  C28: when the peer closes without a marker, \<open>bake.py\<close>'s \<open>frame\<close> returns what it has read,
  and \<open>fork_serve.py\<close>'s (the same loop without the \<open>if not c: break\<close>) never returns.
\<close>

theorem frame_eof:
  assumes "prompt s" and "RS \<notin> set (pending s)" and "closes s = Some t" and "t \<le> now s"
  shows "fork_serve_frame s = None \<and> (\<exists>s'. frame s = Some (Inr (pending s), s'))"
proof -
  let ?loop = "\<lambda>eof. iterate (read_body (recv 4096) (\<lambda>b. RS \<in> set b) eof id)"
  have "RS \<notin> set c" if "[] @ pending s = c @ d" for c d
    using that assms(2) by (metis UnI1 append_Nil set_append)
  then have *: "\<exists>s2. ?loop eof [] s = ?loop eof (pending s) s2 \<and> pending s2 = [] \<and>
      closes s2 = Some t \<and> t \<le> now s2" for eof
    using read_to_eof [OF assms(1), where n = 4096 and eof = eof and fin = id and b = "[]"
        and stop = "\<lambda>b. RS \<in> set b"] assms(3,4) by (fastforce simp: same_conn_def)
  obtain s2 where "?loop (\<lambda>b. ret (Inl b)) [] s = ?loop (\<lambda>b. ret (Inl b)) (pending s) s2"
    "pending s2 = []" "closes s2 = Some t" "t \<le> now s2" using * by blast
  then have "fork_serve_frame s = None"
    using read_loop_spins [where stop = "\<lambda>b. RS \<in> set b" and b = "pending s" and s = s2 and t = t and n = 4096
        and fin = id] assms(2) by (simp add: fork_serve_frame_def)
  moreover
  obtain s3 where s3: "?loop (\<lambda>b. ret (Inr b)) [] s = ?loop (\<lambda>b. ret (Inr b)) (pending s) s3"
    "pending s3 = []" "closes s3 = Some t" "t \<le> now s3" using * by blast
  have "?loop (\<lambda>b. ret (Inr b)) (pending s) s3 = Some (Inr (pending s), s3\<lparr>inbox := []\<rparr>)"
    by (rule iterate_done) (use assms(2) recv_eof [OF s3(2-4), of 4096] in \<open>simp add: read_body_def bind_def ret_def\<close>)
  then have "\<exists>s'. frame s = Some (Inr (pending s), s')" using s3(1) by (simp add: frame_def)
  ultimately show ?thesis by blast
qed

theorem frame_eof_witness:
  "fork_serve_frame \<lparr>inbox = [(0, [69, 82, 82])], closes = Some 1, sent = [], shut = False, broken = \<lambda>_. None, drip = \<lambda>_ _. None, dripped = 0, tmo = 5, now = 2, peer = \<lambda>_. []\<rparr> = None \<and>
   (\<exists>s'. frame \<lparr>inbox = [(0, [69, 82, 82])], closes = Some 1, sent = [], shut = False, broken = \<lambda>_. None, drip = \<lambda>_ _. None, dripped = 0, tmo = 5, now = 2, peer = \<lambda>_. []\<rparr> =
      Some (Inr [69, 82, 82], s'))"
  using frame_eof [of "\<lparr>inbox = [(0, [69, 82, 82])], closes = Some 1, sent = [], shut = False, broken = \<lambda>_. None, drip = \<lambda>_ _. None, dripped = 0, tmo = 5, now = 2, peer = \<lambda>_. []\<rparr>" 1]
  by (simp add: wire_eval)

lemma v1_settles_early:
  assumes "inbox s = [(t1, b1), (t2, b2)]" and "b1 @ b2 = agent_reply body code"
    and "v1_bare b1" and "length b1 \<le> 4096" and "b2 \<noteq> []"
    and "t1 \<le> now s" and "now s + settle \<le> t2" and "0 < settle" and "0 < hang"
    and "t2 < now s + to" and "length (str_of_int code) \<le> 4300"
  shows "\<exists>s'. read_v1_settle settle hang s = Some (Inr (Bare, before 10 b1), s')"
proof -
  have b1: "b1 \<noteq> []" "RS \<notin> set b1" using assms(3) by (auto simp: v1_bare_def)
  then have ch: "chunks s = [(t1, b1), (t2, b2)]" using assms(1,5) by (simp add: chunks_def)
  have ch': "chunks (s\<lparr>inbox := [(t2, b2)]\<rparr>) = [(t2, b2)]" using assms(5) by (simp add: chunks_def)
  define round where "round = (\<lambda>buf.
       bind (get now) (\<lambda>t.
       if \<not> t - now s < hang then ret (Inr (Timeout, buf))
       else
         bind (select_read (if v1_bare buf then settle else hang)) (\<lambda>r.
         if \<not> r then
           (if v1_bare buf then ret (Inr (Bare, before 10 buf)) else ret (Inr (Hang, buf)))
         else
           bind (recv 4096) (\<lambda>c.
           if c = [] then ret (Inr (Eof, buf))
           else if RS \<in> set (buf @ c) then ret (Inr (Framed, before RS (buf @ c)))
           else ret (Inl (buf @ c))))))"
  have nb: "\<not> v1_bare []" by (simp add: v1_bare_def)
  have "select_read hang s = Some (Inr True, s)"
    using ch assms(6) by (simp add: select_read_def readable_at_def max_absorb1)
  moreover have "recv 4096 s = Some (Inr b1, s\<lparr>inbox := [(t2, b2)]\<rparr>)"
    using ch assms(4,6) by (simp add: recv_def max_absorb1)
  ultimately have "round [] s = Some (Inr (Inl b1), s\<lparr>inbox := [(t2, b2)]\<rparr>)"
    using b1 nb assms(9) by (simp add: round_def bind_def get_def ret_def)
  then have "iterate round [] s = iterate round b1 (s\<lparr>inbox := [(t2, b2)]\<rparr>)" by (rule iterate_step)
  moreover have "select_read settle (s\<lparr>inbox := [(t2, b2)]\<rparr>) =
      Some (Inr False, s\<lparr>inbox := [(t2, b2)], now := now s + settle\<rparr>)"
    using ch' assms(7,8) by (simp add: select_read_def readable_at_def)
  then have "round b1 (s\<lparr>inbox := [(t2, b2)]\<rparr>) =
      Some (Inr (Inr (Bare, before 10 b1)), s\<lparr>inbox := [(t2, b2)], now := now s + settle\<rparr>)"
    using assms(3,9) by (simp add: round_def bind_def get_def ret_def)
  then have "iterate round b1 (s\<lparr>inbox := [(t2, b2)]\<rparr>) =
      Some (Inr (Bare, before 10 b1), s\<lparr>inbox := [(t2, b2)], now := now s + settle\<rparr>)" by (rule iterate_done)
  ultimately show ?thesis
    unfolding read_v1_settle_def by (simp add: bind_def [of "get now"] get_def [of now s] round_def [symmetric])
qed

text \<open>
  C25: a reply whose first chunk is a complete \<open>OK \<close> or \<open>ERR \<close> line and whose rest comes later than
  the settle time is cut to its first line by the v1 reader, while the v2 reader returns it whole.
\<close>

theorem v1_truncates_v2_does_not:
  assumes "inbox s = [(t1, b1), (t2, b2)]" and "b1 @ b2 = agent_reply body code"
    and "v1_bare b1" and "length b1 \<le> 4096" and "b2 \<noteq> []"
    and "t1 \<le> now s" and "now s + settle \<le> t2" and "0 < settle" and "0 < hang"
    and "t2 < now s + to" and "length (str_of_int code) \<le> 4300"
  shows "(\<exists>s'. read_v1_settle settle hang s = Some (Inr (Bare, before 10 b1), s')) \<and>
         (\<exists>s'. read_framed to s = Some (Inr (body, Some code), s'))"
proof
  show "\<exists>s'. read_v1_settle settle hang s = Some (Inr (Bare, before 10 b1), s')" by (rule v1_settles_early [OF assms])
next
  have "prompt (s\<lparr>tmo := to\<rparr>)" unfolding prompt_def
    by (rule prompt_fromI) (use assms in \<open>auto simp: chunks_def\<close>)
  moreover have "pending s = agent_reply body code @ []" using assms(1,2) by (simp add: pending_def)
  ultimately show "\<exists>s'. read_framed to s = Some (Inr (body, Some code), s')"
    using read_framed_complete [OF _ _ assms(11)] by blast
qed

theorem v1_truncates_v2_does_not_witness:
  "let b1 = [0x4f, 0x4b, 0x20, 97, 10]; b2 = [98, 10, 0x1e, 51, 10];
       s = \<lparr>inbox = [(1, b1), (9, b2)], closes = None, sent = [], shut = False, broken = \<lambda>_. None, drip = \<lambda>_ _. None, dripped = 0, tmo = 0, now = 2, peer = \<lambda>_. []\<rparr> in
   (\<exists>s'. read_v1_settle 5 20 s = Some (Inr (Bare, [0x4f, 0x4b, 0x20, 97]), s')) \<and>
   (\<exists>s'. read_framed 15 s = Some (Inr ([0x4f, 0x4b, 0x20, 97, 10, 98, 10], Some 3), s'))"
  using v1_truncates_v2_does_not
    [of "\<lparr>inbox = [(1, [0x4f, 0x4b, 0x20, 97, 10]), (9, [98, 10, 0x1e, 51, 10])], closes = None, sent = [], shut = False, broken = \<lambda>_. None, drip = \<lambda>_ _. None, dripped = 0, tmo = 0,
          now = 2, peer = \<lambda>_. []\<rparr>"
      1 "[0x4f, 0x4b, 0x20, 97, 10]" 9 "[98, 10, 0x1e, 51, 10]" "[0x4f, 0x4b, 0x20, 97, 10, 98, 10]" 3 5 20 15]
  by (simp add: wire_eval before_def)

lemma recv_now:
  assumes "chunks s = (t, b) # r" and "t \<le> now s"
  shows "recv n s = Some (Inr (take n b), s\<lparr>inbox := (if length b \<le> n then r else (t, drop n b) # r)\<rparr>)"
  using assms by (simp add: recv_def max_absorb1)

lemma send_line_run:
  "encode l = Inr b \<Longrightarrow> peer s (sent s @ b @ [10]) \<noteq> [] \<or> broken s (sent s @ b @ [10]) = None \<Longrightarrow> send_line l s =
     Some (Inr (), s\<lparr>sent := sent s @ b @ [10],
       inbox := inbox s @ map (\<lambda>(d, c). (now s + d, c)) (peer s (sent s @ b @ [10]))\<rparr>)"
  by (auto simp: send_line_def sendall_def bind_def lift_def Let_def)

lemma chunks_now: "chunks (s\<lparr>inbox := (t, b) # r\<rparr>) = (if b = [] then chunks (s\<lparr>inbox := r\<rparr>) else (t, b) # chunks (s\<lparr>inbox := r\<rparr>))"
  by (simp add: chunks_def)

lemma read_body_data:
  assumes "\<not> stop b" and "chunks s = (t, c) # r" and "t \<le> now s" and "0 < n"
  shows "iterate (read_body (recv n) stop eof fin) b s =
    iterate (read_body (recv n) stop eof fin) (b @ take n c)
      (s\<lparr>inbox := (if length c \<le> n then r else (t, drop n c) # r)\<rparr>)"
proof -
  have "c \<noteq> []" using assms(2) chunks_nonempty [of t c s] by simp
  then have "take n c \<noteq> []" using assms(4) by simp
  then show ?thesis
    by (intro iterate_step) (simp add: read_body_def bind_def recv_now [OF assms(2,3)] ret_def assms(1))
qed

lemma read_body_stop: "stop b \<Longrightarrow> iterate (read_body rcv stop eof fin) b s = Some (Inr (fin b), s)"
  by (rule iterate_done) (simp add: read_body_def ret_def)

lemma decode_code: "decode (map word_of_nat (str_of_int code) @ [10]) = str_of_int code @ [10]"
proof -
  let ?w = "map word_of_nat (str_of_int code) :: bytes"
  have small: "c < 128" if "c \<in> set (str_of_int code)" for c using str_of_int_chars [OF that] by auto
  then have "\<forall>b \<in> set (?w @ [10]). unat b < 128" by (auto simp: unat_byte dest!: small)
  then have "decode (?w @ [10]) = map unat (?w @ [10])" by (rule decode_ascii)
  moreover have "map unat ?w = str_of_int code" by (auto intro!: map_idI simp: unat_byte dest!: small)
  ultimately show ?thesis by simp
qed

lemma strip_code: "strip (str_of_int code @ [10]) = str_of_int code"
proof -
  have ne: "str_of_int code \<noteq> []" by (simp add: str_of_int_def)
  have "\<not> is_space (hd (str_of_int code))" using ne str_of_int_not_space hd_in_set by blast
  then have "dropWhile is_space (str_of_int code @ [10]) = str_of_int code @ [10]"
    using ne by (cases "str_of_int code") auto
  moreover have "dropWhile is_space (10 # rev (str_of_int code)) = rev (str_of_int code)"
    using ne str_of_int_not_space [of "last (str_of_int code)" code]
    by (cases "rev (str_of_int code)") (auto simp: is_space_def [of 10] rev_eq_Cons_iff)
  ultimately show ?thesis by (simp add: strip_by_def)
qed

text \<open>
  C26: \<open>bake.py\<close>'s \<open>cmd\<close> stops reading at the marker and leaves the exit trailer unread when the
  marker is the last byte of its 4096-byte read: after a reply of 4095 (escaped) bytes the next
  \<open>meta\<close>, once its line is sent, returns the exit code of the previous command, whatever the VM answers.
\<close>

theorem cmd_leaves_trailer_for_meta:
  assumes "inbox s = []" and "encode l1 = Inr b1" and "encode l2 = Inr b2"
    and "peer s (sent s @ b1 @ [10]) = [(0, agent_reply body code)]"
    and "length (write_escaped body) = 4095" and "length (str_of_int code) \<le> 255"
    and "broken s (sent s @ b1 @ [10] @ b2 @ [10]) = None"
  shows "\<exists>s'. bind (cmd l1 to1) (\<lambda>_. meta l2 to2) s = Some (Inr (str_of_int code), s')"
proof -
  let ?w = "map word_of_nat (str_of_int code) @ [10] :: bytes"
  let ?r = "agent_reply body code"
  let ?s1 = "s\<lparr>tmo := to1, sent := sent s @ b1 @ [10], inbox := [(now s, ?r)]\<rparr>"
  let ?s2 = "?s1\<lparr>inbox := [(now s, ?w)]\<rparr>"
  have r: "take 4096 ?r = write_escaped body @ [RS]" "drop 4096 ?r = ?w" "\<not> length ?r \<le> 4096" "?r \<noteq> []"
    using assms(5) by (auto simp: agent_reply_def trailer_def)
  have frame: "frame ?s1 = Some (Inr (write_escaped body @ [RS]), ?s2)"
    using read_body_data [of "\<lambda>b. RS \<in> set b" "[]" ?s1 "now s" ?r "[]" 4096 "\<lambda>b. ret (Inr b)" id] r
    by (simp add: frame_def chunks_now chunks_def read_body_stop)
  let ?s3 = "?s2\<lparr>tmo := tmo s\<rparr>"
  have c: "cmd l1 to1 s = Some (Inr (decode (before RS (write_escaped body @ [RS]))), ?s3)"
    using frame assms(1,2,4)
    by (simp add: cmd_def bind_def get_def seq_def settimeout_run send_line_run ret_def)
  let ?more = "map (\<lambda>(d, c). (now s + d, c)) (peer s (sent s @ b1 @ [10] @ b2 @ [10]))"
  let ?s4 = "?s3\<lparr>tmo := to2, sent := sent s @ b1 @ [10] @ b2 @ [10], inbox := (now s, ?w) # ?more\<rparr>"
  have "iterate (read_body (recv 256) (\<lambda>b. 10 \<in> set b) (\<lambda>b. ret (Inr b)) id) [] ?s4 =
      Some (Inr ?w, ?s4\<lparr>inbox := chunks (?s4\<lparr>inbox := ?more\<rparr>)\<rparr>)"
    using read_body_data [of "\<lambda>b. 10 \<in> set b" "[]" ?s4 "now s" ?w "chunks (?s4\<lparr>inbox := ?more\<rparr>)" 256
        "\<lambda>b. ret (Inr b)" id] assms(6)
    by (simp add: chunks_now read_body_stop)
  then have "meta l2 to2 ?s3 = Some (Inr (strip (decode ?w)), ?s4\<lparr>inbox := chunks (?s4\<lparr>inbox := ?more\<rparr>), tmo := tmo s\<rparr>)"
    using assms(3,7)
    by (simp add: meta_def bind_def get_def seq_def settimeout_run send_line_run ret_def)
  then show ?thesis using c by (simp add: bind_def decode_code strip_code)
qed

lemma write_escaped_plain: "b \<noteq> RS \<Longrightarrow> b \<noteq> ESC \<Longrightarrow> write_escaped (replicate n b) = replicate n b"
  by (induction n) auto

theorem cmd_leaves_trailer_for_meta_witness:
  "\<exists>s'. bind (cmd (lit ''a'') 3) (\<lambda>_. meta (lit ''b'') 4)
     \<lparr>inbox = [], closes = None, sent = [], shut = False, broken = \<lambda>_. None, drip = \<lambda>_ _. None, dripped = 0, tmo = 5, now = 2, peer = \<lambda>_. [(0, agent_reply (replicate 4095 65) 7)]\<rparr> =
     Some (Inr (lit ''7''), s')"
  using cmd_leaves_trailer_for_meta [of "\<lparr>inbox = [], closes = None, sent = [], shut = False, broken = \<lambda>_. None, drip = \<lambda>_ _. None, dripped = 0, tmo = 5, now = 2,
      peer = \<lambda>_. [(0, agent_reply (replicate 4095 65) 7)]\<rparr>" "lit ''a''" "[97]" "lit ''b''" "[98]" "replicate 4095 65" 7 3 4]
  by (simp add: write_escaped_plain [unfolded RS_def ESC_def] wire_eval)

end
