(* ===== verification/Host.thy ===== *)
theory Host
  imports Paths Py_Value Wire "HOL-Library.List_Lexorder"
begin

text \<open>
  The machine the scripts run on.  A \<open>world\<close> is the file system (an association list from
  normal absolute paths to nodes, in directory order), the clock in microseconds, the access
  rights, the open sockets and the child processes with the signals sent to them.  An \<open>env\<close>
  holds what the scripts do not decide: the environment variables, the working directory, the
  functions of libraries that are not modelled (SHA-256, the TOML reader), and what the other
  processes do.  They act whenever a script blocks (\<open>elapse\<close>): \<open>others\<close> may then give the
  file system any contents, the clock only goes forward.

  The operations are the calls of \<open>os\<close>, \<open>shutil\<close>, \<open>glob\<close>, \<open>time\<close>, \<open>subprocess\<close> and
  \<open>socket\<close> the scripts make, each with its ways to raise.  A path is resolved by \<open>abspath\<close>
  and a symbolic link is followed in its last component; links inside a path, the special
  characters of a \<open>glob\<close> in a directory name, and the times of directories are not modelled.
\<close>

section \<open>The file store\<close>

datatype node =
    File bytes nat      \<comment> \<open>contents, mtime in microseconds\<close>
  | Dir nat
  | SockFile nat
  | Symlink pystr

type_synonym fs = "(pystr \<times> node) list"

fun fs_put :: "pystr \<Rightarrow> 'n \<Rightarrow> (pystr \<times> 'n) list \<Rightarrow> (pystr \<times> 'n) list" where
  "fs_put p n [] = [(p, n)]"
| "fs_put p n ((q, m) # r) = (if q = p then (p, n) # r else (q, m) # fs_put p n r)"

definition fs_del :: "pystr \<Rightarrow> (pystr \<times> 'n) list \<Rightarrow> (pystr \<times> 'n) list" where
  "fs_del p f = filter (\<lambda>(q, _). q \<noteq> p) f"

lemma map_of_fs_put: "map_of (fs_put p n f) = (map_of f)(p \<mapsto> n)"
  by (induction f) auto

lemma map_of_fs_del: "map_of (fs_del p f) = (map_of f)(p := None)"
  by (induction f) (auto simp: fs_del_def)

lemma keys_fs_put: "fst ` set (fs_put p n f) = insert p (fst ` set f)"
  by (induction p n f rule: fs_put.induct) auto

lemma distinct_fs_put: "distinct (map fst f) \<Longrightarrow> distinct (map fst (fs_put p n f))"
proof (induction f)
  case (Cons a f)
  then show ?case using keys_fs_put [of p n f] by (cases a) auto
qed simp

lemma distinct_fs_del: "distinct (map fst f) \<Longrightarrow> distinct (map fst (fs_del p f))"
  by (simp add: fs_del_def distinct_map_filter)

section \<open>The world and its environment\<close>

datatype access = Rd | Wr | Rm
datatype signal = SIGTERM | SIGKILL

text \<open>A child process, with the calls of \<open>terminate()\<close> and \<open>kill()\<close> made on it.  \<open>Popen\<close> sends the signal unless it
  finds that the child has exited already; which of the two happens is not recorded.\<close>

record proc =
  p_cwd :: pystr
  p_signals :: "signal list"

record world =
  fs :: fs
  denied :: "access \<Rightarrow> pystr \<Rightarrow> bool"
  clock :: nat
  socks :: "sock list"
  procs :: "proc list"

datatype run_result =
    Code int            \<comment> \<open>the exit status\<close>
  | Expired             \<comment> \<open>still running after the timeout\<close>
  | NoExec              \<comment> \<open>could not be started\<close>
  | BadOutput           \<comment> \<open>its output is not UTF-8 (\<open>text=True\<close>)\<close>

record env =
  NB :: pystr
  cwd :: pystr
  environ :: "pystr \<Rightarrow> pystr option"
  has_tomllib :: bool
  sha256 :: "bytes \<Rightarrow> pystr"                        \<comment> \<open>\<open>hexdigest\<close>\<close>
  toml_loads :: "pystr \<Rightarrow> exn + pyval"
  float_of :: "pystr \<Rightarrow> pyval"                      \<comment> \<open>the double nearest to a literal\<close>
  too_deep :: "pystr \<Rightarrow> bool"                        \<comment> \<open>\<open>json.load\<close> runs into the recursion limit on this text\<close>
  py_repr :: "pyval \<Rightarrow> pystr"
  utc_text :: "nat \<Rightarrow> pystr"                        \<comment> \<open>\<open>time.strftime(..., time.gmtime())\<close>\<close>
  tmp_name :: "world \<Rightarrow> pystr option"               \<comment> \<open>a fresh name for \<open>mkdtemp\<close>\<close>
  others :: "world \<Rightarrow> fs"
  oversleep :: "world \<Rightarrow> nat"
  spawns :: "world \<Rightarrow> bool"                         \<comment> \<open>\<open>Popen([BIN])\<close> starts\<close>
  dial :: "world \<Rightarrow> pystr \<Rightarrow> nat \<times> sock option"      \<comment> \<open>\<open>connect\<close>: the time it takes, the socket\<close>
  run_bin :: "world \<Rightarrow> pystr \<Rightarrow> nat \<times> fs \<times> run_result" \<comment> \<open>\<open>subprocess.run([BIN], cwd=...)\<close>\<close>

type_synonym 'a sys = "(world, 'a) io"

definition BIN :: "env \<Rightarrow> pystr" where
  "BIN E = NB E @ lit ''/zig-out/bin/nether''"

abbreviation seconds :: "nat \<Rightarrow> nat" where
  "seconds n \<equiv> n * 1000000"

definition elapse :: "env \<Rightarrow> nat \<Rightarrow> world \<Rightarrow> world" where
  "elapse E d w = (let w' = w\<lparr>clock := clock w + d\<rparr> in w'\<lparr>fs := others E w'\<rparr>)"

definition time_time :: "nat sys" where
  "time_time = get clock"

definition sleep :: "env \<Rightarrow> nat \<Rightarrow> unit sys" where
  "sleep E d = modify (\<lambda>w. elapse E (d + oversleep E w) w)"

section \<open>Files\<close>

definition node_at :: "fs \<Rightarrow> pystr \<Rightarrow> node option" where
  "node_at f p = (if p = lit ''/'' then Some (Dir 0) else map_of f p)"

text \<open>Following the links of a last component; 40 links are \<open>ELOOP\<close>.\<close>

fun resolve :: "nat \<Rightarrow> fs \<Rightarrow> pystr \<Rightarrow> pystr option" where
  "resolve 0 f p = None"
| "resolve (Suc n) f p =
     (case node_at f p of Some (Symlink t) \<Rightarrow> resolve n f (abspath (dirname p) t) | _ \<Rightarrow> Some p)"

definition full :: "env \<Rightarrow> pystr \<Rightarrow> pystr" where
  "full E p = abspath (cwd E) p"

definition stat :: "env \<Rightarrow> pystr \<Rightarrow> world \<Rightarrow> node option" where
  "stat E p w = (case resolve 41 (fs w) (full E p) of None \<Rightarrow> None | Some q \<Rightarrow> node_at (fs w) q)"

definition path_exists :: "env \<Rightarrow> pystr \<Rightarrow> bool sys" where
  "path_exists E p = get (\<lambda>w. stat E p w \<noteq> None)"

definition is_dir :: "env \<Rightarrow> pystr \<Rightarrow> world \<Rightarrow> bool" where
  "is_dir E p w \<longleftrightarrow> (case stat E p w of Some (Dir _) \<Rightarrow> True | _ \<Rightarrow> False)"

definition contents :: "env \<Rightarrow> pystr \<Rightarrow> world \<Rightarrow> bytes option" where
  "contents E p w =
     (case resolve 41 (fs w) (full E p) of
        None \<Rightarrow> None
      | Some q \<Rightarrow> (case node_at (fs w) q of Some (File b t) \<Rightarrow> if denied w Rd q then None else Some b | _ \<Rightarrow> None))"

text \<open>\<open>open(p, "rb").read()\<close>\<close>

definition read_file :: "env \<Rightarrow> pystr \<Rightarrow> bytes sys" where
  "read_file E p = bind (get (contents E p)) (\<lambda>c. case c of None \<Rightarrow> raise OSError | Some b \<Rightarrow> ret b)"

definition node_mtime :: "node \<Rightarrow> nat" where
  "node_mtime n = (case n of File b t \<Rightarrow> t | Dir t \<Rightarrow> t | SockFile t \<Rightarrow> t | Symlink _ \<Rightarrow> 0)"

definition getmtime :: "env \<Rightarrow> pystr \<Rightarrow> nat sys" where
  "getmtime E p = bind (get (stat E p)) (\<lambda>n. case n of None \<Rightarrow> raise OSError | Some n \<Rightarrow> ret (node_mtime n))"

definition node_size :: "node \<Rightarrow> nat" where
  "node_size n = (case n of File b t \<Rightarrow> length b | _ \<Rightarrow> 0)"

definition getsize :: "env \<Rightarrow> pystr \<Rightarrow> nat sys" where
  "getsize E p = bind (get (stat E p)) (\<lambda>n. case n of None \<Rightarrow> raise OSError | Some n \<Rightarrow> ret (node_size n))"

definition parent_ok :: "fs \<Rightarrow> pystr \<Rightarrow> bool" where
  "parent_ok f p \<longleftrightarrow> (case node_at f (dirname p) of Some (Dir _) \<Rightarrow> True | _ \<Rightarrow> False)"

text \<open>\<open>open(p, "wb").write(b)\<close>: creates or truncates the file the path leads to.\<close>

definition writable :: "pystr \<Rightarrow> world \<Rightarrow> bool" where
  "writable q w \<longleftrightarrow> \<not> denied w Wr q \<and>
     (case node_at (fs w) q of None \<Rightarrow> parent_ok (fs w) q | Some (File b t) \<Rightarrow> True | _ \<Rightarrow> False)"

definition write_file :: "env \<Rightarrow> pystr \<Rightarrow> bytes \<Rightarrow> unit sys" where
  "write_file E p b w =
     (case resolve 41 (fs w) (full E p) of
        None \<Rightarrow> Some (Inl OSError, w)
      | Some q \<Rightarrow>
          if writable q w then Some (Inr (), w\<lparr>fs := fs_put q (File b (clock w)) (fs w)\<rparr>)
          else Some (Inl OSError, w))"

text \<open>\<open>open(p, "w").write(s)\<close>: the file is truncated before the text is encoded.\<close>

definition write_text :: "env \<Rightarrow> pystr \<Rightarrow> pystr \<Rightarrow> unit sys" where
  "write_text E p s =
     (case encode s of
        Inr b \<Rightarrow> write_file E p b
      | Inl e \<Rightarrow> seq (write_file E p []) (raise e))"

text \<open>\<open>os.remove\<close> does not follow links.\<close>

definition os_remove :: "env \<Rightarrow> pystr \<Rightarrow> unit sys" where
  "os_remove E p w =
     (let q = full E p in
      case node_at (fs w) q of
        None \<Rightarrow> Some (Inl OSError, w)
      | Some (Dir _) \<Rightarrow> Some (Inl OSError, w)
      | Some _ \<Rightarrow> if denied w Rm q then Some (Inl OSError, w) else Some (Inr (), w\<lparr>fs := fs_del q (fs w)\<rparr>))"

text \<open>\<open>q\<close> is \<open>p\<close> or lies below it.\<close>

definition under :: "pystr \<Rightarrow> pystr \<Rightarrow> bool" where
  "under p q \<longleftrightarrow> q = p \<or> prefix (join p []) q"

text \<open>\<open>os.rename\<close> and \<open>os.replace\<close>, on the paths as they are.\<close>

definition rename_tree :: "pystr \<Rightarrow> pystr \<Rightarrow> fs \<Rightarrow> fs" where
  "rename_tree p q f =
     map (\<lambda>(k, n). if under p k then (q @ drop (length p) k, n) else (k, n)) (fs_del q f)"

definition os_rename :: "env \<Rightarrow> pystr \<Rightarrow> pystr \<Rightarrow> unit sys" where
  "os_rename E a b w =
     (let p = full E a; q = full E b; bad = Some (Inl OSError, w) in
      if p = q then (if node_at (fs w) p = None then bad else Some (Inr (), w))
      else if denied w Rm p \<or> denied w Wr q \<or> \<not> parent_ok (fs w) q \<or> under p q \<or> under q p then bad
      else
        case (node_at (fs w) p, node_at (fs w) q) of
          (None, _) \<Rightarrow> bad
        | (Some (Dir _), Some (Dir _)) \<Rightarrow>
            if list_ex (\<lambda>(k, _). under q k \<and> k \<noteq> q) (fs w) then bad
            else Some (Inr (), w\<lparr>fs := rename_tree p q (fs w)\<rparr>)
        | (Some (Dir _), Some _) \<Rightarrow> bad
        | (Some _, Some (Dir _)) \<Rightarrow> bad
        | _ \<Rightarrow> Some (Inr (), w\<lparr>fs := rename_tree p q (fs w)\<rparr>))"

text \<open>\<open>shutil.move(a, b)\<close>: into \<open>b\<close> when it is a directory; \<open>shutil.Error\<close> is an \<open>OSError\<close>.\<close>

definition shutil_move :: "env \<Rightarrow> pystr \<Rightarrow> pystr \<Rightarrow> unit sys" where
  "shutil_move E a b =
     bind (get (is_dir E b)) (\<lambda>d.
     if \<not> d then os_rename E a b
     else
       let c = join b (basename a) in
       bind (path_exists E c) (\<lambda>x.
       if x then raise OSError else os_rename E a c))"

section \<open>Directories\<close>

text \<open>The directory and the missing ones above it, outermost first.\<close>

function ancestors :: "pystr \<Rightarrow> pystr list" where
  "ancestors p = (if length (dirname p) < length p then ancestors (dirname p) @ [p] else [p])"
  by pat_completeness auto
termination
  by (relation "measure length") auto

declare ancestors.simps [simp del]

definition mkdir :: "pystr \<Rightarrow> world \<Rightarrow> (exn + unit) \<times> world" where
  "mkdir q w =
     (if node_at (fs w) q \<noteq> None \<or> \<not> parent_ok (fs w) q \<or> denied w Wr q then (Inl OSError, w)
      else (Inr (), w\<lparr>fs := fs_put q (Dir (clock w)) (fs w)\<rparr>))"

text \<open>\<open>os.makedirs(p, exist_ok)\<close>\<close>

definition makedirs :: "env \<Rightarrow> pystr \<Rightarrow> bool \<Rightarrow> unit sys" where
  "makedirs E p exist_ok =
     seq (for_each (butlast (ancestors (full E p))) (\<lambda>q.
            bind (get (\<lambda>w. node_at (fs w) q \<noteq> None)) (\<lambda>x.
            when_io (\<not> x) (\<lambda>w. Some (mkdir q w)))))
       (\<lambda>w. if exist_ok \<and> is_dir E p w then Some (Inr (), w) else Some (mkdir (full E p) w))"

text \<open>\<open>shutil.rmtree(p, ignore_errors=True)\<close>: what cannot be removed stays, with the directories
  above it; a path that is no directory is left alone, and so is the empty path.\<close>

definition rmtree :: "env \<Rightarrow> pystr \<Rightarrow> unit sys" where
  "rmtree E p = modify (\<lambda>w.
     let q = full E p in
     if p = [] then w
     else case node_at (fs w) q of
       Some (Dir _) \<Rightarrow>
         w\<lparr>fs := filter (\<lambda>(k, _). \<not> under q k \<or> list_ex (\<lambda>(j, _). under k j \<and> denied w Rm j) (fs w)) (fs w)\<rparr>
     | _ \<Rightarrow> w)"

definition symlink :: "env \<Rightarrow> pystr \<Rightarrow> pystr \<Rightarrow> unit sys" where
  "symlink E target p w =
     (let q = full E p in
      if target = [] \<or> node_at (fs w) q \<noteq> None \<or> \<not> parent_ok (fs w) q \<or> denied w Wr q
      then Some (Inl OSError, w)
      else Some (Inr (), w\<lparr>fs := fs_put q (Symlink target) (fs w)\<rparr>))"

text \<open>\<open>glob.glob(os.path.join(d, "*.snap"))\<close>, in directory order.\<close>

definition snaps_in :: "pystr \<Rightarrow> fs \<Rightarrow> pystr list" where
  "snaps_in D f =
     map (basename \<circ> fst) (filter (\<lambda>(k, _). k = join D (basename k) \<and> is_snap_name (basename k)) f)"

definition glob_snaps :: "env \<Rightarrow> pystr \<Rightarrow> pystr list sys" where
  "glob_snaps E d = get (\<lambda>w. map (join d) (snaps_in (full E d) (fs w)))"

definition mkdtemp :: "env \<Rightarrow> pystr sys" where
  "mkdtemp E w =
     (case tmp_name E w of
        None \<Rightarrow> Some (Inl OSError, w)
      | Some p \<Rightarrow> Some (Inr p, w\<lparr>fs := fs_put p (Dir (clock w)) (fs w)\<rparr>))"

section \<open>Processes and sockets\<close>

definition popen :: "env \<Rightarrow> pystr \<Rightarrow> nat sys" where
  "popen E d w =
     (if spawns E w then Some (Inr (length (procs w)), w\<lparr>procs := procs w @ [\<lparr>p_cwd = d, p_signals = []\<rparr>]\<rparr>)
      else Some (Inl OSError, w))"

definition send_signal :: "nat \<Rightarrow> signal \<Rightarrow> unit sys" where
  "send_signal i g = modify (\<lambda>w.
     if i < length (procs w)
     then w\<lparr>procs := (procs w)[i := (procs w ! i)\<lparr>p_signals := p_signals (procs w ! i) @ [g]\<rparr>]\<rparr> else w)"

definition run_nether :: "env \<Rightarrow> pystr \<Rightarrow> int sys" where
  "run_nether E d w =
     (let (dt, f, r) = run_bin E w d; w' = w\<lparr>clock := clock w + dt, fs := f\<rparr>
      in case r of
           Code c \<Rightarrow> Some (Inr c, w')
         | Expired \<Rightarrow> Some (Inl TimeoutExpired, w')
         | NoExec \<Rightarrow> Some (Inl OSError, w')
         | BadOutput \<Rightarrow> Some (Inl ValueError, w'))"

text \<open>\<open>socket(); settimeout(to); connect(path)\<close>\<close>

definition connect :: "env \<Rightarrow> pystr \<Rightarrow> nat \<Rightarrow> nat sys" where
  "connect E p to w =
     (let (dt, r) = dial E w p; w' = elapse E dt w
      in case r of
           None \<Rightarrow> Some (Inl OSError, w')
         | Some s \<Rightarrow> Some (Inr (length (socks w')), w'\<lparr>socks := socks w' @ [s\<lparr>tmo := to, sent := [], shut := False, dripped := 0\<rparr>]\<rparr>))"

text \<open>A statement on the socket \<open>i\<close>; the script blocks as long as it takes.\<close>

definition on_sock :: "env \<Rightarrow> nat \<Rightarrow> (sock, 'a) io \<Rightarrow> 'a sys" where
  "on_sock E i m w =
     (if \<not> i < length (socks w) then Some (Inl IndexError, w)
      else case m ((socks w ! i)\<lparr>now := clock w\<rparr>) of
        None \<Rightarrow> None
      | Some (r, s) \<Rightarrow> Some (r, elapse E (now s - clock w) (w\<lparr>socks := (socks w)[i := s]\<rparr>)))"

section \<open>Running the queries\<close>

text \<open>The calls that only look leave the world as it is.\<close>

lemma bind_lift: "bind (lift r) f = (case r of Inl e \<Rightarrow> raise e | Inr a \<Rightarrow> f a)"
  by (rule ext) (auto simp: bind_def lift_def raise_def split: sum.splits)

lemma bind_get: "bind (get f) g w = g (f w) w"
  by (simp add: bind_def get_def)

lemma bind_path_exists: "bind (path_exists E p) f w = f (stat E p w \<noteq> None) w"
  by (simp add: path_exists_def bind_get)

lemma bind_getsize:
  "bind (getsize E p) f w = (case stat E p w of None \<Rightarrow> Some (Inl OSError, w) | Some n \<Rightarrow> f (node_size n) w)"
  by (auto simp: getsize_def bind_def get_def raise_def ret_def split: option.splits)

lemma bind_getmtime:
  "bind (getmtime E p) f w = (case stat E p w of None \<Rightarrow> Some (Inl OSError, w) | Some n \<Rightarrow> f (node_mtime n) w)"
  by (auto simp: getmtime_def bind_def get_def raise_def ret_def split: option.splits)

lemma bind_read_file:
  "bind (read_file E p) f w = (case contents E p w of None \<Rightarrow> Some (Inl OSError, w) | Some b \<Rightarrow> f b w)"
  by (auto simp: read_file_def bind_def get_def raise_def ret_def split: option.splits)

section \<open>Calls that start and stop no process\<close>

text \<open>The child processes are untouched and the clock does not go back.\<close>

definition quiet :: "world \<Rightarrow> world \<Rightarrow> bool" where
  "quiet w w' \<longleftrightarrow> procs w' = procs w \<and> clock w \<le> clock w'"

text \<open>Every peer, of the sockets open and of those to come, at some point stops talking.\<close>

definition all_terse :: "env \<Rightarrow> bool" where
  "all_terse E \<longleftrightarrow> (\<forall>w p s. snd (dial E w p) = Some s \<longrightarrow> terse s)"

definition patient :: "env \<Rightarrow> world \<Rightarrow> bool" where
  "patient E w \<longleftrightarrow> all_terse E \<and> list_all terse (socks w)"

lemma patient_same [simp]:
  "patient E (w\<lparr>fs := f\<rparr>) = patient E w" "patient E (w\<lparr>clock := t\<rparr>) = patient E w" "patient E (w\<lparr>procs := ps\<rparr>) = patient E w"
  "patient E (elapse E' d w) = patient E w"
  by (simp_all add: patient_def elapse_def Let_def)

interpretation quiet: steady I quiet for I
  by unfold_locales (auto simp: quiet_def)

lemma quiet_elapse: "quiet w (elapse E d w)"
  by (simp add: quiet_def elapse_def Let_def)

lemma quiet_time_time: "settles (patient E) quiet time_time"
  by (simp add: time_time_def quiet.s_get)

lemma quiet_sleep: "settles (patient E) quiet (sleep E d)"
  by (simp add: settles_def sleep_def modify_def quiet_elapse)

lemma quiet_path_exists: "settles (patient E) quiet (path_exists E p)"
  by (simp add: path_exists_def quiet.s_get)

lemma quiet_read_file: "settles (patient E) quiet (read_file E p)"
  unfolding read_file_def by (intro quiet.forms)

lemma quiet_getmtime: "settles (patient E) quiet (getmtime E p)"
  unfolding getmtime_def by (intro quiet.forms)

lemma quiet_getsize: "settles (patient E) quiet (getsize E p)"
  unfolding getsize_def by (intro quiet.forms)

lemma quiet_write_file: "settles (patient E) quiet (write_file E p b)"
  by (auto simp: settles_def write_file_def quiet_def split: option.splits)

lemma quiet_write_text: "settles (patient E) quiet (write_text E p s)"
  by (auto simp: write_text_def quiet_write_file quiet.forms split: sum.splits)

lemma quiet_os_remove: "settles (patient E) quiet (os_remove E p)"
  by (auto simp: settles_def os_remove_def quiet_def Let_def split: option.splits node.splits)

lemma quiet_os_rename: "settles (patient E) quiet (os_rename E a b)"
  by (auto simp: settles_def os_rename_def quiet_def Let_def split: option.splits node.splits)

lemma quiet_shutil_move: "settles (patient E) quiet (shutil_move E a b)"
  unfolding shutil_move_def Let_def by (intro quiet.forms quiet_os_rename quiet_path_exists)

lemma quiet_mkdir: "quiet w (snd (mkdir q w))"
  by (simp add: mkdir_def quiet_def)

lemma quiet_makedirs: "settles (patient E) quiet (makedirs E p x)"
proof -
  have "settles (patient E) quiet (\<lambda>w. Some (mkdir q w))" for q
    by (auto simp: settles_def quiet_def mkdir_def)
  moreover have "settles (patient E) quiet (\<lambda>w. if x \<and> is_dir E p w then Some (Inr (), w) else Some (mkdir (full E p) w))"
    by (auto simp: settles_def quiet_def mkdir_def)
  ultimately show ?thesis unfolding makedirs_def by (intro quiet.forms)
qed

lemma quiet_rmtree: "settles (patient E) quiet (rmtree E p)"
  by (auto simp: settles_def rmtree_def modify_def quiet_def Let_def split: option.splits node.splits)

lemma quiet_symlink: "settles (patient E) quiet (symlink E t p)"
  by (auto simp: settles_def symlink_def quiet_def Let_def)

lemma quiet_glob_snaps: "settles (patient E) quiet (glob_snaps E d)"
  by (simp add: glob_snaps_def quiet.s_get)

lemma quiet_mkdtemp: "settles (patient E) quiet (mkdtemp E)"
  by (auto simp: settles_def mkdtemp_def quiet_def split: option.splits)

lemma quiet_run_nether: "settles (patient E) quiet (run_nether E d)"
  by (auto simp: settles_def run_nether_def quiet_def Let_def split: prod.splits run_result.splits)

lemma quiet_connect: "settles (patient E) quiet (connect E p to)"
proof (rule settlesI)
  fix w r w' assume "connect E p to w = Some (r, w')"
  then show "quiet w w'" by (auto simp: connect_def quiet_def elapse_def Let_def split: prod.splits option.splits)
next
  fix w assume "patient E w"
  moreover from this have "terse s" if "dial E w p = (dt, Some s)" for dt s using that by (metis all_terse_def patient_def snd_conv)
  moreover have "terse (s\<lparr>tmo := to, sent := [], shut := False, dripped := 0\<rparr>) = terse s" for s by (simp add: terse_def)
  ultimately show "\<exists>r w'. connect E p to w = Some (r, w') \<and> patient E w'"
    by (cases "dial E w p" rule: prod.exhaust) (auto simp: connect_def patient_def elapse_def Let_def split: option.splits)
qed

lemma terse_now [simp]: "terse (s\<lparr>now := t\<rparr>) = terse s"
  by (simp add: terse_def)

lemma quiet_on_sock:
  assumes "settles terse (\<lambda>_ _. True) m"
  shows "settles (patient E) quiet (on_sock E i m)"
proof (rule settlesI)
  fix w r w' assume "on_sock E i m w = Some (r, w')"
  then show "quiet w w'" by (auto simp: on_sock_def quiet_def elapse_def Let_def split: if_splits option.splits)
next
  fix w assume P: "patient E w"
  show "\<exists>r w'. on_sock E i m w = Some (r, w') \<and> patient E w'"
  proof (cases "i < length (socks w)")
    case True
    with P have "terse ((socks w ! i)\<lparr>now := clock w\<rparr>)" by (simp add: patient_def list_all_length)
    then obtain r s where "m ((socks w ! i)\<lparr>now := clock w\<rparr>) = Some (r, s)" "terse s" using settlesD [OF assms] by blast
    moreover from this P have "patient E (w\<lparr>socks := (socks w)[i := s]\<rparr>)"
      using set_update_subset_insert [of "socks w" i s] by (auto simp: patient_def list_all_iff)
    ultimately show ?thesis using True by (auto simp: on_sock_def)
  qed (use P in \<open>simp add: on_sock_def\<close>)
qed

lemmas quiet_calls = quiet_time_time quiet_sleep quiet_path_exists quiet_read_file quiet_getmtime quiet_getsize
  quiet_write_file quiet_write_text quiet_os_remove quiet_os_rename quiet_shutil_move quiet_makedirs quiet_rmtree
  quiet_symlink quiet_glob_snaps quiet_mkdtemp quiet_run_nether quiet_connect

text \<open>The two calls of the control protocol return when the peer is terse.\<close>

lemma returning_reads:
  "settles terse (\<lambda>_ _. True) (iterate (read_body (recv n) stop (\<lambda>b. ret (Inr b)) id) b)"
  by (rule returning_read_loop) (simp add: ret_def)

lemma returning_settimeout: "settles terse (\<lambda>_ _. True) (settimeout n)"
  by (auto simp: settles_def settimeout_run terse_def)

lemma returning_sendall: "settles terse (\<lambda>_ _. True) (sendall b)"
  by (auto simp: settles_def sendall_def terse_def Let_def split: option.splits if_splits)

lemma returning_sock_close: "settles terse (\<lambda>_ _. True) sock_close"
  by (auto simp: settles_def sock_close_def modify_def terse_def)

lemma returning_send_line: "settles terse (\<lambda>_ _. True) (send_line l)"
  unfolding send_line_def by (intro returning.forms returning_sendall)

lemma returning_cmd: "settles terse (\<lambda>_ _. True) (cmd l to)"
  unfolding cmd_def frame_def by (intro returning.forms returning_reads returning_settimeout returning_send_line)

lemma returning_meta: "settles terse (\<lambda>_ _. True) (meta l to)"
  unfolding meta_def by (intro returning.forms returning_reads returning_settimeout returning_send_line)

end
