(* ===== verification/Snapshot.thy ===== *)
theory Snapshot
  imports Host
begin

text \<open>
  Snapshot files.  The 128-byte little-endian header of format v5 as \<open>scripts/bake.py\<close> reads it
  (\<open>read_snap_kind\<close>, \<open>read_snap_encoding\<close>), and the content-diff of
  \<open>scripts/materialize_dedup_proof.py\<close>: the files the script builds (\<open>hdr\<close>, the base, the diff),
  the fold of a diff into its base (\<open>materializeDiff\<close> and \<open>spliceAndOverlay\<close> of
  \<open>src/agent/snapshot.zig\<close>, on file contents) and the script's check of the result.  The lemmas are
  the round trip of \<open>struct.pack_into\<close> and \<open>struct.unpack_from\<close>, that distinct fields do not
  disturb each other, and that the fold gives what the check wants for every base and every diff.
\<close>

definition SNAP_MAGIC :: nat where "SNAP_MAGIC = 0x4e534e50"
definition SNAP_VERSION :: nat where "SNAP_VERSION = 5"
definition SNAP_HDR_SIZE :: nat where "SNAP_HDR_SIZE = 128"
definition SNAP_KIND_BASE :: nat where "SNAP_KIND_BASE = 0"
definition SNAP_KIND_PARK :: nat where "SNAP_KIND_PARK = 1"
definition RAM_FULL :: nat where "RAM_FULL = 0"
definition RAM_DIFF :: nat where "RAM_DIFF = 1"
definition RAM_COMPRESSED :: nat where "RAM_COMPRESSED = 2"

section \<open>Little-endian integers\<close>

fun le_bytes :: "nat \<Rightarrow> nat \<Rightarrow> bytes" where
  "le_bytes 0 v = []"
| "le_bytes (Suc w) v = word_of_nat (v mod 256) # le_bytes w (v div 256)"

fun le_val :: "bytes \<Rightarrow> nat" where
  "le_val [] = 0"
| "le_val (b # bs) = unat b + 256 * le_val bs"

lemma length_le_bytes [simp]: "length (le_bytes w v) = w"
  by (induction w arbitrary: v) auto

lemma le_val_le_bytes: "v < 256 ^ w \<Longrightarrow> le_val (le_bytes w v) = v"
proof (induction w arbitrary: v)
  case (Suc w)
  then have "v div 256 < 256 ^ w" by (simp add: div_less_iff_less_mult mult.commute)
  then show ?case using Suc.IH unat_byte [of "v mod 256"] by simp
qed simp

lemma le_val_less: "le_val bs < 256 ^ length bs"
proof (induction bs)
  case (Cons b bs)
  have "unat b < 256" using unsigned_less [of b] by simp
  moreover have "256 * le_val bs \<le> 256 * (256 ^ length bs - 1)" using Cons by simp
  ultimately show ?case using Cons by simp
qed simp

text \<open>Overwriting \<open>len(x)\<close> bytes at an offset; reading \<open>w\<close> bytes there.\<close>

definition poke :: "nat \<Rightarrow> bytes \<Rightarrow> bytes \<Rightarrow> bytes" where
  "poke i x h = take i h @ x @ drop (i + length x) h"

definition peek :: "nat \<Rightarrow> nat \<Rightarrow> bytes \<Rightarrow> bytes" where
  "peek i w h = take w (drop i h)"

lemma length_poke [simp]: "i + length x \<le> length h \<Longrightarrow> length (poke i x h) = length h"
  by (simp add: poke_def)

lemma nth_poke:
  assumes "i + length x \<le> length h" and "j < length h"
  shows "poke i x h ! j = (if i \<le> j \<and> j < i + length x then x ! (j - i) else h ! j)"
  using assms by (auto simp: poke_def nth_append)

lemma peek_poke_same [simp]: "i + length x \<le> length h \<Longrightarrow> w = length x \<Longrightarrow> peek i w (poke i x h) = x"
  by (simp add: peek_def poke_def)

lemma peek_poke_other [simp]:
  assumes "i + length x \<le> length h" and "j + w \<le> i \<or> i + length x \<le> j" and "j + w \<le> length h"
  shows "peek j w (poke i x h) = peek j w h"
  using assms by (intro nth_equalityI) (auto simp: peek_def nth_poke)

lemma length_peek [simp]: "i + w \<le> length h \<Longrightarrow> length (peek i w h) = w"
  by (simp add: peek_def)

text \<open>\<open>struct.pack_into\<close> and \<open>struct.unpack_from\<close> of one unsigned field of \<open>w\<close> bytes.\<close>

definition pack_into :: "nat \<Rightarrow> nat \<Rightarrow> nat \<Rightarrow> bytes \<Rightarrow> exn + bytes" where
  "pack_into w off v h =
     (if v < 256 ^ w \<and> off + w \<le> length h then Inr (poke off (le_bytes w v) h) else Inl StructError)"

definition unpack_from :: "nat \<Rightarrow> bytes \<Rightarrow> nat \<Rightarrow> exn + nat" where
  "unpack_from w h off = (if off + w \<le> length h then Inr (le_val (peek off w h)) else Inl StructError)"

lemma unpack_pack_same:
  "pack_into w off v h = Inr h' \<Longrightarrow> unpack_from w h' off = Inr v \<and> length h' = length h"
  by (auto simp: pack_into_def unpack_from_def le_val_le_bytes split: if_splits)

lemma unpack_pack_other:
  "pack_into w off v h = Inr h' \<Longrightarrow> off' + w' \<le> off \<or> off + w \<le> off' \<Longrightarrow>
     unpack_from w' h' off' = unpack_from w' h off'"
  by (auto simp: pack_into_def unpack_from_def split: if_splits)

section \<open>What \<open>bake.py\<close> reads of a header\<close>

text \<open>\<open>with open(path, "rb") as f: h = f.read(SNAP_HDR_SIZE)\<close>, an \<open>OSError\<close> giving \<open>None\<close>.\<close>

definition read_header :: "env \<Rightarrow> pystr \<Rightarrow> bytes option sys" where
  "read_header E path =
     try_except (bind (read_file E path) (\<lambda>b. ret (Some (take SNAP_HDR_SIZE b)))) is_OSError (\<lambda>_. ret None)"

definition read_snap_kind :: "env \<Rightarrow> pystr \<Rightarrow> nat option sys" where
  "read_snap_kind E path =
     bind (read_header E path) (\<lambda>r.
     case r of
       None \<Rightarrow> ret None
     | Some h \<Rightarrow>
         if length h < SNAP_HDR_SIZE then ret None
         else
           bind (lift (unpack_from 4 h 0)) (\<lambda>magic.
           bind (lift (unpack_from 4 h 4)) (\<lambda>ver.
           if magic \<noteq> SNAP_MAGIC \<or> ver \<noteq> SNAP_VERSION then ret None
           else bind (lift (unpack_from 4 h 80)) (\<lambda>k. ret (Some k)))))"

definition read_snap_encoding :: "env \<Rightarrow> pystr \<Rightarrow> nat option sys" where
  "read_snap_encoding E path =
     bind (read_header E path) (\<lambda>r.
     case r of
       None \<Rightarrow> ret None
     | Some h \<Rightarrow>
         if length h < SNAP_HDR_SIZE then ret None
         else
           bind (lift (unpack_from 4 h 0)) (\<lambda>magic.
           bind (lift (unpack_from 4 h 4)) (\<lambda>ver.
           if magic \<noteq> SNAP_MAGIC \<or> ver \<noteq> SNAP_VERSION then ret None
           else bind (lift (unpack_from 4 h 84)) (\<lambda>k. ret (Some k)))))"

text \<open>What the two compute, on the contents of the file.\<close>

definition header_field :: "nat \<Rightarrow> bytes \<Rightarrow> nat option" where
  "header_field off b =
     (if length b < 128 \<or> le_val (peek 0 4 b) \<noteq> SNAP_MAGIC \<or> le_val (peek 4 4 b) \<noteq> SNAP_VERSION then None
      else Some (le_val (peek off 4 b)))"

lemma read_header_run:
  "read_header E p w = Some (Inr (map_option (take 128) (contents E p w)), w)"
  by (cases "contents E p w")
     (simp_all add: read_header_def read_file_def try_except_def bind_def get_def ret_def raise_def SNAP_HDR_SIZE_def)

lemma peek_take: "i + w \<le> n \<Longrightarrow> peek i w (take n b) = peek i w b"
  by (simp add: peek_def drop_take min_def)

lemma read_snap_kind_run:
  "read_snap_kind E p w = Some (Inr (Option.bind (contents E p w) (header_field 80)), w)"
  by (cases "contents E p w")
     (auto simp: read_snap_kind_def read_header_run bind_def lift_def ret_def unpack_from_def
        header_field_def SNAP_HDR_SIZE_def peek_take min_def)

lemma read_snap_encoding_run:
  "read_snap_encoding E p w = Some (Inr (Option.bind (contents E p w) (header_field 84)), w)"
  by (cases "contents E p w")
     (auto simp: read_snap_encoding_def read_header_run bind_def lift_def ret_def unpack_from_def
        header_field_def SNAP_HDR_SIZE_def peek_take min_def)

section \<open>Folding a content-diff into its base\<close>

definition HDR :: nat where "HDR = 128"
definition PAGE :: nat where "PAGE = 16384"
definition MOFF :: nat where "MOFF = 4096"
definition RAM_OFF :: nat where "RAM_OFF = HDR + MOFF"
definition NPAGES :: nat where "NPAGES = 4096"
definition RAM :: nat where "RAM = NPAGES * PAGE"

lemmas geometry = HDR_def PAGE_def MOFF_def RAM_OFF_def NPAGES_def RAM_def

definition hdr :: "nat \<Rightarrow> nat \<Rightarrow> nat \<Rightarrow> exn + bytes" where
  "hdr encoding diff_pages base_ram =
     ebind (pack_into 4 0 SNAP_MAGIC (replicate HDR 0)) (\<lambda>h.
     ebind (pack_into 4 4 SNAP_VERSION h) (\<lambda>h.
     ebind (pack_into 8 24 RAM h) (\<lambda>h.
     ebind (pack_into 8 48 RAM_OFF h) (\<lambda>h.
     ebind (pack_into 4 84 encoding h) (\<lambda>h.
     ebind (pack_into 4 96 diff_pages h) (\<lambda>h.
     pack_into 8 100 base_ram h))))))"

text \<open>The RAM image of the script: page \<open>k\<close> is filled with \<open>k & 0xff\<close>.\<close>

definition script_ram :: bytes where
  "script_ram = concat (map (\<lambda>k. replicate PAGE (word_of_nat (k mod 256))) [0..<NPAGES])"

definition script_changed :: "(nat \<times> byte) list" where
  "script_changed = [(0, 0xA1), (100, 0xA2), (NPAGES - 1, 0xA3)]"

definition base_file :: "bytes \<Rightarrow> exn + bytes" where
  "base_file ram = ebind (hdr RAM_FULL 0 0) (\<lambda>h. Inr (h @ replicate MOFF 0xBB @ ram))"

definition diff_records :: "(nat \<times> byte) list \<Rightarrow> exn + bytes" where
  "diff_records changed =
     (if \<forall>(idx, v) \<in> set changed. idx < 256 ^ 4
      then Inr (concat (map (\<lambda>(idx, v). le_bytes 4 idx @ replicate PAGE v) changed)) else Inl StructError)"

definition diff_file :: "(nat \<times> byte) list \<Rightarrow> exn + bytes" where
  "diff_file changed =
     ebind (hdr RAM_DIFF (length changed) RAM) (\<lambda>h.
     ebind (diff_records changed) (\<lambda>r. Inr (h @ replicate MOFF 0xCC @ r)))"

text \<open>
  \<open>spliceAndOverlay\<close>: the records are read from the diff one after the other; a short read or a
  page outside the RAM fails.
\<close>

fun overlay :: "nat \<Rightarrow> nat \<Rightarrow> nat \<Rightarrow> bytes \<Rightarrow> bytes \<Rightarrow> bytes option" where
  "overlay ram_off ram_size 0 rest out = Some out"
| "overlay ram_off ram_size (Suc p) rest out =
     (if length rest < 4 then None
      else let off = le_val (take 4 rest) * PAGE in
        if ram_size < off \<or> ram_size - off < PAGE then None
        else if length (drop 4 rest) < PAGE then None
        else overlay ram_off ram_size p (drop (4 + PAGE) rest)
               (poke (ram_off + off) (take PAGE (drop 4 rest)) out))"

definition spliceAndOverlay :: "bytes \<Rightarrow> bytes \<Rightarrow> nat \<Rightarrow> nat \<Rightarrow> nat \<Rightarrow> bytes option" where
  "spliceAndOverlay out diff ram_off ram_size diff_pages =
     (if length diff < ram_off then None
      else
        let out = poke 0 (take ram_off diff) out;
            out = poke 84 (le_bytes 4 RAM_FULL) out;
            out = poke 96 (replicate 12 0) out
        in overlay ram_off ram_size diff_pages (drop ram_off diff) out)"

text \<open>\<open>materializeDiff\<close>: the contents of the new file, or \<open>None\<close> when it is refused.\<close>

definition materializeDiff :: "bytes \<Rightarrow> bytes \<Rightarrow> bytes option" where
  "materializeDiff base diff =
     (let rd = (\<lambda>w off b. le_val (peek off w b)) in
      if length base < HDR \<or> length diff < HDR then None
      else if rd 4 0 base \<noteq> SNAP_MAGIC \<or> rd 4 0 diff \<noteq> SNAP_MAGIC then None
      else if rd 4 4 base \<noteq> SNAP_VERSION \<or> rd 4 4 diff \<noteq> SNAP_VERSION then None
      else if rd 4 84 base \<noteq> RAM_FULL then None
      else if rd 4 84 diff \<noteq> RAM_DIFF then None
      else
        let ram_off = rd 8 48 base; ram_size = rd 8 24 base; diff_pages = rd 4 96 diff in
        if rd 8 48 diff \<noteq> ram_off then None
        else if rd 8 24 diff \<noteq> ram_size then None
        else if rd 8 100 diff \<noteq> ram_size then None
        else if ram_off < HDR \<or> ram_size mod PAGE \<noteq> 0 then None
        else if length base < ram_off \<or> length base - ram_off < ram_size then None
        else if length diff < ram_off \<or> length diff - ram_off < diff_pages * (4 + PAGE) then None
        else spliceAndOverlay base diff ram_off ram_size diff_pages)"

text \<open>The script's check: \<open>want\<close> is the base RAM with the changed pages assigned in order.\<close>

definition want :: "bytes \<Rightarrow> (nat \<times> byte) list \<Rightarrow> bytes" where
  "want ram changed = fold (\<lambda>(idx, v) m. poke (idx * PAGE) (replicate PAGE v) m) changed ram"

definition verified :: "bytes \<Rightarrow> bytes \<Rightarrow> (nat \<times> byte) list \<Rightarrow> exn + bool" where
  "verified out ram changed =
     ebind (unpack_from 4 out 84) (\<lambda>enc.
     ebind (unpack_from 4 out 96) (\<lambda>dp.
     ebind (unpack_from 8 out 100) (\<lambda>brs.
     Inr (enc = RAM_FULL \<and> dp = 0 \<and> brs = 0 \<and>
          peek HDR (RAM_OFF - HDR) out = replicate MOFF 0xCC \<and>
          peek RAM_OFF RAM out = want ram changed))))"

subsection \<open>The fold gives what the check wants\<close>

lemma hdr_fields:
  assumes "enc < 256 ^ 4" and "dp < 256 ^ 4" and "br < 256 ^ 8"
  obtains h where "hdr enc dp br = Inr h" and "length h = 128"
    and "le_val (peek 0 4 h) = SNAP_MAGIC" and "le_val (peek 4 4 h) = SNAP_VERSION"
    and "le_val (peek 24 8 h) = RAM" and "le_val (peek 48 8 h) = RAM_OFF"
    and "le_val (peek 84 4 h) = enc" and "le_val (peek 96 4 h) = dp" and "le_val (peek 100 8 h) = br"
proof -
  define h0 where "h0 = (replicate 128 0 :: bytes)"
  define h where "h = poke 100 (le_bytes 8 br) (poke 96 (le_bytes 4 dp) (poke 84 (le_bytes 4 enc)
    (poke 48 (le_bytes 8 RAM_OFF) (poke 24 (le_bytes 8 RAM) (poke 4 (le_bytes 4 SNAP_VERSION)
    (poke 0 (le_bytes 4 SNAP_MAGIC) h0))))))"
  have h0: "length h0 = 128" by (simp add: h0_def)
  have "hdr enc dp br = Inr h" using assms h0
    by (simp add: hdr_def pack_into_def h_def h0_def SNAP_MAGIC_def SNAP_VERSION_def geometry)
  moreover have "length h = 128" using h0 by (simp add: h_def)
  ultimately show thesis
    by (rule that) (use assms h0 in \<open>simp_all add: h_def le_val_le_bytes SNAP_MAGIC_def SNAP_VERSION_def geometry\<close>)
qed

lemma peek_append_left: "i + w \<le> length h \<Longrightarrow> peek i w (h @ r) = peek i w h"
  by (simp add: peek_def)

lemma poke_append_left: "i + length x \<le> length h \<Longrightarrow> poke i x (h @ r) = poke i x h @ r"
  by (simp add: poke_def)

lemma poke_append_right: "poke (length pre + i) x (pre @ m) = pre @ poke i x m"
  by (simp add: poke_def)

lemma fold_poke_append:
  "fold (\<lambda>(idx, v) out. poke (length pre + idx * PAGE) (replicate PAGE v) out) changed (pre @ m) =
     pre @ want m changed"
  unfolding want_def by (induction changed arbitrary: m) (auto simp: poke_append_right)

lemma overlay_records:
  assumes "\<forall>(idx, v) \<in> set changed. idx < NPAGES"
  shows "overlay ram_off RAM (length changed)
           (concat (map (\<lambda>(idx, v). le_bytes 4 idx @ replicate PAGE v) changed)) out =
         Some (fold (\<lambda>(idx, v) out. poke (ram_off + idx * PAGE) (replicate PAGE v) out) changed out)"
  using assms
proof (induction changed arbitrary: out)
  case (Cons c changed)
  obtain idx v where c: "c = (idx, v)" by (cases c)
  have "idx < 4096" using Cons.prems c by (simp add: NPAGES_def)
  then have "le_val (le_bytes 4 idx) = idx" by (intro le_val_le_bytes) simp
  moreover have "\<not> (RAM < idx * PAGE \<or> RAM - idx * PAGE < PAGE)"
    using \<open>idx < 4096\<close> by (simp add: RAM_def NPAGES_def PAGE_def)
  ultimately show ?case using Cons c by (simp add: Let_def)
qed simp

lemma length_want:
  assumes "\<forall>(idx, v) \<in> set changed. idx < NPAGES" and "length ram = RAM"
  shows "length (want ram changed) = RAM"
  using assms unfolding want_def
proof (induction changed arbitrary: ram)
  case (Cons c changed)
  obtain idx v where c: "c = (idx, v)" by (cases c)
  have "idx * PAGE + PAGE \<le> RAM" using Cons.prems(1) c by (simp add: RAM_def NPAGES_def PAGE_def)
  then show ?case using Cons c by simp
qed simp

lemma length_records:
  "length (concat (map (\<lambda>(idx, v). le_bytes 4 idx @ replicate PAGE v) changed)) = length changed * (4 + PAGE)"
  by (induction changed) auto

lemma materialize_folds:
  assumes "length ram = RAM" and "\<forall>(idx, v) \<in> set changed. idx < NPAGES" and "length changed < 256 ^ 4"
  shows "\<exists>base diff out. base_file ram = Inr base \<and> diff_file changed = Inr diff \<and>
           materializeDiff base diff = Some out \<and> verified out ram changed = Inr True \<and>
           length out = length base"
proof -
  let ?recs = "concat (map (\<lambda>(idx, v). le_bytes 4 idx @ replicate PAGE v) changed)"
  let ?bm = "replicate MOFF 0xBB :: bytes" and ?cm = "replicate MOFF 0xCC :: bytes"
  obtain hb where hb: "hdr RAM_FULL 0 0 = Inr hb" "length hb = 128" "le_val (peek 0 4 hb) = SNAP_MAGIC"
      "le_val (peek 4 4 hb) = SNAP_VERSION" "le_val (peek 24 8 hb) = RAM" "le_val (peek 48 8 hb) = RAM_OFF"
      "le_val (peek 84 4 hb) = RAM_FULL"
    by (rule hdr_fields [of RAM_FULL 0 0]) (simp_all add: RAM_FULL_def)
  obtain hd where hd: "hdr RAM_DIFF (length changed) RAM = Inr hd" "length hd = 128"
      "le_val (peek 0 4 hd) = SNAP_MAGIC" "le_val (peek 4 4 hd) = SNAP_VERSION" "le_val (peek 24 8 hd) = RAM"
      "le_val (peek 48 8 hd) = RAM_OFF" "le_val (peek 84 4 hd) = RAM_DIFF"
      "le_val (peek 96 4 hd) = length changed" "le_val (peek 100 8 hd) = RAM"
    by (rule hdr_fields [of RAM_DIFF "length changed" RAM]) (use assms(3) in \<open>simp_all add: RAM_DIFF_def geometry\<close>)
  define base where "base = hb @ ?bm @ ram"
  define diff where "diff = hd @ ?cm @ ?recs"
  define ho where "ho = poke 96 (replicate 12 0) (poke 84 (le_bytes 4 RAM_FULL) hd)"
  define out where "out = (ho @ ?cm) @ want ram changed"
  have ho: "length ho = 128" using hd(2) by (simp add: ho_def)
  have b: "base_file ram = Inr base" using hb(1) by (simp add: base_file_def base_def)
  have small: "\<forall>(idx, v) \<in> set changed. idx < 256 ^ 4"
    using assms(2) by (fastforce simp: NPAGES_def)
  have "diff_records changed = Inr ?recs" using small unfolding diff_records_def by (rule if_P)
  then have d: "diff_file changed = Inr diff" using hd(1) by (simp add: diff_file_def diff_def)
  have ro: "RAM_OFF = 4224" by (simp add: geometry)
  have lens: "length base = RAM_OFF + RAM" "length diff = RAM_OFF + length changed * (4 + PAGE)"
    using hb(2) hd(2) assms(1) length_records [of changed] by (simp_all add: base_def diff_def geometry)
  have "poke 0 (take RAM_OFF diff) base = hd @ ?cm @ ram"
    using hb(2) hd(2) by (simp add: poke_def base_def diff_def geometry)
  then have pre: "poke 96 (replicate 12 0) (poke 84 (le_bytes 4 RAM_FULL) (poke 0 (take RAM_OFF diff) base)) = (ho @ ?cm) @ ram"
    using hd(2) by (simp add: poke_append_left ho_def)
  have rest: "drop RAM_OFF diff = ?recs" using hd(2) by (simp add: diff_def geometry)
  have lp: "length (ho @ ?cm) = RAM_OFF" using ho by (simp add: geometry)
  have "spliceAndOverlay base diff RAM_OFF RAM (length changed) = Some out"
    unfolding spliceAndOverlay_def Let_def pre rest overlay_records [OF assms(2)] out_def
    using fold_poke_append [of "ho @ ?cm" changed ram] lp lens(2) by simp
  then have m: "materializeDiff base diff = Some out"
    unfolding materializeDiff_def Let_def
    using hb hd lens ro by (simp add: base_def diff_def peek_append_left HDR_def RAM_def)
  have lw: "length (want ram changed) = RAM" by (rule length_want [OF assms(2,1)])
  have lo: "length out = RAM_OFF + RAM" using lp lw by (simp add: out_def)
  have f: "le_val (peek 84 4 ho) = RAM_FULL" "peek 96 4 ho = replicate 4 0" "peek 100 8 ho = replicate 8 0"
    using hd(2) le_val_le_bytes [of RAM_FULL 4] by (simp_all add: ho_def RAM_FULL_def peek_def poke_def drop_append)
  have z: "le_val (replicate 4 0) = 0" "le_val (replicate 8 0) = 0" by (simp_all add: numeral_eq_Suc)
  have "peek HDR (RAM_OFF - HDR) out = ?cm" "peek RAM_OFF RAM out = want ram changed"
    using ho lp lw by (simp_all add: out_def peek_def geometry)
  then have "verified out ram changed = Inr True"
    using f z ho lo by (simp add: verified_def unpack_from_def out_def peek_append_left ro)
  with b d m lens lo show ?thesis by auto
qed

text \<open>
  C12: for every base RAM and every set of changed pages inside it, folding the diff file the
  script builds into the base file it builds succeeds, and the result passes the script's check:
  a FULL header without diff fields, the child's metadata, and the base RAM with the changed pages.
\<close>

theorem materialize_verified:
  assumes "length ram = RAM" and "\<forall>(idx, v) \<in> set changed. idx < NPAGES" and "length changed < 256 ^ 4"
  shows "\<exists>base diff out. base_file ram = Inr base \<and> diff_file changed = Inr diff \<and>
           materializeDiff base diff = Some out \<and> verified out ram changed = Inr True \<and>
           length out = length base"
  by (rule materialize_folds [OF assms])

end
