(* ===== verification/Json.thy ===== *)
theory Json
  imports Py_Value
begin

text \<open>
  Python's \<open>json\<close>, as \<open>scripts/bake.py\<close> uses it for its manifests: \<open>json.dump(m, f, indent=2)\<close>
  and \<open>json.load(f)\<close>.  The reader follows CPython's scanner (strict strings, joined surrogate
  pairs, \<open>NaN\<close> and the infinities, the last of several equal keys); a \<open>JSONDecodeError\<close> is
  \<open>None\<close>.  It runs on fuel, of which \<open>json_loads\<close> gives enough for every text: more fuel never
  changes the result.  The round trip shows that what is written is read back.
\<close>

section \<open>Writing\<close>

definition hexd :: "nat \<Rightarrow> nat" where
  "hexd n = (if n < 10 then 48 + n else 87 + n)"

definition hex4 :: "nat \<Rightarrow> pystr" where
  "hex4 u = [hexd (u div 4096), hexd (u div 256 mod 16), hexd (u div 16 mod 16), hexd (u mod 16)]"

definition esc_u :: "nat \<Rightarrow> pystr" where
  "esc_u u = 92 # 117 # hex4 u"

text \<open>\<open>ensure_ascii\<close>: everything but the printable ASCII characters is escaped.\<close>

definition esc_char :: "nat \<Rightarrow> pystr" where
  "esc_char c =
     (if c = 34 then [92, 34] else if c = 92 then [92, 92]
      else if c = 10 then [92, 110] else if c = 13 then [92, 114] else if c = 9 then [92, 116]
      else if c = 12 then [92, 102] else if c = 8 then [92, 98]
      else if 32 \<le> c \<and> c < 127 then [c]
      else if c < 65536 then esc_u c
      else esc_u (55296 + (c - 65536) div 1024) @ esc_u (56320 + (c - 65536) mod 1024))"

definition json_string :: "pystr \<Rightarrow> pystr" where
  "json_string s = 34 # concat (map esc_char s) @ [34]"

definition newline :: "nat \<Rightarrow> pystr" where
  "newline l = 10 # replicate (2 * l) 32"

fun joined :: "pystr \<Rightarrow> pystr list \<Rightarrow> pystr" where
  "joined sep [] = []"
| "joined sep [x] = x"
| "joined sep (x # xs) = x @ sep @ joined sep xs"

text \<open>\<open>indent=2\<close>, at nesting depth \<open>l\<close>; \<open>rp\<close> is \<open>float.__repr__\<close>.  A date is no JSON value
  (\<open>json_ok\<close>): \<open>dump\<close> raises \<open>TypeError\<close> there.\<close>

fun json_text :: "(pyval \<Rightarrow> pystr) \<Rightarrow> nat \<Rightarrow> pyval \<Rightarrow> pystr" where
  "json_text rp l PNone = lit ''null''"
| "json_text rp l (PBool b) = (if b then lit ''true'' else lit ''false'')"
| "json_text rp l (PInt i) = str_of_int i"
| "json_text rp l (PFloat r) = rp (PFloat r)"
| "json_text rp l (PInf b) = (if b then lit ''-Infinity'' else lit ''Infinity'')"
| "json_text rp l PNan = lit ''NaN''"
| "json_text rp l (PStr s) = json_string s"
| "json_text rp l (PList xs) =
     (if xs = [] then lit ''[]''
      else 91 # newline (l + 1) @ joined (44 # newline (l + 1)) (map (json_text rp (l + 1)) xs)
             @ newline l @ [93])"
| "json_text rp l (PDict d) =
     (if d = [] then lit ''{}''
      else 123 # newline (l + 1)
             @ joined (44 # newline (l + 1)) (map (\<lambda>(k, v). json_string k @ [58, 32] @ json_text rp (l + 1) v) d)
             @ newline l @ [125])"
| "json_text rp l (PDate s) = []"

fun json_ok :: "pyval \<Rightarrow> bool" where
  "json_ok (PList xs) = list_all json_ok xs"
| "json_ok (PDict d) = list_all (\<lambda>(k, v). json_ok v) d"
| "json_ok (PDate s) = False"
| "json_ok v = True"

section \<open>Reading\<close>

definition unhex :: "nat \<Rightarrow> nat option" where
  "unhex c =
     (if 48 \<le> c \<and> c < 58 then Some (c - 48)
      else if 97 \<le> c \<and> c < 103 then Some (c - 87)
      else if 65 \<le> c \<and> c < 71 then Some (c - 55) else None)"

fun read_hex4 :: "pystr \<Rightarrow> (nat \<times> pystr) option" where
  "read_hex4 (a # b # c # d # r) =
     (case (unhex a, unhex b, unhex c, unhex d) of
        (Some w, Some x, Some y, Some z) \<Rightarrow> Some (((w * 16 + x) * 16 + y) * 16 + z, r)
      | _ \<Rightarrow> None)"
| "read_hex4 _ = None"

definition unesc :: "nat \<Rightarrow> nat option" where
  "unesc e =
     map_of [(34, 34), (92, 92), (47, 47), (98, 8), (102, 12), (110, 10), (114, 13), (116, 9)] e"

text \<open>The low half of a surrogate pair, if it comes next.\<close>

definition low_half :: "pystr \<Rightarrow> (nat \<times> pystr) option" where
  "low_half r =
     (if take 2 r = [92, 117] then
        (case read_hex4 (drop 2 r) of
           Some (u, r') \<Rightarrow> if 56320 \<le> u \<and> u < 57344 then Some (u, r') else None
         | None \<Rightarrow> None)
      else None)"

lemma read_hex4_length: "read_hex4 s = Some (u, r) \<Longrightarrow> length r < length s"
  by (induction s rule: read_hex4.induct) (auto split: option.splits)

lemma low_half_length: "low_half s = Some (u, r) \<Longrightarrow> length r < length s"
  by (auto simp: low_half_def split: if_splits option.splits dest: read_hex4_length)

definition cons_char :: "nat \<Rightarrow> (pystr \<times> pystr) option \<Rightarrow> (pystr \<times> pystr) option" where
  "cons_char c m = map_option (\<lambda>(s, r). (c # s, r)) m"

text \<open>What comes after a backslash: the character it stands for, and the rest.\<close>

definition read_escape :: "pystr \<Rightarrow> (nat \<times> pystr) option" where
  "read_escape s =
     (case s of
        [] \<Rightarrow> None
      | e # r1 \<Rightarrow>
          if e = 117 then
            (case read_hex4 r1 of
               None \<Rightarrow> None
             | Some (u, r2) \<Rightarrow>
                 (case (if 55296 \<le> u \<and> u < 56320 then low_half r2 else None) of
                    Some (v, r3) \<Rightarrow> Some (65536 + (u - 55296) * 1024 + (v - 56320), r3)
                  | None \<Rightarrow> Some (u, r2)))
          else map_option (\<lambda>x. (x, r1)) (unesc e))"

lemma read_escape_length: "read_escape s = Some (x, r) \<Longrightarrow> length r < length s"
  by (cases s)
     (auto simp: read_escape_def split: if_splits option.splits dest!: read_hex4_length low_half_length)

function read_string :: "pystr \<Rightarrow> (pystr \<times> pystr) option" where
  "read_string s =
     (case s of
        [] \<Rightarrow> None
      | c # r \<Rightarrow>
          if c = 34 then Some ([], r)
          else if c = 92 then
            (case read_escape r of None \<Rightarrow> None | Some (x, r1) \<Rightarrow> cons_char x (read_string r1))
          else if c < 32 then None
          else cons_char c (read_string r))"
  by pat_completeness auto
termination
  by (relation "measure length") (auto dest!: read_escape_length)

declare read_string.simps [simp del]

definition ws :: "pystr \<Rightarrow> pystr" where
  "ws s = dropWhile (\<lambda>c. c = 32 \<or> c = 9 \<or> c = 10 \<or> c = 13) s"

definition is_dig :: "nat \<Rightarrow> bool" where
  "is_dig c \<longleftrightarrow> 48 \<le> c \<and> c < 58"

text \<open>\<open>-?(0|[1-9]\d*)(\.\d+)?([eE][-+]?\d+)?\<close>: the parts of a number, as long as each matches.\<close>

definition int_part :: "pystr \<Rightarrow> pystr" where
  "int_part s =
     (case s of [] \<Rightarrow> [] | c # r \<Rightarrow> if c = 48 then [48] else takeWhile is_dig s)"

definition frac_part :: "pystr \<Rightarrow> pystr" where
  "frac_part s =
     (case s of [] \<Rightarrow> []
      | c # r \<Rightarrow> if c = 46 \<and> takeWhile is_dig r \<noteq> [] then c # takeWhile is_dig r else [])"

definition exp_part :: "pystr \<Rightarrow> pystr" where
  "exp_part s =
     (case s of [] \<Rightarrow> []
      | c # r \<Rightarrow>
          if c = 101 \<or> c = 69 then
            (let sg = (case r of [] \<Rightarrow> [] | d # _ \<Rightarrow> if d = 43 \<or> d = 45 then [d] else []);
                 ds = takeWhile is_dig (drop (length sg) r)
             in if ds = [] then [] else c # sg @ ds)
          else [])"

definition read_number :: "(pystr \<Rightarrow> pyval) \<Rightarrow> pystr \<Rightarrow> (pyval \<times> pystr) option" where
  "read_number fl s =
     (let sg = (if s \<noteq> [] \<and> hd s = 45 then [45] else []);
          i = int_part (drop (length sg) s);
          r1 = drop (length sg + length i) s;
          f = frac_part r1;
          x = exp_part (drop (length f) r1);
          r = drop (length f + length x) r1
      in if i = [] then None
         else if f = [] \<and> x = [] then map_option (\<lambda>n. (PInt n, r)) (py_int (sg @ i))
         else Some (fl (sg @ i @ f @ x), r))"

definition keyword :: "string \<Rightarrow> pyval \<Rightarrow> pystr \<Rightarrow> (pyval \<times> pystr) option" where
  "keyword k v s = (if prefix (lit k) s then Some (v, drop (length k) s) else None)"

definition read_atom :: "(pystr \<Rightarrow> pyval) \<Rightarrow> pystr \<Rightarrow> (pyval \<times> pystr) option" where
  "read_atom fl s =
     (if hd s = 110 then keyword ''null'' PNone s
      else if hd s = 116 then keyword ''true'' (PBool True) s
      else if hd s = 102 then keyword ''false'' (PBool False) s
      else if hd s = 78 then keyword ''NaN'' PNan s
      else if hd s = 73 then keyword ''Infinity'' (PInf False) s
      else if prefix (lit ''-Infinity'') s then keyword ''-Infinity'' (PInf True) s
      else read_number fl s)"

text \<open>Elements of an array up to \<open>]\<close>, and members of an object up to \<open>}\<close>, after the first
  element or key is known to come.\<close>

fun read_value :: "(pystr \<Rightarrow> pyval) \<Rightarrow> nat \<Rightarrow> pystr \<Rightarrow> (pyval \<times> pystr) option"
and read_elems :: "(pystr \<Rightarrow> pyval) \<Rightarrow> nat \<Rightarrow> pystr \<Rightarrow> (pyval list \<times> pystr) option"
and read_members :: "(pystr \<Rightarrow> pyval) \<Rightarrow> nat \<Rightarrow> pystr \<Rightarrow> ((pystr \<times> pyval) list \<times> pystr) option" where
  "read_value fl 0 s = None"
| "read_value fl (Suc n) s =
     (case s of
        [] \<Rightarrow> None
      | c # r \<Rightarrow>
          if c = 34 then map_option (\<lambda>(t, r). (PStr t, r)) (read_string r)
          else if c = 91 then
            (case ws r of
               [] \<Rightarrow> None
             | d # r1 \<Rightarrow> if d = 93 then Some (PList [], r1)
                         else map_option (\<lambda>(vs, r). (PList vs, r)) (read_elems fl n (d # r1)))
          else if c = 123 then
            (case ws r of
               [] \<Rightarrow> None
             | d # r1 \<Rightarrow> if d = 125 then Some (PDict [], r1)
                         else map_option (\<lambda>(m, r). (PDict (fold (\<lambda>(k, v). dict_set k v) m []), r))
                                (read_members fl n (d # r1)))
          else read_atom fl s)"
| "read_elems fl 0 s = None"
| "read_elems fl (Suc n) s =
     (case read_value fl n s of
        None \<Rightarrow> None
      | Some (v, r) \<Rightarrow>
          (case ws r of
             [] \<Rightarrow> None
           | c # r1 \<Rightarrow>
               if c = 44 then map_option (\<lambda>(vs, r). (v # vs, r)) (read_elems fl n (ws r1))
               else if c = 93 then Some ([v], r1) else None))"
| "read_members fl 0 s = None"
| "read_members fl (Suc n) s =
     (case s of
        [] \<Rightarrow> None
      | q # s1 \<Rightarrow>
          if q \<noteq> 34 then None
          else
            (case read_string s1 of
               None \<Rightarrow> None
             | Some (k, r) \<Rightarrow>
                 (case ws r of
                    [] \<Rightarrow> None
                  | c # r1 \<Rightarrow>
                      if c \<noteq> 58 then None
                      else
                        (case read_value fl n (ws r1) of
                           None \<Rightarrow> None
                         | Some (v, r2) \<Rightarrow>
                             (case ws r2 of
                                [] \<Rightarrow> None
                              | d # r3 \<Rightarrow>
                                  if d = 44 then map_option (\<lambda>(m, r). ((k, v) # m, r)) (read_members fl n (ws r3))
                                  else if d = 125 then Some ([(k, v)], r3) else None)))))"

definition json_loads :: "(pystr \<Rightarrow> pyval) \<Rightarrow> pystr \<Rightarrow> pyval option" where
  "json_loads fl s =
     (if s \<noteq> [] \<and> hd s = 65279 then None
      else case read_value fl (2 * length s + 2) (ws s) of
        Some (v, r) \<Rightarrow> if ws r = [] then Some v else None
      | None \<Rightarrow> None)"

section \<open>The fuel is enough\<close>

lemma length_ws: "length (ws s) \<le> length s"
  by (simp add: ws_def length_dropWhile_le)

lemma ws_Cons_length: "ws s = c # r \<Longrightarrow> length r < length s"
  using length_ws [of s] by simp

lemma cons_char_Some: "cons_char c m = Some (t, r) \<longleftrightarrow> (\<exists>u. m = Some (u, r) \<and> t = c # u)"
  by (auto simp: cons_char_def)

lemma read_string_run:
  "read_string [] = None"
  "read_string (34 # r) = Some ([], r)"
  "read_string (92 # r) = (case read_escape r of None \<Rightarrow> None | Some (x, r1) \<Rightarrow> cons_char x (read_string r1))"
  "c \<noteq> 34 \<Longrightarrow> c \<noteq> 92 \<Longrightarrow> read_string (c # r) = (if c < 32 then None else cons_char c (read_string r))"
  by (simp_all add: read_string.simps [of "[]"] read_string.simps [of "_ # r"])

lemma read_string_length: "read_string s = Some (t, r) \<Longrightarrow> length r < length s"
proof (induction s arbitrary: t r rule: length_induct)
  case (1 s)
  then obtain c q where s: "s = c # q" by (cases s) (simp_all add: read_string_run)
  consider "c = 34" | "c = 92" | "c \<noteq> 34" "c \<noteq> 92" by blast
  then show ?case
  proof cases
    case 2
    with "1.prems" s obtain x r1 u where "read_escape q = Some (x, r1)" "read_string r1 = Some (u, r)"
      by (auto simp: read_string_run cons_char_Some split: option.splits)
    moreover from this have "length r1 < length s" using s read_escape_length by fastforce
    ultimately have "length r < length r1" using "1.IH" by blast
    with \<open>length r1 < length s\<close> show ?thesis by simp
  qed (use 1 s in \<open>fastforce simp: read_string_run cons_char_Some split: if_splits\<close>)+
qed

lemma read_number_length: "read_number fl s = Some (v, r) \<Longrightarrow> length r < length s"
  by (cases s) (auto simp: read_number_def Let_def int_part_def split: if_splits)

lemma keyword_length: "keyword k u s = Some (v, r) \<Longrightarrow> k \<noteq> [] \<Longrightarrow> length r < length s"
  by (auto simp: keyword_def lit_def prefix_def split: if_splits)

lemma read_atom_length: "read_atom fl s = Some (v, r) \<Longrightarrow> length r < length s"
  by (auto simp: read_atom_def split: if_splits dest: keyword_length read_number_length)

lemma read_length:
  "read_value fl n s = Some (v, r) \<Longrightarrow> length r < length s"
  "read_elems fl n s = Some (vs, r) \<Longrightarrow> length r < length s"
  "read_members fl n s = Some (m, r) \<Longrightarrow> length r < length s"
proof (induction n arbitrary: s v r vs m)
  case 0
  { case 1 then show ?case by simp next case 2 then show ?case by simp next case 3 then show ?case by simp }
next
  case (Suc n)
  {
    case 1
    then obtain c q where s: "s = c # q" by (cases s) simp_all
    consider "c = 34" | "c = 91" | "c = 123" | "c \<noteq> 34" "c \<noteq> 91" "c \<noteq> 123" by blast
    then show ?case
    proof cases
      case 1
      then show ?thesis using s \<open>read_value fl (Suc n) s = Some (v, r)\<close>
        by (auto dest: read_string_length)
    next
      case 2
      with s \<open>read_value fl (Suc n) s = Some (v, r)\<close> obtain d r1 where w: "ws q = d # r1"
        by (cases "ws q") simp_all
      show ?thesis using 2 s w \<open>read_value fl (Suc n) s = Some (v, r)\<close> ws_Cons_length [OF w]
        by (cases "d = 93") (auto dest!: Suc.IH(2))
    next
      case 3
      with s \<open>read_value fl (Suc n) s = Some (v, r)\<close> obtain d r1 where w: "ws q = d # r1"
        by (cases "ws q") simp_all
      show ?thesis using 3 s w \<open>read_value fl (Suc n) s = Some (v, r)\<close> ws_Cons_length [OF w]
        by (cases "d = 125") (auto dest!: Suc.IH(3))
    next
      case 4
      then show ?thesis using s \<open>read_value fl (Suc n) s = Some (v, r)\<close> by (auto dest: read_atom_length)
    qed
  next
    case 2
    then obtain u q d q1 where "read_value fl n s = Some (u, q)" "ws q = d # q1"
      and t: "if d = 44 then \<exists>us. read_elems fl n (ws q1) = Some (us, r) else r = q1"
      by (auto split: option.splits list.splits if_splits)
    moreover have "length r \<le> length q1"
      using t Suc.IH(2) [of "ws q1"] length_ws [of q1] by (fastforce split: if_splits)
    ultimately show ?case using Suc.IH(1) ws_Cons_length by fastforce
  next
    case 3
    then obtain k q q1 d r1 u r2 e r3 where "s = 34 # q1" "read_string q1 = Some (k, q)" "ws q = d # r1"
      "read_value fl n (ws r1) = Some (u, r2)" "ws r2 = e # r3"
      and t: "if e = 44 then \<exists>us. read_members fl n (ws r3) = Some (us, r) else r = r3"
      by (auto split: option.splits list.splits if_splits)
    moreover have "length r \<le> length r3"
      using t Suc.IH(3) [of "ws r3"] length_ws [of r3] by (fastforce split: if_splits)
    ultimately show ?case
      using Suc.IH(1) [of "ws r1" u r2] length_ws [of r1] read_string_length [of q1 k q] ws_Cons_length [of q d r1]
        ws_Cons_length [of r2 e r3] by simp
  }
qed

text \<open>Any two amounts of fuel above twice the length of the text give the same result.\<close>

lemma read_fuel:
  "2 * length s < n \<Longrightarrow> 2 * length s < m \<Longrightarrow> read_value fl n s = read_value fl m s"
  "2 * length s + 1 < n \<Longrightarrow> 2 * length s + 1 < m \<Longrightarrow> read_elems fl n s = read_elems fl m s"
  "2 * length s + 1 < n \<Longrightarrow> 2 * length s + 1 < m \<Longrightarrow> read_members fl n s = read_members fl m s"
proof (induction n arbitrary: s m)
  case 0
  { case 1 then show ?case by simp next case 2 then show ?case by simp next case 3 then show ?case by simp }
next
  case (Suc n)
  {
    case 1
    then obtain k where m: "m = Suc k" by (cases m) simp_all
    show ?case
    proof (cases s)
      case (Cons c q)
      have "read_elems fl n (d # r1) = read_elems fl k (d # r1)" "read_members fl n (d # r1) = read_members fl k (d # r1)"
        if "ws q = d # r1" for d r1
        using Suc.IH(2,3) [of "d # r1" k] ws_Cons_length [OF that] 1 Cons m by simp_all
      then show ?thesis by (auto simp: Cons m split: list.splits)
    qed (simp add: m)
  next
    case 2
    then obtain k where m: "m = Suc k" by (cases m) simp_all
    have v: "read_value fl n s = read_value fl k s" using Suc.IH(1) [of s k] 2 m by simp
    have "read_elems fl n (ws r1) = read_elems fl k (ws r1)"
      if "read_value fl k s = Some (u, q)" "ws q = d # r1" for u q d r1
      using Suc.IH(2) [of "ws r1" k] ws_Cons_length [OF that(2)] read_length(1) [OF that(1)] length_ws [of r1] 2 m
      by simp
    then show ?case by (auto simp: m v split: option.splits list.splits)
  next
    case 3
    then obtain k where m: "m = Suc k" by (cases m) simp_all
    have v: "read_value fl n (ws r1) = read_value fl k (ws r1)" and l: "Suc (length r1) < length s"
      if "s = 34 # q" "read_string q = Some (w, q1)" "ws q1 = d # r1" for q w q1 d r1
    proof -
      show l: "Suc (length r1) < length s" using ws_Cons_length [OF that(3)] read_string_length [OF that(2)] that(1) by simp
      show "read_value fl n (ws r1) = read_value fl k (ws r1)"
        using Suc.IH(1) [of "ws r1" k] l length_ws [of r1] 3 m by simp
    qed
    have r: "read_members fl n (ws r3) = read_members fl k (ws r3)"
      if "s = 34 # q" "read_string q = Some (w, q1)" "ws q1 = c # r1"
        "read_value fl k (ws r1) = Some (u, r2)" "ws r2 = d # r3" for q w q1 c r1 u r2 d r3
      using Suc.IH(3) [of "ws r3" k] ws_Cons_length [OF that(5)] read_length(1) [OF that(4)] length_ws [of r1]
        length_ws [of r3] l [OF that(1-3)] 3 m by simp
    show ?case
      by (auto simp: m v r split: option.splits list.splits)
  }
qed

section \<open>What is written is read back\<close>

fun json_exact :: "pyval \<Rightarrow> bool" where
  "json_exact (PInt i) = (length (str_of_int i) \<le> 4300)"
| "json_exact (PStr s) = list_all is_scalar s"
| "json_exact (PList xs) = list_all json_exact xs"
| "json_exact (PDict d) =
     (distinct (map fst d) \<and> list_all (\<lambda>(k, v). list_all is_scalar k \<and> json_exact v) d)"
| "json_exact (PFloat r) = False"
| "json_exact (PDate s) = False"
| "json_exact v = True"

subsection \<open>Strings\<close>

lemma unhex_hexd: "n < 16 \<Longrightarrow> unhex (hexd n) = Some n"
  by (auto simp: unhex_def hexd_def)

lemma read_hex4_hex4:
  assumes "u < 65536"
  shows "read_hex4 (hex4 u @ r) = Some (u, r)"
proof -
  have "u div 4096 < 16" using assms by (simp add: div_less_iff_less_mult)
  moreover have "((u div 4096 * 16 + u div 256 mod 16) * 16 + u div 16 mod 16) * 16 + u mod 16 = u"
  proof -
    have "u div 4096 * 16 + u div 256 mod 16 = u div 256"
      using div_mult_mod_eq [of "u div 256" 16] by (simp add: div_mult2_eq [symmetric])
    moreover have "u div 256 * 16 + u div 16 mod 16 = u div 16"
      using div_mult_mod_eq [of "u div 16" 16] by (simp add: div_mult2_eq [symmetric])
    ultimately show ?thesis using div_mult_mod_eq [of u 16] by simp
  qed
  ultimately show ?thesis by (simp add: hex4_def unhex_hexd)
qed

lemma read_escape_u:
  "u < 65536 \<Longrightarrow> \<not> (55296 \<le> u \<and> u < 56320) \<Longrightarrow> read_escape (117 # hex4 u @ r) = Some (u, r)"
  by (auto simp: read_escape_def read_hex4_hex4)

lemma read_escape_pair:
  assumes "u < 1024" and "v < 1024"
  shows "read_escape (117 # hex4 (55296 + u) @ esc_u (56320 + v) @ r) = Some (65536 + u * 1024 + v, r)"
  using assms by (simp add: read_escape_def read_hex4_hex4 low_half_def esc_u_def)

lemma read_esc_char:
  assumes "is_scalar c"
  shows "read_string (esc_char c @ r) = cons_char c (read_string r)"
proof -
  have sc: "c < 1114112" "\<not> (55296 \<le> c \<and> c < 56320)" using assms by (auto simp: is_scalar_def)
  consider "c \<in> {34, 92, 10, 13, 9, 12, 8}" | "c \<notin> {34, 92}" "32 \<le> c" "c < 127"
    | "c \<notin> {34, 92, 10, 13, 9, 12, 8}" "\<not> (32 \<le> c \<and> c < 127)" "c < 65536"
    | "65536 \<le> c" by fastforce
  then show ?thesis
  proof cases
    case 1
    then show ?thesis by (auto simp: esc_char_def read_string_run read_escape_def unesc_def)
  next
    case 2
    then show ?thesis by (auto simp: esc_char_def read_string_run)
  next
    case 3
    then have "esc_char c = esc_u c" by (auto simp: esc_char_def)
    then show ?thesis using 3 sc by (simp add: esc_u_def read_string_run read_escape_u)
  next
    case 4
    then have c: "esc_char c = esc_u (55296 + (c - 65536) div 1024) @ esc_u (56320 + (c - 65536) mod 1024)"
      by (simp add: esc_char_def)
    have "(c - 65536) div 1024 < 1024" using sc by (simp add: div_less_iff_less_mult)
    moreover have "65536 + (c - 65536) div 1024 * 1024 + (c - 65536) mod 1024 = c" using 4 by simp
    ultimately show ?thesis
      using read_escape_pair [of "(c - 65536) div 1024" "(c - 65536) mod 1024" r]
      unfolding c by (simp add: esc_u_def [of "55296 + _"] read_string_run)
  qed
qed

lemma read_json_string:
  "list_all is_scalar s \<Longrightarrow> read_string (concat (map esc_char s) @ 34 # r) = Some (s, r)"
  by (induction s) (simp_all add: read_string_run read_esc_char cons_char_def)

subsection \<open>Numbers and words\<close>

text \<open>What may follow a number without being read as a part of it.\<close>

definition delim :: "pystr \<Rightarrow> bool" where
  "delim r \<longleftrightarrow> r = [] \<or> \<not> is_dig (hd r) \<and> hd r \<notin> {46, 101, 69}"

lemma int_part_nat:
  assumes "delim r"
  shows "int_part (str_of_nat n @ r) = str_of_nat n"
proof -
  have all: "\<forall>c \<in> set (str_of_nat n). is_dig c" using str_of_nat_chars by (auto simp: is_dig_def)
  have tw: "takeWhile is_dig (str_of_nat n @ r) = str_of_nat n"
    using all assms by (cases r) (auto simp: delim_def takeWhile_append2 takeWhile_append)
  have hd0: "hd (str_of_nat n) = 48 \<Longrightarrow> n = 0 \<or> False"
  proof (induction n rule: dec_digits.induct)
    case (1 n)
    show ?case
    proof (cases "n < 10")
      case True
      then show ?thesis using "1.prems" by (simp add: str_of_nat_def dec_digits.simps [of n])
    next
      case False
      then have "hd (str_of_nat (n div 10)) = 48"
        using "1.prems" by (simp add: str_of_nat_def dec_digits.simps [of n] hd_map)
      then have "n div 10 = 0" using "1.IH" [OF False] by simp
      then show ?thesis using False by simp
    qed
  qed
  have z: "str_of_nat 0 = [48]" by (simp add: str_of_nat_def dec_digits.simps)
  show ?thesis
  proof (cases "n = 0")
    case True
    then show ?thesis by (simp add: z int_part_def)
  next
    case False
    then have "hd (str_of_nat n) \<noteq> 48" using hd0 by blast
    then show ?thesis using tw str_of_nat_neq_Nil [of n]
      by (cases "str_of_nat n") (simp_all add: int_part_def)
  qed
qed

lemma delim_parts: "delim r \<Longrightarrow> frac_part r = [] \<and> exp_part r = []"
  by (cases r) (auto simp: delim_def frac_part_def exp_part_def)

lemma read_int:
  assumes "delim r" and "length (str_of_int i) \<le> 4300"
  shows "read_number fl (str_of_int i @ r) = Some (PInt i, r)"
proof -
  have p: "py_int (str_of_int i) = Some i" by (rule py_int_str_of_int [OF assms(2)])
  show ?thesis
  proof (cases "i < 0")
    case True
    then have s: "str_of_int i = 45 # str_of_nat (nat (- i))" by (simp add: str_of_int_def)
    show ?thesis using p delim_parts [OF assms(1)] int_part_nat [OF assms(1)]
      by (simp add: s read_number_def)
  next
    case False
    then have s: "str_of_int i = str_of_nat (nat i)" by (simp add: str_of_int_def)
    have "hd (str_of_nat (nat i)) \<noteq> 45"
      using str_of_nat_chars [of "hd (str_of_nat (nat i))" "nat i"] by (simp add: hd_in_set)
    then show ?thesis using p delim_parts [OF assms(1)] int_part_nat [OF assms(1)]
      by (simp add: s read_number_def)
  qed
qed

lemma read_atom_int:
  assumes "delim r" and "length (str_of_int i) \<le> 4300"
  shows "read_atom fl (str_of_int i @ r) = Some (PInt i, r)"
proof -
  have ne: "str_of_int i \<noteq> []" by (simp add: str_of_int_def)
  have "hd (str_of_int i @ r) = 45 \<or> 48 \<le> hd (str_of_int i @ r) \<and> hd (str_of_int i @ r) < 58"
    using ne str_of_int_chars [of "hd (str_of_int i)" i] by simp
  moreover have "\<not> prefix (lit ''-Infinity'') (str_of_int i @ r)"
  proof
    assume "prefix (lit ''-Infinity'') (str_of_int i @ r)"
    then obtain z where z: "str_of_int i @ r = 45 # 73 # z" by (auto simp: prefix_def lit_def)
    then have "i < 0" using str_of_nat_chars [of "hd (str_of_nat (nat i))" "nat i"] str_of_nat_neq_Nil [of "nat i"]
      by (cases "str_of_nat (nat i)") (auto simp: str_of_int_def split: if_splits)
    with z have "str_of_nat (nat (- i)) @ r = 73 # z" by (simp add: str_of_int_def)
    then show False using str_of_nat_chars [of 73 "nat (- i)"] str_of_nat_neq_Nil [of "nat (- i)"]
      by (cases "str_of_nat (nat (- i))") auto
  qed
  ultimately show ?thesis using read_int [OF assms] by (auto simp: read_atom_def)
qed

subsection \<open>Values\<close>

abbreviation no_ws :: "nat \<Rightarrow> bool" where
  "no_ws c \<equiv> c \<noteq> 32 \<and> c \<noteq> 9 \<and> c \<noteq> 10 \<and> c \<noteq> 13"

lemma ws_id: "no_ws c \<Longrightarrow> ws (c # r) = c # r"
  by (simp add: ws_def)

lemma ws_newline: "ws (newline l @ s) = ws s"
proof -
  have "dropWhile (\<lambda>c. c = 32 \<or> c = 9 \<or> c = 10 \<or> c = 13) (replicate k 32 @ s) =
      dropWhile (\<lambda>c. c = 32 \<or> c = 9 \<or> c = 10 \<or> c = 13) s" for k :: nat and s :: pystr
    by (induction k) simp_all
  then show ?thesis by (simp add: ws_def newline_def)
qed

lemma delim_newline: "delim (newline l @ s)"
  by (simp add: delim_def newline_def is_dig_def)

lemma delim_comma: "delim (44 # s)"
  by (simp add: delim_def is_dig_def)

text \<open>A value starts with a character that no reader takes for white space or a closing bracket.\<close>

definition starts :: "pystr \<Rightarrow> bool" where
  "starts s \<longleftrightarrow> s \<noteq> [] \<and> no_ws (hd s) \<and> hd s \<noteq> 93 \<and> hd s \<noteq> 125"

lemma ws_starts: "starts s \<Longrightarrow> ws (s @ r) = s @ r"
  by (cases s) (auto simp: starts_def ws_id)

lemma starts_text: "json_exact v \<Longrightarrow> starts (json_text rp l v)"
proof (cases v)
  case (PInt i)
  have "str_of_int i \<noteq> []" by (simp add: str_of_int_def)
  then show ?thesis using PInt str_of_int_chars [of "hd (str_of_int i)" i] by (auto simp: starts_def)
qed (auto simp: starts_def lit_def json_string_def)

lemma read_elems_joined:
  assumes "xs \<noteq> []"
    and "\<And>x m r. x \<in> set xs \<Longrightarrow> delim r \<Longrightarrow> 2 * length (f x @ r) < m \<Longrightarrow> read_value fl m (f x @ r) = Some (x, r)"
    and "\<And>x. x \<in> set xs \<Longrightarrow> starts (f x)"
    and "2 * length (joined (44 # newline k) (map f xs) @ newline l @ 93 # rest) + 1 < n"
  shows "read_elems fl n (joined (44 # newline k) (map f xs) @ newline l @ 93 # rest) = Some (xs, rest)"
  using assms
proof (induction xs arbitrary: n)
  case (Cons x xs)
  obtain n' where n: "n = Suc n'" using Cons.prems(4) by (cases n) simp_all
  show ?case
  proof (cases xs)
    case Nil
    have "read_value fl n' (f x @ newline l @ 93 # rest) = Some (x, newline l @ 93 # rest)"
      by (rule Cons.prems(2)) (use Cons.prems(4) Nil n in \<open>simp_all add: delim_newline\<close>)
    then show ?thesis by (simp add: n Nil ws_newline ws_id)
  next
    case (Cons y ys)
    let ?t = "joined (44 # newline k) (map f xs) @ newline l @ 93 # rest"
    have j: "joined (44 # newline k) (map f (x # xs)) @ newline l @ 93 # rest = f x @ 44 # newline k @ ?t"
      by (simp add: Cons)
    have "read_value fl n' (f x @ 44 # newline k @ ?t) = Some (x, 44 # newline k @ ?t)"
      by (rule Cons.prems(2)) (use Cons.prems(4) j n in \<open>simp_all add: delim_comma\<close>)
    moreover have "starts (f y)" using Cons.prems(3) Cons by simp
    then have "ws ?t = ?t" using Cons by (cases ys) (simp_all add: ws_starts)
    moreover have "read_elems fl n' ?t = Some (xs, rest)"
      by (rule Cons.IH) (use Cons.prems Cons j n in \<open>auto\<close>)
    ultimately show ?thesis unfolding j by (simp add: n ws_id ws_newline)
  qed
qed simp

lemma read_members_joined:
  assumes "d \<noteq> []"
    and "\<And>k v m r. (k, v) \<in> set d \<Longrightarrow> delim r \<Longrightarrow> 2 * length (f v @ r) < m \<Longrightarrow> read_value fl m (f v @ r) = Some (v, r)"
    and "\<And>k v. (k, v) \<in> set d \<Longrightarrow> starts (f v) \<and> list_all is_scalar k"
    and "2 * length (joined (44 # newline j) (map (\<lambda>(k, v). json_string k @ [58, 32] @ f v) d) @ newline l @ 125 # rest) + 1 < n"
  shows "read_members fl n (joined (44 # newline j) (map (\<lambda>(k, v). json_string k @ [58, 32] @ f v) d) @ newline l @ 125 # rest) =
           Some (d, rest)"
  using assms
proof (induction d arbitrary: n)
  case (Cons p d)
  obtain k v where p: "p = (k, v)" by (cases p)
  obtain n' where n: "n = Suc n'" using Cons.prems(4) by (cases n) simp_all
  have sc: "list_all is_scalar k" and st: "starts (f v)" using Cons.prems(3) [of k v] p by simp_all
  have key: "read_string (concat (map esc_char k) @ 34 # 58 # 32 # r) = Some (k, 58 # 32 # r)" for r
    by (rule read_json_string [OF sc])
  have sp: "ws (32 # f v @ r) = f v @ r" for r
    using ws_starts [OF st, of r] by (simp add: ws_def)
  show ?case
  proof (cases d)
    case Nil
    have "read_value fl n' (f v @ newline l @ 125 # rest) = Some (v, newline l @ 125 # rest)"
      by (rule Cons.prems(2) [of k]) (use Cons.prems(4) Nil n p in \<open>simp_all add: delim_newline\<close>)
    then show ?thesis by (simp add: n Nil p json_string_def key sp ws_newline ws_id)
  next
    case (Cons q e)
    let ?t = "joined (44 # newline j) (map (\<lambda>(k, v). json_string k @ [58, 32] @ f v) d) @ newline l @ 125 # rest"
    have j: "joined (44 # newline j) (map (\<lambda>(k, v). json_string k @ [58, 32] @ f v) (p # d)) @ newline l @ 125 # rest =
        json_string k @ [58, 32] @ f v @ 44 # newline j @ ?t"
      by (simp add: Cons p)
    have "read_value fl n' (f v @ 44 # newline j @ ?t) = Some (v, 44 # newline j @ ?t)"
      by (rule Cons.prems(2) [of k]) (use Cons.prems(4) j n p in \<open>simp_all add: delim_comma\<close>)
    moreover have "ws ?t = ?t"
      using Cons by (cases e; cases q) (simp_all add: json_string_def ws_id)
    moreover have "read_members fl n' ?t = Some (d, rest)"
    proof (rule Cons.IH)
      show "d \<noteq> []" using Cons by simp
      show "2 * length ?t + 1 < n'" using Cons.prems(4) n unfolding j by simp
    qed (use Cons.prems(2,3) in \<open>fastforce\<close>)+
    ultimately show ?thesis unfolding j by (simp add: n p json_string_def key sp ws_id ws_newline)
  qed
qed simp

lemma fold_dict_set:
  "distinct (map fst (acc @ m)) \<Longrightarrow> fold (\<lambda>(k, v). dict_set k v) m acc = acc @ m"
proof (induction m arbitrary: acc)
  case (Cons p m)
  obtain k v where p: "p = (k, v)" by (cases p)
  have "dict_set k v a = a @ [(k, v)]" if "k \<notin> fst ` set a" for a
    using that by (induction a) auto
  moreover have "k \<notin> fst ` set acc" using Cons.prems p by auto
  ultimately show ?case using Cons.IH [of "acc @ [(k, v)]"] Cons.prems p by simp
qed simp

lemma read_keyword: "keyword k v (lit k @ r) = Some (v, r)"
  by (simp add: keyword_def lit_def)

lemma read_text:
  assumes "json_exact v" and "delim r" and "2 * length (json_text rp l v @ r) < n"
  shows "read_value fl n (json_text rp l v @ r) = Some (v, r)"
  using assms
proof (induction rp l v arbitrary: n r rule: json_text.induct)
  case (1 rp l)
  then show ?case using read_keyword [of "''null''" PNone r]
    by (cases n) (simp_all add: read_atom_def lit_def)
next
  case (2 rp l b)
  then show ?case using read_keyword [of "''true''" "PBool True" r] read_keyword [of "''false''" "PBool False" r]
    by (cases n) (simp_all add: read_atom_def lit_def)
next
  case (3 rp l i)
  have "str_of_int i \<noteq> []" by (simp add: str_of_int_def)
  moreover from this have "hd (str_of_int i) \<notin> {34, 91, 123}"
    using str_of_int_chars [of "hd (str_of_int i)" i] by auto
  moreover have "read_atom fl (str_of_int i @ r) = Some (PInt i, r)" using 3 by (intro read_atom_int) simp_all
  ultimately show ?case using "3.prems"(3) by (cases n; cases "str_of_int i") simp_all
next
  case (5 rp l b)
  then show ?case using read_keyword [of "''-Infinity''" "PInf True" r] read_keyword [of "''Infinity''" "PInf False" r]
    by (cases n) (simp_all add: read_atom_def lit_def)
next
  case (6 rp l)
  then show ?case using read_keyword [of "''NaN''" PNan r]
    by (cases n) (simp_all add: read_atom_def lit_def)
next
  case (7 rp l s)
  then show ?case using read_json_string [of s r] by (cases n) (simp_all add: json_string_def)
next
  case (8 rp l xs)
  obtain n' where n: "n = Suc n'" using "8.prems"(3) by (cases n) simp_all
  show ?case
  proof (cases "xs = []")
    case True
    then show ?thesis by (simp add: n lit_def ws_id)
  next
    case False
    let ?t = "joined (44 # newline (l + 1)) (map (json_text rp (l + 1)) xs)"
    have safe: "json_exact x" if "x \<in> set xs" for x using "8.prems"(1) that by (simp add: list_all_iff)
    have len: "2 * length (?t @ newline l @ 93 # r) + 1 < n'" using "8.prems"(3) False n by (simp add: newline_def)
    have el: "read_elems fl n' (?t @ newline l @ 93 # r) = Some (xs, r)"
    proof (rule read_elems_joined [OF False])
      show "2 * length (?t @ newline l @ 93 # r) + 1 < n'" by (rule len)
    qed (use "8.IH" [OF False] safe starts_text in blast)+
    have "starts (json_text rp (l + 1) (hd xs))" using safe starts_text False by simp
    then have "starts ?t" using False by (cases xs rule: list.exhaust; cases "tl xs") (auto simp: starts_def)
    then obtain c q where t: "?t = c # q" "no_ws c" "c \<noteq> 93" by (cases ?t) (auto simp: starts_def)
    show ?thesis using el False t by (simp add: n ws_newline ws_id)
  qed
next
  case (9 rp l d)
  obtain n' where n: "n = Suc n'" using "9.prems"(3) by (cases n) simp_all
  show ?case
  proof (cases "d = []")
    case True
    then show ?thesis by (simp add: n lit_def ws_id)
  next
    case False
    let ?t = "joined (44 # newline (l + 1)) (map (\<lambda>(k, v). json_string k @ [58, 32] @ json_text rp (l + 1) v) d)"
    have safe: "json_exact v \<and> list_all is_scalar k" if "(k, v) \<in> set d" for k v
      using "9.prems"(1) that by (auto simp: list_all_iff)
    have len: "2 * length (?t @ newline l @ 125 # r) + 1 < n'" using "9.prems"(3) False n by (simp add: newline_def)
    have el: "read_members fl n' (?t @ newline l @ 125 # r) = Some (d, r)"
    proof (rule read_members_joined [OF False])
      show "2 * length (?t @ newline l @ 125 # r) + 1 < n'" by (rule len)
    next
      fix k v m r
      assume "(k, v) \<in> set d" "delim r" "2 * length (json_text rp (l + 1) v @ r) < m"
      then show "read_value fl m (json_text rp (l + 1) v @ r) = Some (v, r)"
        using "9.IH" [OF False, of "(k, v)" k v] safe by blast
    qed (use safe starts_text in blast)
    obtain k v e where "d = (k, v) # e" using False by (cases d) auto
    then obtain q where t: "?t = 34 # q" by (cases e) (simp_all add: json_string_def)
    have "fold (\<lambda>(k, v). dict_set k v) d [] = d" using fold_dict_set [of "[]" d] "9.prems"(1) by simp
    then show ?thesis using el False t by (simp add: n ws_newline ws_id)
  qed
qed simp_all

text \<open>The manifest's round trip: \<open>json.load\<close> of what \<open>json.dump(v, f, indent=2)\<close> wrote.\<close>

lemma json_loads_text: "json_exact v \<Longrightarrow> json_loads fl (json_text rp 0 v) = Some v"
proof -
  assume v: "json_exact v"
  have st: "starts (json_text rp 0 v)" by (rule starts_text [OF v])
  have "hd (json_text rp 0 v) \<noteq> 65279"
  proof (cases v)
    case (PInt i)
    have "str_of_int i \<noteq> []" by (simp add: str_of_int_def)
    then show ?thesis using PInt str_of_int_chars [of "hd (str_of_int i)" i] by auto
  qed (use v in \<open>auto simp: lit_def json_string_def\<close>)
  then show ?thesis
    using read_text [OF v, of "[]" rp 0 "2 * length (json_text rp 0 v) + 2" fl] ws_starts [OF st, of "[]"]
    by (simp add: json_loads_def delim_def ws_def)
qed

text \<open>What is written is ASCII, so the encoding of the file does not matter.\<close>

lemma hex4_ascii: "u < 65536 \<Longrightarrow> c \<in> set (esc_u u) \<Longrightarrow> c < 128"
proof -
  have "hexd n < 128" if "n < 16" for n using that by (simp add: hexd_def)
  moreover assume "u < 65536"
  then have "u div 4096 < 16" by (simp add: div_less_iff_less_mult)
  moreover assume "c \<in> set (esc_u u)"
  ultimately show ?thesis by (auto simp: esc_u_def hex4_def)
qed

lemma esc_char_ascii:
  assumes "is_scalar x" and "c \<in> set (esc_char x)"
  shows "c < 128"
proof (cases "x < 65536")
  case True
  with assms hex4_ascii [OF True, of c] show ?thesis by (auto simp: esc_char_def split: if_splits)
next
  case False
  have "(x - 65536) div 1024 < 1024" using assms(1) False by (simp add: is_scalar_def div_less_iff_less_mult)
  moreover have "(x - 65536) mod 1024 < 1024" by simp
  moreover have "esc_char x = esc_u (55296 + (x - 65536) div 1024) @ esc_u (56320 + (x - 65536) mod 1024)"
    using False by (simp add: esc_char_def)
  ultimately show ?thesis
    using assms(2) hex4_ascii [of "55296 + (x - 65536) div 1024" c] hex4_ascii [of "56320 + (x - 65536) mod 1024" c]
    by auto
qed

lemma json_string_ascii: "list_all is_scalar s \<Longrightarrow> c \<in> set (json_string s) \<Longrightarrow> c < 128"
  by (auto simp: json_string_def list_all_iff dest: esc_char_ascii)

lemma joined_ascii:
  "(\<And>x c. x \<in> set xs \<Longrightarrow> c \<in> set x \<Longrightarrow> c < 128) \<Longrightarrow> (\<And>c. c \<in> set sep \<Longrightarrow> c < 128) \<Longrightarrow>
     c \<in> set (joined sep xs) \<Longrightarrow> c < (128 :: nat)"
  by (induction sep xs rule: joined.induct) auto

lemma newline_ascii: "c \<in> set (newline l) \<Longrightarrow> c < 128"
  by (auto simp: newline_def)

lemma json_text_ascii: "json_exact v \<Longrightarrow> c \<in> set (json_text rp l v) \<Longrightarrow> c < 128"
proof (induction rp l v arbitrary: c rule: json_text.induct)
  case (3 rp l i)
  then show ?case using str_of_int_chars [of c i] by auto
next
  case (7 rp l s)
  then show ?case using json_string_ascii by simp
next
  case (8 rp l xs)
  have "c < 128" if "c \<in> set (joined (44 # newline (l + 1)) (map (json_text rp (l + 1)) xs))"
  proof (rule joined_ascii [OF _ _ that])
    fix x e assume "x \<in> set (map (json_text rp (l + 1)) xs)" "e \<in> set x"
    then obtain y where y: "y \<in> set xs" "e \<in> set (json_text rp (l + 1) y)" by auto
    moreover have "json_exact y" using "8.prems"(1) y(1) by (auto simp: list_all_iff)
    ultimately show "e < 128" using "8.IH" [of y e] by (cases xs) auto
  qed (use newline_ascii in auto)
  then show ?case using "8.prems"(2) newline_ascii [of c "l + 1"] newline_ascii [of c l]
    by (auto simp: lit_def split: if_splits)
next
  case (9 rp l d)
  have "c < 128"
    if "c \<in> set (joined (44 # newline (l + 1)) (map (\<lambda>(k, v). json_string k @ [58, 32] @ json_text rp (l + 1) v) d))"
  proof (rule joined_ascii [OF _ _ that])
    fix x e assume "x \<in> set (map (\<lambda>(k, v). json_string k @ [58, 32] @ json_text rp (l + 1) v) d)" "e \<in> set x"
    then obtain k v where kv: "(k, v) \<in> set d" "e \<in> set (json_string k) \<or> e = 58 \<or> e = 32 \<or> e \<in> set (json_text rp (l + 1) v)"
      by auto
    moreover have "list_all is_scalar k" "json_exact v" using "9.prems"(1) kv(1) by (auto simp: list_all_iff)
    ultimately show "e < 128" using "9.IH" [of "(k, v)" k v e] json_string_ascii [of k e] by (cases d) auto
  qed (use newline_ascii in auto)
  then show ?case using "9.prems"(2) newline_ascii [of c "l + 1"] newline_ascii [of c l]
    by (auto simp: lit_def split: if_splits)
qed (auto simp: lit_def split: if_splits)

section \<open>How deep a text is nested\<close>

text \<open>CPython's scanner calls itself once for every bracket or brace that is open and gives up with
  \<open>RecursionError\<close> when the interpreter's limit is reached.  \<open>json_depth\<close> is the largest number of
  brackets and braces that are open at a point of the text outside its strings.\<close>

fun nest :: "bool \<Rightarrow> nat \<Rightarrow> pystr \<Rightarrow> nat" where
  "nest q d [] = 0"
| "nest True d (c # r) = (if c = 92 then nest True d (tl r) else nest (c \<noteq> 34) d r)"
| "nest False d (c # r) =
     (if c = 34 then nest True d r
      else if c = 91 \<or> c = 123 then max (Suc d) (nest False (Suc d) r)
      else if c = 93 \<or> c = 125 then nest False (d - 1) r
      else nest False d r)"

definition json_depth :: "pystr \<Rightarrow> nat" where
  "json_depth s = nest False 0 s"

text \<open>No list or dictionary stands inside \<open>n\<close> others.\<close>

fun shallow :: "nat \<Rightarrow> pyval \<Rightarrow> bool" where
  "shallow n (PList xs) \<longleftrightarrow> 0 < n \<and> list_all (shallow (n - 1)) xs"
| "shallow n (PDict d) \<longleftrightarrow> 0 < n \<and> list_all (\<lambda>(k, v). shallow (n - 1) v) d"
| "shallow n v \<longleftrightarrow> True"

definition flat_char :: "nat \<Rightarrow> bool" where
  "flat_char c \<longleftrightarrow> c \<notin> {34, 91, 93, 123, 125}"

lemma nest_flat: "list_all flat_char t \<Longrightarrow> nest False d (t @ r) = nest False d r"
  by (induction t) (simp_all add: flat_char_def)

lemma nest_in_string: "list_all (\<lambda>c. c \<noteq> 34 \<and> c \<noteq> 92) t \<Longrightarrow> nest True d (t @ r) = nest True d r"
  by (induction t) simp_all

lemma hexd_not_quote: "hexd n \<noteq> 34" "hexd n \<noteq> 92" if "n < 16"
  using that by (simp_all add: hexd_def)

lemma nest_esc_u: "u < 65536 \<Longrightarrow> nest True d (esc_u u @ r) = nest True d r"
proof -
  assume "u < 65536"
  then have "u div 4096 < 16" by (simp add: div_less_iff_less_mult)
  then have "list_all (\<lambda>c. c \<noteq> 34 \<and> c \<noteq> 92) (hex4 u)" by (simp add: hex4_def hexd_not_quote)
  then show ?thesis by (simp add: esc_u_def nest_in_string)
qed

lemma nest_esc_char: "is_scalar c \<Longrightarrow> nest True d (esc_char c @ r) = nest True d r"
proof (cases "c < 65536")
  case True
  then show ?thesis using nest_esc_u [OF True] by (auto simp: esc_char_def)
next
  case False
  assume "is_scalar c"
  then have "(c - 65536) div 1024 < 1024" using False by (simp add: is_scalar_def div_less_iff_less_mult)
  moreover have "(c - 65536) mod 1024 < 1024" by simp
  moreover have "esc_char c = esc_u (55296 + (c - 65536) div 1024) @ esc_u (56320 + (c - 65536) mod 1024)"
    using False by (simp add: esc_char_def)
  ultimately show ?thesis by (simp add: nest_esc_u)
qed

lemma nest_json_string: "list_all is_scalar s \<Longrightarrow> nest False d (json_string s @ r) = nest False d r"
proof -
  assume "list_all is_scalar s"
  then have "nest True d (concat (map esc_char s) @ 34 # r) = nest False d r"
    by (induction s) (simp_all add: nest_esc_char)
  then show ?thesis by (simp add: json_string_def)
qed

lemma nest_joined:
  assumes "list_all flat_char sep" and "\<And>x r. x \<in> set xs \<Longrightarrow> nest False d (x @ r) \<le> max b (nest False d r)"
  shows "nest False d (joined sep xs @ r) \<le> max b (nest False d r)"
  using assms(2)
proof (induction xs rule: induct_list012)
  case (3 x y xs)
  have "nest False d (x @ sep @ joined sep (y # xs) @ r) \<le> max b (nest False d (sep @ joined sep (y # xs) @ r))"
    using "3.prems" by simp
  also have "\<dots> = max b (nest False d (joined sep (y # xs) @ r))"
    using assms(1) nest_flat [of sep] by simp
  also have "\<dots> \<le> max b (nest False d r)" using 3 by simp
  finally show ?case by simp
qed simp_all

lemma flat_newline: "list_all flat_char (newline l)"
  by (simp add: newline_def flat_char_def list_all_iff)

lemma flat_int: "list_all flat_char (str_of_int i)"
  using str_of_int_chars [of _ i] by (fastforce simp: list_all_iff flat_char_def)

lemma nest_text:
  assumes "json_exact v" and "shallow n v"
  shows "nest False d (json_text rp l v @ r) \<le> max (d + n) (nest False d r)"
  using assms
proof (induction rp l v arbitrary: n d r rule: json_text.induct)
  case (3 rp l i)
  then show ?case by (simp add: nest_flat [OF flat_int])
next
  case (7 rp l s)
  then show ?case by (simp add: nest_json_string)
next
  case (8 rp l xs)
  show ?case
  proof (cases "xs = []")
    case False
    let ?t = "joined (44 # newline (l + 1)) (map (json_text rp (l + 1)) xs)"
    have "nest False (Suc d) (x @ q) \<le> max (Suc d + (n - 1)) (nest False (Suc d) q)"
      if "x \<in> set (map (json_text rp (l + 1)) xs)" for x q
      using that "8.IH" [OF False, of _ "n - 1" "Suc d" q] "8.prems" by (auto simp: list_all_iff)
    then have "nest False (Suc d) (?t @ newline l @ 93 # r) \<le> max (Suc d + (n - 1)) (nest False (Suc d) (newline l @ 93 # r))"
      by (intro nest_joined) (use flat_newline in \<open>simp_all add: flat_char_def [of 44]\<close>)
    then show ?thesis using False "8.prems"(2) flat_newline by (auto simp: nest_flat le_max_iff_disj)
  qed (use "8.prems" in \<open>simp add: lit_def\<close>)
next
  case (9 rp l m)
  show ?case
  proof (cases "m = []")
    case False
    let ?f = "\<lambda>(k, v). json_string k @ [58, 32] @ json_text rp (l + 1) v"
    have "nest False (Suc d) (x @ q) \<le> max (Suc d + (n - 1)) (nest False (Suc d) q)"
      if x: "x \<in> set (map ?f m)" for x q
    proof -
      obtain k v where kv: "(k, v) \<in> set m" "x = json_string k @ [58, 32] @ json_text rp (l + 1) v" using x by auto
      then have "list_all is_scalar k" "json_exact v" "shallow (n - 1) v" using "9.prems" by (auto simp: list_all_iff)
      then show ?thesis using "9.IH" [OF False kv(1) refl, of "n - 1" "Suc d" q] kv(2) by (simp add: nest_json_string)
    qed
    then have "nest False (Suc d) (joined (44 # newline (l + 1)) (map ?f m) @ newline l @ 125 # r) \<le>
        max (Suc d + (n - 1)) (nest False (Suc d) (newline l @ 125 # r))"
      by (intro nest_joined) (use flat_newline in \<open>simp_all add: flat_char_def [of 44]\<close>)
    then show ?thesis using False "9.prems"(2) flat_newline by (auto simp: nest_flat le_max_iff_disj)
  qed (use "9.prems" in \<open>simp add: lit_def\<close>)
qed (simp_all add: lit_def nest_flat flat_char_def)

text \<open>What the manifest's writer and reader carry exactly, at a depth every interpreter takes.\<close>

definition json_safe :: "pyval \<Rightarrow> bool" where
  "json_safe v \<longleftrightarrow> json_exact v \<and> shallow 50 v"

lemma json_depth_text: "json_safe v \<Longrightarrow> json_depth (json_text rp 0 v) \<le> 50"
  using nest_text [of v 50 0 rp 0 "[]"] by (simp add: json_safe_def json_depth_def)

section \<open>The type of what is read\<close>

text \<open>What the reader can return: no date, and in a dictionary every key once.\<close>

fun json_typed :: "pyval \<Rightarrow> bool" where
  "json_typed (PList xs) = list_all json_typed xs"
| "json_typed (PDict d) = (distinct (map fst d) \<and> list_all (\<lambda>(k, v). json_typed v) d)"
| "json_typed (PDate s) = False"
| "json_typed v = True"

lemma keys_dict_set: "set (map fst (dict_set k x d)) = insert k (set (map fst d))"
  by (simp add: dom_map_of_conv_image_fst [symmetric] map_of_dict_set)

lemma dict_set_typed: "json_typed (PDict d) \<Longrightarrow> json_typed x \<Longrightarrow> json_typed (PDict (dict_set k x d))"
proof (induction d)
  case (Cons p d)
  obtain k' y where p: "p = (k', y)" by (cases p)
  have "json_typed (PDict (dict_set k x d))" using Cons p by auto
  then show ?case using Cons.prems p keys_dict_set [of k x d] by auto
qed simp

lemma fold_dict_set_typed:
  "json_typed (PDict d) \<Longrightarrow> list_all (\<lambda>(k, v). json_typed v) m \<Longrightarrow> json_typed (PDict (fold (\<lambda>(k, v). dict_set k v) m d))"
proof (induction m arbitrary: d)
  case (Cons p m)
  then show ?case using dict_set_typed [of d "snd p" "fst p"] by (auto simp del: json_typed.simps split: prod.splits)
qed simp

lemma read_atom_typed: "(\<And>t. json_typed (fl t)) \<Longrightarrow> read_atom fl s = Some (v, r) \<Longrightarrow> json_typed v"
  by (auto simp: read_atom_def keyword_def read_number_def Let_def split: if_splits)

lemma read_typed:
  assumes "\<And>t. json_typed (fl t)"
  shows "read_value fl n s = Some (v, r) \<Longrightarrow> json_typed v"
    and "read_elems fl n s = Some (vs, r) \<Longrightarrow> list_all json_typed vs"
    and "read_members fl n s = Some (m, r) \<Longrightarrow> list_all (\<lambda>(k, v). json_typed v) m"
proof (induction n arbitrary: s v r vs m)
  case (Suc n)
  {
    case 1
    have "json_typed (PDict [])" by simp
    with 1 show ?case using Suc.IH(2,3) read_atom_typed [OF assms] fold_dict_set_typed [of "[]"]
      by (auto simp del: json_typed.simps(2) split: list.splits if_splits)
  next
    case 2
    then show ?case using Suc.IH(1,2) by (auto split: option.splits list.splits if_splits)
  next
    case 3
    then show ?case using Suc.IH(1,3) by (auto split: option.splits list.splits if_splits)
  }
qed simp_all

lemma json_loads_typed: "(\<And>t. json_typed (fl t)) \<Longrightarrow> json_loads fl s = Some v \<Longrightarrow> json_typed v"
  using read_typed(1) [of fl] by (auto simp: json_loads_def simp del: read_value.simps split: if_splits option.splits)

end
