(* ===== verification/Manifest.thy ===== *)
theory Manifest
  imports Snapshot Json
begin

text \<open>
  The manifests of \<open>scripts/bake.py\<close> and the collectors that trust them: the key of a base
  (\<open>recipe_key\<close>), \<open>write_manifest\<close>, \<open>read_manifest\<close> and \<open>key_matches\<close>; \<open>_reap\<close>,
  \<open>gc_superseded\<close>, \<open>do_gc\<close> and the park reaper \<open>reap_parks\<close>.  The three collectors are loops
  over the same listing that decide snapshot by snapshot; the locale \<open>sweep\<close> states what such a
  loop needs (a decision that depends on the snapshot and its manifest only) and what it then
  does: exactly the chosen files disappear.  Each collector is an interpretation of it.
\<close>

section \<open>Hashing and manifests\<close>

definition sha256_file :: "env \<Rightarrow> pystr \<Rightarrow> pystr sys" where
  "sha256_file E path = bind (read_file E path) (\<lambda>b. ret (sha256 E b))"

definition nether_build_id :: "env \<Rightarrow> pystr sys" where
  "nether_build_id E =
     bind (path_exists E (BIN E)) (\<lambda>x. if x then sha256_file E (BIN E) else ret (lit ''unknown''))"

definition recipe_key :: "env \<Rightarrow> bytes \<Rightarrow> pyval \<Rightarrow> pyval sys" where
  "recipe_key E recipe_bytes img =
     bind (nether_build_id E) (\<lambda>build.
     bind (lift (ebind (py_index img (lit ''kernel'')) as_str)) (\<lambda>kernel.
     bind (sha256_file E kernel) (\<lambda>kernel_sha.
     bind (lift (py_get img (lit ''initramfs'') PNone)) (\<lambda>i.
     bind (if truthy i
           then bind (lift (ebind (py_index img (lit ''initramfs'')) as_str)) (\<lambda>p.
                bind (sha256_file E p) (\<lambda>h. ret (PStr h)))
           else ret PNone) (\<lambda>initramfs_sha.
     ret (PDict [(lit ''nether_build'', PStr build), (lit ''kernel_sha'', PStr kernel_sha),
                 (lit ''initramfs_sha'', initramfs_sha), (lit ''recipe_sha'', PStr (sha256 E recipe_bytes))]))))))"

definition manifest_path :: "pystr \<Rightarrow> pystr" where
  "manifest_path snap = snap @ lit ''.manifest.json''"

definition manifest_value :: "pystr \<Rightarrow> pyval \<Rightarrow> pystr \<Rightarrow> pystr \<Rightarrow> pyval" where
  "manifest_value snap key recipe_path created =
     PDict [(lit ''schema'', PInt 1), (lit ''out'', PStr (basename snap)), (lit ''recipe'', PStr recipe_path),
            (lit ''created'', PStr created), (lit ''key'', key)]"

text \<open>A key that is no JSON value leaves an empty file behind here (CPython: a truncated one).\<close>

definition write_manifest :: "env \<Rightarrow> pystr \<Rightarrow> pyval \<Rightarrow> pystr \<Rightarrow> pystr \<Rightarrow> pyval sys" where
  "write_manifest E snap key recipe_path created =
     (let m = manifest_value snap key recipe_path created in
      seq (if json_ok m then write_text E (manifest_path snap) (json_text (py_repr E) 0 m)
           else seq (write_file E (manifest_path snap) []) (raise TypeError))
        (ret m))"

text \<open>\<open>None\<close> (the file is missing, unreadable or no JSON) and the JSON value \<open>null\<close> are the same
  Python value.  A text that is nested too deep for the interpreter (\<open>too_deep\<close>, never at a depth up to
  50) raises \<open>RecursionError\<close>, which is neither an \<open>OSError\<close> nor a \<open>ValueError\<close> and passes through.\<close>

definition read_manifest :: "env \<Rightarrow> pystr \<Rightarrow> pyval sys" where
  "read_manifest E snap =
     try_except
       (bind (read_file E (manifest_path snap)) (\<lambda>b.
        bind (lift (decode_strict b)) (\<lambda>t.
        if 50 < json_depth t \<and> too_deep E t then raise RecursionError
        else case json_loads (float_of E) t of None \<Rightarrow> raise ValueError | Some v \<Rightarrow> ret v)))
       (\<lambda>e. is_OSError e \<or> is_ValueError e) (\<lambda>_. ret PNone)"

definition key_matches :: "pyval \<Rightarrow> pyval \<Rightarrow> exn + bool" where
  "key_matches manifest key =
     (if \<not> truthy manifest then Inr False
      else ebind (py_get manifest (lit ''key'') PNone) (\<lambda>k. Inr (py_eq k key)))"

section \<open>The collectors\<close>

definition remove_quietly :: "env \<Rightarrow> pystr \<Rightarrow> unit sys" where
  "remove_quietly E p = try_except (os_remove E p) is_OSError (\<lambda>_. ret ())"

definition reap :: "env \<Rightarrow> pystr \<Rightarrow> unit sys" where
  "reap E snap = for_each [snap, manifest_path snap] (remove_quietly E)"

definition gc_superseded_body :: "env \<Rightarrow> pystr \<Rightarrow> pystr \<Rightarrow> pystr \<Rightarrow> pystr list sys" where
  "gc_superseded_body E keep recipe snap =
     (if full E snap = keep then ret []
      else
        bind (read_manifest E snap) (\<lambda>m.
        if \<not> truthy m then ret []
        else
          bind (lift (py_get m (lit ''recipe'') PNone)) (\<lambda>v.
          if py_eq v (PStr recipe) then seq (reap E snap) (ret [basename snap]) else ret [])))"

definition gc_superseded :: "env \<Rightarrow> pystr \<Rightarrow> pystr \<Rightarrow> pystr \<Rightarrow> pystr list sys" where
  "gc_superseded E bases_dir keep recipe =
     bind (glob_snaps E bases_dir) (\<lambda>snaps.
     collect snaps (gc_superseded_body E (full E keep) recipe))"

definition do_gc_body :: "env \<Rightarrow> pystr \<Rightarrow> bool \<Rightarrow> pystr \<Rightarrow> pystr list sys" where
  "do_gc_body E build orphans snap =
     bind (read_manifest E snap) (\<lambda>m.
     if m = PNone then
       (if orphans then seq (reap E snap) (ret [basename snap @ lit '' (orphan: no manifest)'']) else ret [])
     else
       bind (lift (ebind (py_index m (lit ''key'')) (\<lambda>k. py_get k (lit ''nether_build'') PNone))) (\<lambda>b.
       if \<not> (py_eq b (PStr build) \<or> py_eq b (PStr (lit ''unknown'')))
       then seq (reap E snap) (ret [basename snap @ lit '' (stale: older nether build)'']) else ret []))"

text \<open>The loop of \<open>do_gc\<close>, with the list it prints.\<close>

definition do_gc_reaped :: "env \<Rightarrow> pystr \<Rightarrow> bool \<Rightarrow> pystr list sys" where
  "do_gc_reaped E bases_dir orphans =
     bind (nether_build_id E) (\<lambda>build.
     bind (glob_snaps E bases_dir) (\<lambda>snaps.
     collect snaps (do_gc_body E build orphans)))"

definition do_gc :: "env \<Rightarrow> pystr \<Rightarrow> bool \<Rightarrow> int sys" where
  "do_gc E bases_dir orphans = seq (do_gc_reaped E bases_dir orphans) (ret 0)"

text \<open>Ages are in microseconds; \<open>int(age)\<close> cuts toward zero.\<close>

definition whole_seconds :: "int \<Rightarrow> int" where
  "whole_seconds us = (if 0 \<le> us then us div 1000000 else - ((- us) div 1000000))"

definition reap_parks_body :: "env \<Rightarrow> int \<Rightarrow> bool \<Rightarrow> int \<Rightarrow> pystr \<Rightarrow> (pystr \<times> int) list sys" where
  "reap_parks_body E ttl_s dry_run t snap =
     bind (read_snap_kind E snap) (\<lambda>k.
     if k \<noteq> Some SNAP_KIND_PARK then ret []
     else
       bind (try_except (bind (getmtime E snap) (\<lambda>mt. ret (Some (t - int mt)))) is_OSError (\<lambda>_. ret None)) (\<lambda>a.
       case a of
         None \<Rightarrow> ret []
       | Some age \<Rightarrow>
           if age \<le> ttl_s * 1000000 then ret []
           else seq (when_io (\<not> dry_run) (reap E snap)) (ret [(basename snap, whole_seconds age)])))"

definition reap_parks :: "env \<Rightarrow> pystr \<Rightarrow> int \<Rightarrow> bool \<Rightarrow> int option \<Rightarrow> (pystr \<times> int) list sys" where
  "reap_parks E parks_dir ttl_s dry_run time =
     bind (case time of None \<Rightarrow> bind time_time (\<lambda>c. ret (int c)) | Some t \<Rightarrow> ret t) (\<lambda>t.
     bind (glob_snaps E parks_dir) (\<lambda>snaps.
     collect (sort snaps) (reap_parks_body E ttl_s dry_run t)))"

section \<open>What one step does\<close>

definition removable :: "(access \<Rightarrow> pystr \<Rightarrow> bool) \<Rightarrow> fs \<Rightarrow> pystr \<Rightarrow> bool" where
  "removable den f q \<longleftrightarrow> (case node_at f q of None \<Rightarrow> False | Some (Dir _) \<Rightarrow> False | Some _ \<Rightarrow> \<not> den Rm q)"

definition rm :: "(access \<Rightarrow> pystr \<Rightarrow> bool) \<Rightarrow> pystr \<Rightarrow> fs \<Rightarrow> fs" where
  "rm den q f = (if removable den f q then fs_del q f else f)"

lemma remove_quietly_run:
  "remove_quietly E p w = Some (Inr (), w\<lparr>fs := rm (denied w) (full E p) (fs w)\<rparr>)"
  by (auto simp: remove_quietly_def os_remove_def rm_def removable_def try_except_def ret_def Let_def
      split: option.splits node.splits)

abbreviation files_of :: "env \<Rightarrow> pystr \<Rightarrow> pystr list" where
  "files_of E snap \<equiv> [full E snap, full E (manifest_path snap)]"

lemma reap_run: "reap E snap w = Some (Inr (), w\<lparr>fs := fold (rm (denied w)) (files_of E snap) (fs w)\<rparr>)"
  by (simp add: reap_def seq_def bind_def remove_quietly_run ret_def)

lemma node_at_rm: "node_at (rm den p f) q = (if q = p \<and> removable den f p then None else node_at f q)"
proof (cases "removable den f p")
  case True
  then have "p \<noteq> lit ''/''" by (auto simp: removable_def node_at_def split: if_splits)
  with True show ?thesis by (auto simp: rm_def node_at_def map_of_fs_del)
qed (simp add: rm_def)

lemma fold_rm: "fold (rm den) ps f = filter (\<lambda>(q, _). \<not> (q \<in> set ps \<and> removable den f q)) f"
proof (induction ps arbitrary: f)
  case (Cons p ps)
  have rem: "removable den (rm den p f) q \<longleftrightarrow> removable den f q" if "q \<noteq> p" for q
    using that by (simp add: removable_def [of den "rm den p f"] removable_def [of den f q] node_at_rm)
  have "fold (rm den) (p # ps) f =
      filter (\<lambda>(q, _). \<not> (q \<in> set ps \<and> removable den (rm den p f) q)) (rm den p f)"
    using Cons.IH by simp
  also have "\<dots> = filter (\<lambda>(q, _). \<not> (q \<in> set (p # ps) \<and> removable den f q)) f"
  proof (cases "removable den f p")
    case True
    have R: "removable den (rm den p f) q \<longleftrightarrow> q \<noteq> p \<and> removable den f q" for q
      using rem [of q] True by (cases "q = p") (simp_all add: removable_def [of den "rm den p f"] node_at_rm)
    have "rm den p f = filter (\<lambda>(q, _). q \<noteq> p) f" using True by (simp add: rm_def fs_del_def)
    then show ?thesis unfolding R using True by (auto intro!: filter_cong)
  next
    case False
    then have "rm den p f = f" by (simp add: rm_def)
    with False show ?thesis by (auto intro!: filter_cong)
  qed
  finally show ?case .
qed simp

text \<open>A path whose last component is no link.\<close>

definition link_free :: "fs \<Rightarrow> pystr \<Rightarrow> bool" where
  "link_free f q \<longleftrightarrow> (case node_at f q of Some (Symlink _) \<Rightarrow> False | _ \<Rightarrow> True)"

lemma resolve_link_free: "link_free f q \<Longrightarrow> 0 < n \<Longrightarrow> resolve n f q = Some q"
  by (cases n) (auto simp: link_free_def split: option.splits node.splits)

lemma stat_link_free: "link_free (fs w) (full E p) \<Longrightarrow> stat E p w = node_at (fs w) (full E p)"
  by (simp add: stat_def resolve_link_free)

lemma contents_link_free:
  "link_free (fs w) (full E p) \<Longrightarrow> contents E p w =
     (case node_at (fs w) (full E p) of
        Some (File b t) \<Rightarrow> if denied w Rd (full E p) then None else Some b | _ \<Rightarrow> None)"
  by (simp add: contents_def resolve_link_free)

definition manifest_in :: "env \<Rightarrow> bytes option \<Rightarrow> exn + pyval" where
  "manifest_in E c =
     (case c of
        None \<Rightarrow> Inr PNone
      | Some b \<Rightarrow>
          (case decode_strict b of
             Inl _ \<Rightarrow> Inr PNone
           | Inr t \<Rightarrow>
               if 50 < json_depth t \<and> too_deep E t then Inl RecursionError
               else (case json_loads (float_of E) t of None \<Rightarrow> Inr PNone | Some v \<Rightarrow> Inr v)))"

lemma decode_strict_error: "decode_strict b = Inl e \<Longrightarrow> e = ValueError"
  by (auto simp: decode_strict_def split: if_splits)

lemma read_manifest_run:
  "read_manifest E snap w = Some (manifest_in E (contents E (manifest_path snap) w), w)"
  by (auto simp: read_manifest_def manifest_in_def read_file_def try_except_def bind_def get_def ret_def
      raise_def lift_def split: option.splits sum.splits dest: decode_strict_error)

text \<open>
  C39: whatever a manifest file holds, \<open>read_manifest\<close> comes back and changes nothing.  It returns a JSON
  value (or \<open>None\<close>): no date, and every dictionary in it, at any depth, has each key once; or it
  raises \<open>RecursionError\<close>, and that only for a file that can be read and decoded and is nested more
  than 50 deep.  No other exception leaves it.
\<close>

theorem read_manifest_typed:
  assumes "\<And>t. json_typed (float_of E t)"
  shows "\<exists>r. read_manifest E snap w = Some (r, w) \<and>
           (case r of
              Inr v \<Rightarrow> json_typed v
            | Inl e \<Rightarrow> e = RecursionError \<and>
                (\<exists>b t. contents E (manifest_path snap) w = Some b \<and> decode_strict b = Inr t \<and> 50 < json_depth t))"
  unfolding read_manifest_run manifest_in_def
  using json_loads_typed [of "float_of E", OF assms] by (auto split: option.splits sum.splits)

section \<open>Sweeping a directory: the interface of a collector\<close>

definition view :: "env \<Rightarrow> pystr \<Rightarrow> world \<Rightarrow> node option list \<times> (access \<Rightarrow> pystr \<Rightarrow> bool)" where
  "view E snap w = (map (node_at (fs w)) (files_of E snap), denied w)"

definition untangled :: "env \<Rightarrow> world \<Rightarrow> pystr \<Rightarrow> bool" where
  "untangled E w snap \<longleftrightarrow> list_all (link_free (fs w)) (files_of E snap)"

definition apart :: "env \<Rightarrow> pystr list \<Rightarrow> bool" where
  "apart E snaps \<longleftrightarrow> distinct snaps \<and>
     (\<forall>s \<in> set snaps. \<forall>t \<in> set snaps. s \<noteq> t \<longrightarrow> set (files_of E s) \<inter> set (files_of E t) = {})"

locale sweep =
  fixes E :: env
    and body :: "pystr \<Rightarrow> 'r list sys"
    and chosen :: "pystr \<Rightarrow> world \<Rightarrow> bool"
    and report :: "pystr \<Rightarrow> world \<Rightarrow> 'r"
    and proper :: "pystr \<Rightarrow> world \<Rightarrow> bool"
  assumes body_run: "proper snap w \<Longrightarrow> body snap w =
      Some (Inr (if chosen snap w then [report snap w] else []),
            if chosen snap w then w\<lparr>fs := fold (rm (denied w)) (files_of E snap) (fs w)\<rparr> else w)"
    and local: "untangled E w snap \<Longrightarrow> view E snap w' = view E snap w \<Longrightarrow>
      (proper snap w' \<longleftrightarrow> proper snap w) \<and> (chosen snap w' \<longleftrightarrow> chosen snap w) \<and> report snap w' = report snap w"
begin

lemma view_untangled: "untangled E w snap \<Longrightarrow> view E snap w' = view E snap w \<Longrightarrow> untangled E w' snap"
  by (simp add: untangled_def view_def link_free_def)

lemma view_reaped:
  assumes "set (files_of E s) \<inter> set (files_of E t) = {}"
  shows "view E t (w\<lparr>fs := fold (rm (denied w)) (files_of E s) (fs w)\<rparr>) = view E t w"
  using assms by (auto simp: view_def node_at_rm)

lemma sweep_run:
  assumes "apart E snaps" and "\<forall>s \<in> set snaps. untangled E w s \<and> proper s w"
  shows "collect snaps body w =
    Some (Inr (map (\<lambda>s. report s w) (filter (\<lambda>s. chosen s w) snaps)),
          w\<lparr>fs := fold (rm (denied w)) (concat (map (files_of E) (filter (\<lambda>s. chosen s w) snaps))) (fs w)\<rparr>)"
  using assms
proof (induction snaps arbitrary: w)
  case (Cons s snaps)
  define w1 where "w1 = (if chosen s w then w\<lparr>fs := fold (rm (denied w)) (files_of E s) (fs w)\<rparr> else w)"
  have den: "denied w1 = denied w" by (simp add: w1_def)
  have v: "view E t w1 = view E t w" if "t \<in> set snaps" for t
    using view_reaped [of s t w] that Cons.prems(1) by (auto simp: w1_def apart_def)
  have same: "(proper t w1 \<longleftrightarrow> proper t w) \<and> (chosen t w1 \<longleftrightarrow> chosen t w) \<and> report t w1 = report t w"
    if "t \<in> set snaps" for t
    using local [OF _ v [OF that]] Cons.prems(2) that by simp
  have "apart E snaps" using Cons.prems(1) by (simp add: apart_def)
  moreover have "\<forall>t \<in> set snaps. untangled E w1 t \<and> proper t w1"
    using Cons.prems(2) v same view_untangled by auto
  ultimately have IH: "collect snaps body w1 = Some (Inr (map (\<lambda>s. report s w1) (filter (\<lambda>s. chosen s w1) snaps)),
      w1\<lparr>fs := fold (rm (denied w1)) (concat (map (files_of E) (filter (\<lambda>s. chosen s w1) snaps))) (fs w1)\<rparr>)"
    by (rule Cons.IH)
  have f: "filter (\<lambda>s. chosen s w1) snaps = filter (\<lambda>s. chosen s w) snaps"
    "map (\<lambda>s. report s w1) (filter (\<lambda>s. chosen s w) snaps) = map (\<lambda>s. report s w) (filter (\<lambda>s. chosen s w) snaps)"
    using same by (auto intro: filter_cong)
  have "body s w = Some (Inr (if chosen s w then [report s w] else []), w1)"
    using body_run Cons.prems(2) by (simp add: w1_def)
  then show ?case using IH f by (simp add: bind_def ret_def den) (simp add: w1_def)
qed (simp add: ret_def)

end

section \<open>The three collectors\<close>

lemma view_same:
  assumes "untangled E w s" and "view E s w' = view E s w"
  shows "stat E s w' = stat E s w" and "contents E s w' = contents E s w"
    and "contents E (manifest_path s) w' = contents E (manifest_path s) w"
proof -
  have l: "link_free (fs w) (full E s)" "link_free (fs w) (full E (manifest_path s))"
    using assms(1) by (simp_all add: untangled_def)
  have n: "node_at (fs w') (full E s) = node_at (fs w) (full E s)"
    "node_at (fs w') (full E (manifest_path s)) = node_at (fs w) (full E (manifest_path s))"
    "denied w' = denied w" using assms(2) by (simp_all add: view_def)
  have l': "link_free (fs w') (full E s)" "link_free (fs w') (full E (manifest_path s))"
    using l n by (simp_all add: link_free_def)
  show "stat E s w' = stat E s w" "contents E s w' = contents E s w"
    "contents E (manifest_path s) w' = contents E (manifest_path s) w"
    using l l' n by (simp_all add: stat_link_free contents_link_free cong: option.case_cong node.case_cong)
qed

text \<open>A park of this format whose age exceeds the limit.\<close>

definition expired_park :: "env \<Rightarrow> int \<Rightarrow> int \<Rightarrow> pystr \<Rightarrow> world \<Rightarrow> bool" where
  "expired_park E ttl t s w \<longleftrightarrow>
     Option.bind (contents E s w) (header_field 80) = Some SNAP_KIND_PARK \<and>
     (case stat E s w of None \<Rightarrow> False | Some n \<Rightarrow> ttl * 1000000 < t - int (node_mtime n))"

definition park_report :: "env \<Rightarrow> int \<Rightarrow> pystr \<Rightarrow> world \<Rightarrow> pystr \<times> int" where
  "park_report E t s w =
     (basename s, whole_seconds (t - (case stat E s w of None \<Rightarrow> 0 | Some n \<Rightarrow> int (node_mtime n))))"

lemma reap_parks_body_run:
  "reap_parks_body E ttl dry t s w =
     Some (Inr (if expired_park E ttl t s w then [park_report E t s w] else []),
           if expired_park E ttl t s w \<and> \<not> dry then w\<lparr>fs := fold (rm (denied w)) (files_of E s) (fs w)\<rparr> else w)"
proof -
  have "try_except (bind (getmtime E s) (\<lambda>mt. ret (Some (t - int mt)))) is_OSError (\<lambda>_. ret None) w =
      Some (Inr (map_option (\<lambda>n. t - int (node_mtime n)) (stat E s w)), w)"
    by (cases "stat E s w") (simp_all add: getmtime_def try_except_def bind_def get_def ret_def raise_def)
  then show ?thesis
    by (cases "stat E s w")
       (auto simp: reap_parks_body_def bind_def [of "read_snap_kind E s"] bind_def [of "try_except _ _ _"]
         read_snap_kind_run ret_def expired_park_def park_report_def seq_def bind_def [of "reap E s"]
         bind_def [of "ret ()"] when_io_def reap_run)
qed

interpretation parks: sweep E "reap_parks_body E ttl False t" "expired_park E ttl t" "park_report E t" "\<lambda>_ _. True"
  for E ttl t
proof unfold_locales
  fix w w' snap
  assume "untangled E w snap" and "view E snap w' = view E snap w"
  from view_same [OF this] show "(True \<longleftrightarrow> True) \<and> (expired_park E ttl t snap w' \<longleftrightarrow> expired_park E ttl t snap w) \<and>
      park_report E t snap w' = park_report E t snap w"
    by (simp add: expired_park_def park_report_def)
qed (simp add: reap_parks_body_run)

definition same_recipe :: "exn + pyval \<Rightarrow> pystr \<Rightarrow> bool" where
  "same_recipe m recipe \<longleftrightarrow>
     (case m of Inr (PDict d) \<Rightarrow> map_of d (lit ''recipe'') = Some (PStr recipe) | _ \<Rightarrow> False)"

definition superseded :: "env \<Rightarrow> pystr \<Rightarrow> pystr \<Rightarrow> pystr \<Rightarrow> world \<Rightarrow> bool" where
  "superseded E keep recipe s w \<longleftrightarrow>
     full E s \<noteq> keep \<and> same_recipe (manifest_in E (contents E (manifest_path s) w)) recipe"

text \<open>A manifest is missing or a dictionary; \<open>.get\<close> raises on anything else.\<close>

definition dict_manifest :: "exn + pyval \<Rightarrow> bool" where
  "dict_manifest m \<longleftrightarrow> (case m of Inr PNone \<Rightarrow> True | Inr (PDict _) \<Rightarrow> True | _ \<Rightarrow> False)"

lemma py_eq_PStr_right [simp]: "py_eq v (PStr s) \<longleftrightarrow> v = PStr s"
  by (cases v) (simp_all add: py_eq.simps num_val_def)

lemma gc_superseded_body_run:
  assumes "dict_manifest (manifest_in E (contents E (manifest_path s) w))"
  shows "gc_superseded_body E keep recipe s w =
    Some (Inr (if superseded E keep recipe s w then [basename s] else []),
          if superseded E keep recipe s w then w\<lparr>fs := fold (rm (denied w)) (files_of E s) (fs w)\<rparr> else w)"
  using assms
  by (auto simp: gc_superseded_body_def superseded_def same_recipe_def dict_manifest_def bind_def seq_def
      read_manifest_run ret_def lift_def reap_run split: sum.splits pyval.splits option.splits)

interpretation generations: sweep E "gc_superseded_body E keep recipe" "superseded E keep recipe" "\<lambda>s _. basename s"
    "\<lambda>s w. dict_manifest (manifest_in E (contents E (manifest_path s) w))"
  for E keep recipe
proof unfold_locales
  fix w w' snap
  assume "untangled E w snap" and "view E snap w' = view E snap w"
  from view_same(3) [OF this]
  show "(dict_manifest (manifest_in E (contents E (manifest_path snap) w')) \<longleftrightarrow>
         dict_manifest (manifest_in E (contents E (manifest_path snap) w))) \<and>
      (superseded E keep recipe snap w' \<longleftrightarrow> superseded E keep recipe snap w) \<and> basename snap = basename snap"
    by (simp add: superseded_def)
qed (rule gc_superseded_body_run)

definition stale_build :: "exn + pyval \<Rightarrow> pystr \<Rightarrow> bool" where
  "stale_build m build \<longleftrightarrow>
     (case m of
        Inr (PDict d) \<Rightarrow>
          (case map_of d (lit ''key'') of
             Some (PDict k) \<Rightarrow> map_of k (lit ''nether_build'') \<notin> {Some (PStr build), Some (PStr (lit ''unknown''))}
           | _ \<Rightarrow> False)
      | _ \<Rightarrow> False)"

definition garbage :: "env \<Rightarrow> pystr \<Rightarrow> bool \<Rightarrow> pystr \<Rightarrow> world \<Rightarrow> bool" where
  "garbage E build orphans s w \<longleftrightarrow>
     (let m = manifest_in E (contents E (manifest_path s) w) in if m = Inr PNone then orphans else stale_build m build)"

text \<open>A manifest is missing or has a dictionary under \<open>key\<close>, as \<open>write_manifest\<close> writes it.\<close>

definition keyed_manifest :: "exn + pyval \<Rightarrow> bool" where
  "keyed_manifest m \<longleftrightarrow>
     (case m of
        Inr PNone \<Rightarrow> True
      | Inr (PDict d) \<Rightarrow> (case map_of d (lit ''key'') of Some (PDict k) \<Rightarrow> True | _ \<Rightarrow> False)
      | _ \<Rightarrow> False)"

definition gc_report :: "env \<Rightarrow> pystr \<Rightarrow> world \<Rightarrow> pystr" where
  "gc_report E s w =
     basename s @ (if manifest_in E (contents E (manifest_path s) w) = Inr PNone
                   then lit '' (orphan: no manifest)'' else lit '' (stale: older nether build)'')"

lemma do_gc_body_run:
  assumes "keyed_manifest (manifest_in E (contents E (manifest_path s) w))"
  shows "do_gc_body E build orphans s w =
    Some (Inr (if garbage E build orphans s w then [gc_report E s w] else []),
          if garbage E build orphans s w then w\<lparr>fs := fold (rm (denied w)) (files_of E s) (fs w)\<rparr> else w)"
  using assms
  by (auto simp: do_gc_body_def garbage_def stale_build_def keyed_manifest_def gc_report_def bind_def seq_def
      read_manifest_run ret_def lift_def reap_run Let_def split: sum.splits pyval.splits option.splits)

interpretation builds: sweep E "do_gc_body E build orphans" "garbage E build orphans" "gc_report E"
    "\<lambda>s w. keyed_manifest (manifest_in E (contents E (manifest_path s) w))"
  for E build orphans
proof unfold_locales
  fix w w' snap
  assume "untangled E w snap" and "view E snap w' = view E snap w"
  from view_same(3) [OF this]
  show "(keyed_manifest (manifest_in E (contents E (manifest_path snap) w')) \<longleftrightarrow>
         keyed_manifest (manifest_in E (contents E (manifest_path snap) w))) \<and>
      (garbage E build orphans snap w' \<longleftrightarrow> garbage E build orphans snap w) \<and> gc_report E snap w' = gc_report E snap w"
    by (simp add: garbage_def gc_report_def)
qed (rule do_gc_body_run)

section \<open>Exactly the garbage disappears\<close>

abbreviation snaps_of :: "env \<Rightarrow> pystr \<Rightarrow> world \<Rightarrow> pystr list" where
  "snaps_of E d w \<equiv> map (join d) (snaps_in (full E d) (fs w))"

text \<open>A directory whose snapshots and manifests are no symbolic links.\<close>

definition tidy :: "env \<Rightarrow> pystr \<Rightarrow> world \<Rightarrow> bool" where
  "tidy E d w \<longleftrightarrow> isabs (cwd E) \<and> distinct (map fst (fs w)) \<and> list_all (untangled E w) (snaps_of E d w)"

lemma snaps_in_iff:
  "n \<in> set (snaps_in D f) \<longleftrightarrow> is_snap_name n \<and> slash \<notin> set n \<and> join D n \<in> fst ` set f"
proof
  assume "n \<in> set (snaps_in D f)"
  then obtain k v where "(k, v) \<in> set f" "n = basename k" "k = join D (basename k)" "is_snap_name (basename k)"
    by (auto simp: snaps_in_def)
  then show "is_snap_name n \<and> slash \<notin> set n \<and> join D n \<in> fst ` set f"
    using basename_no_slash by (auto simp: image_iff intro!: bexI [of _ "(k, v)"])
next
  assume n: "is_snap_name n \<and> slash \<notin> set n \<and> join D n \<in> fst ` set f"
  then obtain v where "(join D n, v) \<in> set f" by auto
  moreover have "basename (join D n) = n" using n snap_name_plain basename_join plain_def by blast
  ultimately show "n \<in> set (snaps_in D f)" using n by (force simp: snaps_in_def)
qed

lemma plain_snap: "n \<in> set (snaps_in D f) \<Longrightarrow> plain n"
  using snap_name_plain by (simp add: snaps_in_iff)

lemma plain_append: "plain n \<Longrightarrow> 1 < length n \<Longrightarrow> slash \<notin> set x \<Longrightarrow> length n + length x > 2 \<Longrightarrow> plain (n @ x)"
proof -
  assume a: "plain n" "1 < length n" "slash \<notin> set x" "length n + length x > 2"
  have "n @ x \<noteq> lit ''.''" "n @ x \<noteq> lit ''..''"
  proof -
    have "2 < length (n @ x)" using a by simp
    then show "n @ x \<noteq> lit ''.''" "n @ x \<noteq> lit ''..''" by (auto simp: lit_def dest: arg_cong [of _ _ length])
  qed
  then show ?thesis using a by (simp add: plain_def)
qed

lemma files_of_snap:
  assumes "isabs (cwd E)" and "n \<in> set (snaps_in D f)"
  shows "files_of E (join d n) = [join (full E d) n, join (full E d) (n @ lit ''.manifest.json'')]"
    and "plain (n @ lit ''.manifest.json'')" and "\<not> is_snap_name (n @ lit ''.manifest.json'')"
proof -
  have p: "plain n" by (rule plain_snap [OF assms(2)])
  have "is_snap_name n" using assms(2) by (simp add: snaps_in_iff)
  then have "5 \<le> length n" by (auto simp: is_snap_name_def endswith_def suffix_def lit_def)
  then show q: "plain (n @ lit ''.manifest.json'')" using p by (intro plain_append) (auto simp: lit_def)
  show "files_of E (join d n) = [join (full E d) n, join (full E d) (n @ lit ''.manifest.json'')]"
    using abspath_join [OF assms(1) p, of d] abspath_join [OF assms(1) q, of d] join_append [OF p]
    by (simp add: full_def manifest_path_def)
  have "last (n @ lit ''.manifest.json'') \<noteq> last (lit ''.snap'')" by (simp add: lit_def)
  then show "\<not> is_snap_name (n @ lit ''.manifest.json'')"
    by (auto simp: is_snap_name_def endswith_def suffix_def lit_def)
qed

lemma distinct_snaps_in: "distinct (map fst f) \<Longrightarrow> distinct (snaps_in D f)"
proof -
  assume d: "distinct (map fst f)"
  let ?g = "filter (\<lambda>(k, _). k = join D (basename k) \<and> is_snap_name (basename k)) f"
  have "distinct (map fst ?g)" using d by (rule distinct_map_filter)
  moreover have "inj_on basename (set (map fst ?g))"
    by (rule inj_onI) (auto simp: split_beta)
  ultimately have "distinct (map basename (map fst ?g))" by (simp only: distinct_map)
  then show ?thesis by (simp add: snaps_in_def)
qed

lemma snaps_apart:
  assumes "isabs (cwd E)" and "distinct (map fst (fs w))"
  shows "apart E (snaps_of E d w)"
proof -
  let ?S = "snaps_in (full E d) (fs w)"
  have "inj_on (join d) (set ?S)" by (intro inj_onI) (metis join_inj plain_snap)
  then have "distinct (snaps_of E d w)"
    using distinct_snaps_in [OF assms(2)] by (simp add: distinct_map)
  moreover have "set (files_of E (join d m)) \<inter> set (files_of E (join d n)) = {}"
    if m: "m \<in> set ?S" and n: "n \<in> set ?S" and "join d m \<noteq> join d n" for m n
  proof -
    let ?x = "lit ''.manifest.json''"
    note fm = files_of_snap(1) [OF assms(1) m, of d] files_of_snap(2,3) [OF assms(1) m]
      and fn = files_of_snap(1) [OF assms(1) n, of d] files_of_snap(2,3) [OF assms(1) n]
    have "m \<noteq> n" using that by blast
    moreover have "m \<noteq> n @ ?x" "n \<noteq> m @ ?x" using fm(3) fn(3) m n by (auto simp: snaps_in_iff)
    ultimately have "join (full E d) a \<noteq> join (full E d) b" if "a \<in> {m, m @ ?x}" "b \<in> {n, n @ ?x}" for a b
      using that join_inj [of a b "full E d"] plain_snap [OF m] plain_snap [OF n] fm(2) fn(2) by auto
    then show ?thesis using fm(1) fn(1) by auto
  qed
  ultimately show ?thesis by (auto simp: apart_def)
qed

lemma glob_snaps_run: "glob_snaps E d w = Some (Inr (snaps_of E d w), w)"
  by (simp add: glob_snaps_def get_def)

lemma apart_sort: "apart E (sort snaps) = apart E snaps"
  by (simp add: apart_def)

text \<open>The file system without the removable ones among the files of the given snapshots.\<close>

definition without :: "env \<Rightarrow> world \<Rightarrow> pystr list \<Rightarrow> fs" where
  "without E w victims =
     filter (\<lambda>(q, _). \<not> (q \<in> set (concat (map (files_of E) victims)) \<and> removable (denied w) (fs w) q)) (fs w)"

lemma without_fold: "fold (rm (denied w)) (concat (map (files_of E) victims)) (fs w) = without E w victims"
  unfolding without_def by (rule fold_rm)

definition at_time :: "int option \<Rightarrow> world \<Rightarrow> int" where
  "at_time time w = (case time of None \<Rightarrow> int (clock w) | Some t \<Rightarrow> t)"

lemma reap_parks_eq:
  "reap_parks E d ttl dry time w =
     collect (sort (snaps_of E d w)) (reap_parks_body E ttl dry (at_time time w)) w"
  by (cases time) (simp_all add: reap_parks_def bind_def time_time_def get_def ret_def glob_snaps_run at_time_def)

text \<open>
  C2: the park reaper removes exactly the parks of this format whose age exceeds the limit,
  each with its manifest, and reports them in order of name with their age in seconds: every other
  file (bases, fresh parks, truncated or foreign files) is as it was.  A file that may not be
  removed stays.
\<close>

theorem reap_parks_exact:
  assumes "tidy E d w"
  shows "reap_parks E d ttl False time w =
    (let victims = filter (\<lambda>s. expired_park E ttl (at_time time w) s w) (sort (snaps_of E d w))
     in Some (Inr (map (\<lambda>s. park_report E (at_time time w) s w) victims), w\<lparr>fs := without E w victims\<rparr>))"
proof -
  have "apart E (sort (snaps_of E d w))" using assms snaps_apart by (simp add: tidy_def apart_sort)
  moreover have "\<forall>s \<in> set (sort (snaps_of E d w)). untangled E w s \<and> True"
    using assms by (simp add: tidy_def list_all_iff)
  ultimately have "collect (sort (snaps_of E d w)) (reap_parks_body E ttl False (at_time time w)) w =
    (let victims = filter (\<lambda>s. expired_park E ttl (at_time time w) s w) (sort (snaps_of E d w))
     in Some (Inr (map (\<lambda>s. park_report E (at_time time w) s w) victims),
              w\<lparr>fs := fold (rm (denied w)) (concat (map (files_of E) victims)) (fs w)\<rparr>))"
    unfolding Let_def by (rule parks.sweep_run)
  then show ?thesis by (simp add: reap_parks_eq without_fold Let_def)
qed

lemma collect_pure:
  assumes "\<And>x. x \<in> set xs \<Longrightarrow> f x w = Some (Inr (g x), w)"
  shows "collect xs f w = Some (Inr (concat (map g xs)), w)"
  using assms by (induction xs) (simp_all add: ret_def bind_def)

lemma concat_singletons: "concat (map (\<lambda>s. if P s then [f s] else []) xs) = map f (filter P xs)"
  by (induction xs) simp_all

text \<open>
  C37: a dry run changes nothing and reports what the real run would report.
\<close>

theorem reap_parks_dry_run:
  assumes "tidy E d w"
  shows "\<exists>r w'. reap_parks E d ttl True time w = Some (Inr r, w) \<and> reap_parks E d ttl False time w = Some (Inr r, w')"
proof -
  have apart: "apart E (sort (snaps_of E d w))" using assms snaps_apart by (simp add: tidy_def apart_sort)
  have "\<forall>s \<in> set (sort (snaps_of E d w)). untangled E w s \<and> True"
    using assms by (simp add: tidy_def list_all_iff)
  note real = parks.sweep_run [OF apart this, of ttl "at_time time w"]
  have "reap_parks E d ttl True time w =
      Some (Inr (concat (map (\<lambda>s. if expired_park E ttl (at_time time w) s w then [park_report E (at_time time w) s w]
        else []) (sort (snaps_of E d w)))), w)"
    unfolding reap_parks_eq by (rule collect_pure) (simp add: reap_parks_body_run)
  then show ?thesis using real by (simp add: reap_parks_eq concat_singletons)
qed

text \<open>Removing files never makes a path lead to something else.\<close>

definition shrunk :: "world \<Rightarrow> world \<Rightarrow> bool" where
  "shrunk w w' \<longleftrightarrow> denied w' = denied w \<and>
     (\<forall>q n. node_at (fs w') q = Some n \<longrightarrow> node_at (fs w) q = Some n)"

lemma shrunk_trans: "shrunk w w1 \<Longrightarrow> shrunk w1 w2 \<Longrightarrow> shrunk w w2"
  by (auto simp: shrunk_def)

lemma resolve_shrunk:
  assumes "\<And>q n. node_at f' q = Some n \<Longrightarrow> node_at f q = Some n"
    and "resolve k f' p = Some q" and "node_at f' q = Some n"
  shows "resolve k f p = Some q"
  using assms(2)
proof (induction k arbitrary: p)
  case (Suc k)
  show ?case
  proof (cases "node_at f' p")
    case None
    with Suc.prems assms(3) show ?thesis by simp
  next
    case (Some m)
    with assms(1) Suc show ?thesis by (cases m) auto
  qed
qed simp

lemma contents_shrunk: "shrunk w w' \<Longrightarrow> contents E s w' = Some b \<Longrightarrow> contents E s w = Some b"
  using resolve_shrunk [of "fs w'" "fs w" 41 "full E s"]
  by (fastforce simp: contents_def shrunk_def split: option.splits node.splits if_splits)

lemma stat_shrunk: "shrunk w w' \<Longrightarrow> stat E s w' = Some n \<Longrightarrow> stat E s w = Some n"
  using resolve_shrunk [of "fs w'" "fs w" 41 "full E s"]
  by (fastforce simp: stat_def shrunk_def split: option.splits)

lemma expired_shrunk: "shrunk w w' \<Longrightarrow> expired_park E ttl t s w' \<Longrightarrow> expired_park E ttl t s w"
  by (auto simp: expired_park_def bind_eq_Some_conv dest: contents_shrunk stat_shrunk
      split: option.splits)

text \<open>
  C13: with any links and access rights, the park reaper returns, and a path that is not as it was
  afterwards is a park snapshot that had expired, or its manifest: no base is ever at risk.
\<close>

theorem reap_parks_spares:
  "\<exists>r w'. reap_parks E d ttl dry time w = Some (Inr r, w') \<and>
     (\<forall>q. node_at (fs w') q \<noteq> node_at (fs w) q \<longrightarrow>
        (\<exists>s \<in> set (snaps_of E d w). expired_park E ttl (at_time time w) s w \<and> q \<in> set (files_of E s)))"
proof -
  let ?P = "\<lambda>ss w'. shrunk w w' \<and> (\<forall>q. node_at (fs w') q \<noteq> node_at (fs w) q \<longrightarrow>
      (\<exists>s \<in> ss. expired_park E ttl (at_time time w) s w \<and> q \<in> set (files_of E s)))"
  let ?body = "reap_parks_body E ttl dry (at_time time w)"
  have "\<exists>r w2. collect ss ?body w1 = Some (Inr r, w2) \<and> ?P S w2"
    if "?P S w1" "set ss \<subseteq> S" for ss S w1
    using that
  proof (induction ss arbitrary: w1)
    case (Cons s ss)
    define w2 where "w2 = (if expired_park E ttl (at_time time w) s w1 \<and> \<not> dry
        then w1\<lparr>fs := fold (rm (denied w1)) (files_of E s) (fs w1)\<rparr> else w1)"
    obtain r where r: "?body s w1 = Some (Inr r, w2)" by (simp add: reap_parks_body_run w2_def)
    have "shrunk w1 w2" by (simp add: shrunk_def node_at_rm w2_def)
    then have "shrunk w w2" by (rule shrunk_trans [OF conjunct1 [OF Cons.prems(1)]])
    moreover have "expired_park E ttl (at_time time w) s w1 \<Longrightarrow> expired_park E ttl (at_time time w) s w"
      using Cons.prems(1) expired_shrunk by blast
    then have "\<exists>s \<in> S. expired_park E ttl (at_time time w) s w \<and> q \<in> set (files_of E s)"
      if "node_at (fs w2) q \<noteq> node_at (fs w) q" for q
      using that Cons.prems
      by (cases "node_at (fs w1) q = node_at (fs w) q") (auto simp: node_at_rm w2_def split: if_splits)
    ultimately have "?P S w2" by blast
    moreover have "set ss \<subseteq> S" using Cons.prems(2) by simp
    ultimately obtain r2 w3 where "collect ss ?body w2 = Some (Inr r2, w3)" "?P S w3"
      using Cons.IH by blast
    then show ?case using r by (auto simp: bind_def ret_def)
  qed (auto simp: ret_def)
  from this [of w "set (snaps_of E d w)" "sort (snaps_of E d w)"] show ?thesis
    by (auto simp: reap_parks_eq shrunk_def)
qed

text \<open>
  C5: after a bake, exactly the other snapshots of the directory whose manifest names the same
  recipe disappear, with their manifests; the base just written, orphans and the bases of other
  recipes stay.
\<close>

theorem gc_superseded_exact:
  assumes "tidy E d w"
    and "\<forall>s \<in> set (snaps_of E d w). dict_manifest (manifest_in E (contents E (manifest_path s) w))"
  shows "gc_superseded E d keep recipe w =
    (let victims = filter (\<lambda>s. superseded E (full E keep) recipe s w) (snaps_of E d w)
     in Some (Inr (map basename victims), w\<lparr>fs := without E w victims\<rparr>))"
proof -
  have "apart E (snaps_of E d w)" using assms(1) snaps_apart by (simp add: tidy_def)
  moreover have "\<forall>s \<in> set (snaps_of E d w). untangled E w s \<and>
      dict_manifest (manifest_in E (contents E (manifest_path s) w))"
    using assms by (simp add: tidy_def list_all_iff)
  ultimately show ?thesis
    using generations.sweep_run [of E "snaps_of E d w" w "full E keep" recipe]
    by (simp add: gc_superseded_def bind_def glob_snaps_run without_fold Let_def)
qed

lemma nether_build_id_run:
  "stat E (BIN E) w = None \<Longrightarrow> nether_build_id E w = Some (Inr (lit ''unknown''), w)"
  "contents E (BIN E) w = Some b \<Longrightarrow> nether_build_id E w = Some (Inr (sha256 E b), w)"
  by (auto simp: nether_build_id_def path_exists_def sha256_file_def read_file_def bind_def get_def ret_def
      contents_def stat_def split: option.splits)

lemma do_gc_run:
  assumes "tidy E d w" and "nether_build_id E w = Some (Inr build, w)"
    and "\<forall>s \<in> set (snaps_of E d w). keyed_manifest (manifest_in E (contents E (manifest_path s) w))"
  shows "do_gc E d orphans w =
    Some (Inr 0, w\<lparr>fs := without E w (filter (\<lambda>s. garbage E build orphans s w) (snaps_of E d w))\<rparr>)"
proof -
  have "apart E (snaps_of E d w)" using assms(1) snaps_apart by (simp add: tidy_def)
  moreover have "\<forall>s \<in> set (snaps_of E d w). untangled E w s \<and>
      keyed_manifest (manifest_in E (contents E (manifest_path s) w))"
    using assms(1,3) by (simp add: tidy_def list_all_iff)
  ultimately show ?thesis
    using builds.sweep_run [of E "snaps_of E d w" w build orphans]
    by (simp add: do_gc_def do_gc_reaped_def seq_def bind_def glob_snaps_run without_fold assms(2) ret_def)
qed

lemma map_of_filter_key: "P q \<Longrightarrow> map_of (filter (\<lambda>(k, _). P k) xs) q = map_of xs q"
  by (induction xs) auto

lemma without_spares:
  assumes "apart E snaps" and "snap \<in> set snaps" and "set victims \<subseteq> set snaps" and "snap \<notin> set victims"
    and "q \<in> set (files_of E snap)"
  shows "map_of (without E w victims) q = map_of (fs w) q"
proof -
  have "q \<notin> set (concat (map (files_of E) victims))"
    using assms unfolding apart_def by (auto 0 4)
  then show ?thesis unfolding without_def by (intro map_of_filter_key) blast
qed

text \<open>
  C11: \<open>gc\<close> removes exactly the bases whose manifest names another build than the binary's (and
  not \<open>"unknown"\<close>), and with \<open>--orphans\<close> also the snapshots without a manifest.
\<close>

theorem do_gc_exact:
  assumes "tidy E d w" and "contents E (BIN E) w = Some bin"
    and "\<forall>s \<in> set (snaps_of E d w). keyed_manifest (manifest_in E (contents E (manifest_path s) w))"
  shows "do_gc E d orphans w =
    Some (Inr 0, w\<lparr>fs := without E w (filter (\<lambda>s. garbage E (sha256 E bin) orphans s w) (snaps_of E d w))\<rparr>)"
  by (rule do_gc_run [OF assms(1) nether_build_id_run(2) [OF assms(2)] assms(3)])

text \<open>The base \<open>s\<close> has a manifest that names the build \<open>h\<close>.\<close>

definition baked_by :: "env \<Rightarrow> pystr \<Rightarrow> world \<Rightarrow> pystr \<Rightarrow> bool" where
  "baked_by E s w h \<longleftrightarrow>
     (case manifest_in E (contents E (manifest_path s) w) of
        Inr (PDict d) \<Rightarrow>
          (case map_of d (lit ''key'') of Some (PDict k) \<Rightarrow> map_of k (lit ''nether_build'') = Some (PStr h) | _ \<Rightarrow> False)
      | _ \<Rightarrow> False)"

lemma baked_by_garbage: "baked_by E s w h \<Longrightarrow> h \<noteq> build \<Longrightarrow> h \<noteq> lit ''unknown'' \<Longrightarrow> garbage E build orphans s w"
  by (auto simp: baked_by_def garbage_def stale_build_def Let_def split: sum.splits pyval.splits option.splits)

lemma without_removed:
  "s \<in> set victims \<Longrightarrow> q \<in> set (files_of E s) \<Longrightarrow> removable (denied w) (fs w) q \<Longrightarrow> map_of (without E w victims) q = None"
  by (auto simp: without_def map_of_eq_None_iff)

text \<open>
  C29: without a binary the current build is \<open>"unknown"\<close>, and \<open>gc\<close> removes every base that a
  real build baked, the current ones included.
\<close>

theorem do_gc_without_binary:
  assumes "tidy E d w" and "stat E (BIN E) w = None"
    and "\<forall>s \<in> set (snaps_of E d w). keyed_manifest (manifest_in E (contents E (manifest_path s) w))"
    and "s \<in> set (snaps_of E d w)" and "baked_by E s w h" and "h \<noteq> lit ''unknown''"
    and "removable (denied w) (fs w) (full E s)"
  shows "\<exists>w'. do_gc E d orphans w = Some (Inr 0, w') \<and> map_of (fs w') (full E s) = None"
proof -
  have "s \<in> set (filter (\<lambda>s. garbage E (lit ''unknown'') orphans s w) (snaps_of E d w))"
    using assms(4) baked_by_garbage [OF assms(5,6,6)] by simp
  then show ?thesis
    using do_gc_run [OF assms(1) nether_build_id_run(1) [OF assms(2)] assms(3)] without_removed [OF _ _ assms(7)]
    by simp
qed

section \<open>The manifest round trip\<close>

lemma json_exact_ok: "json_exact v \<Longrightarrow> json_ok v"
  by (induction v rule: json_ok.induct) (auto simp: list_all_iff)

lemma resolve_put:
  assumes "resolve k f p = Some q" and "q \<noteq> lit ''/''" and "\<And>t. n \<noteq> Symlink t"
  shows "resolve k (fs_put q n f) p = Some q"
  using assms(1)
proof (induction k arbitrary: p)
  case (Suc k)
  show ?case
  proof (cases "p = q")
    case True
    then show ?thesis using assms(2,3) by (cases n) (auto simp: node_at_def map_of_fs_put)
  next
    case False
    then have "node_at (fs_put q n f) p = node_at f p" by (simp add: node_at_def map_of_fs_put)
    then show ?thesis using Suc False by (auto split: option.splits node.splits)
  qed
qed simp

text \<open>Writing a file that the path leads to, and reading it back.\<close>

definition can_write :: "env \<Rightarrow> pystr \<Rightarrow> world \<Rightarrow> bool" where
  "can_write E p w \<longleftrightarrow>
     (case resolve 41 (fs w) (full E p) of None \<Rightarrow> False | Some q \<Rightarrow> writable q w \<and> \<not> denied w Rd q)"

lemma write_read_file:
  assumes "can_write E p w"
  shows "\<exists>w'. write_file E p b w = Some (Inr (), w') \<and> contents E p w' = Some b"
proof -
  obtain q where q: "resolve 41 (fs w) (full E p) = Some q" "writable q w" "\<not> denied w Rd q"
    using assms by (auto simp: can_write_def split: option.splits)
  have "q \<noteq> lit ''/''" using q(2) by (auto simp: writable_def node_at_def)
  then show ?thesis
    using q resolve_put [OF q(1), of "File b (clock w)"]
    by (simp add: write_file_def contents_def node_at_def map_of_fs_put)
qed

lemma encode_json_text: "json_safe m \<Longrightarrow> encode (json_text f 0 m) = Inr (map word_of_nat (json_text f 0 m))"
  using json_text_ascii [of m] by (intro encode_ascii) (auto simp: json_safe_def)

lemma manifest_in_text: "json_safe m \<Longrightarrow> manifest_in E (Some (map word_of_nat (json_text f 0 m))) = Inr m"
  using decode_strict_encode [OF encode_json_text] json_loads_text [of m] json_depth_text [of m f]
  by (auto simp: manifest_in_def json_safe_def)

text \<open>
  C7: what \<open>write_manifest\<close> writes, \<open>read_manifest\<close> returns, and \<open>key_matches\<close> then holds for
  a key exactly when it equals the one that was written.
\<close>

theorem manifest_round_trip:
  assumes "can_write E (manifest_path snap) w"
    and "json_safe (manifest_value snap key recipe created)"
  shows "\<exists>w'. write_manifest E snap key recipe created w = Some (Inr (manifest_value snap key recipe created), w') \<and>
           read_manifest E snap w' = Some (Inr (manifest_value snap key recipe created), w') \<and>
           (\<forall>key'. key_matches (manifest_value snap key recipe created) key' = Inr (py_eq key key'))"
proof -
  let ?m = "manifest_value snap key recipe created"
  let ?t = "json_text (py_repr E) 0 ?m"
  have e: "encode ?t = Inr (map word_of_nat ?t)" by (rule encode_json_text [OF assms(2)])
  obtain w' where w': "write_file E (manifest_path snap) (map word_of_nat ?t) w = Some (Inr (), w')"
    "contents E (manifest_path snap) w' = Some (map word_of_nat ?t)"
    using write_read_file [OF assms(1)] by blast
  have "write_manifest E snap key recipe created w = Some (Inr ?m, w')"
    using w'(1) e json_exact_ok [of ?m] assms(2) by (simp add: json_safe_def write_manifest_def Let_def write_text_def seq_def bind_def ret_def)
  moreover have "manifest_in E (Some (map word_of_nat ?t)) = Inr ?m" by (rule manifest_in_text [OF assms(2)])
  then have "read_manifest E snap w' = Some (Inr ?m, w')" using w'(2) by (simp add: read_manifest_run)
  moreover have "key_matches ?m key' = Inr (py_eq key key')" for key'
    by (simp add: key_matches_def manifest_value_def lit_def)
  ultimately show ?thesis by blast
qed

text \<open>Equality of two keys is equality of the four hashes.\<close>

definition base_key :: "pystr \<Rightarrow> pystr \<Rightarrow> pystr option \<Rightarrow> pystr \<Rightarrow> pyval" where
  "base_key build kern initramfs recipe =
     PDict [(lit ''nether_build'', PStr build), (lit ''kernel_sha'', PStr kern),
            (lit ''initramfs_sha'', case initramfs of None \<Rightarrow> PNone | Some h \<Rightarrow> PStr h),
            (lit ''recipe_sha'', PStr recipe)]"

lemma py_eq_base_key:
  "py_eq (base_key b k i r) (base_key b' k' i' r') \<longleftrightarrow> b = b' \<and> k = k' \<and> i = i' \<and> r = r'"
  by (auto simp: base_key_def py_eq_dict lit_def split: option.splits)

lemma json_exact_base_key:
  "json_exact (base_key b k i r) \<longleftrightarrow>
     list_all is_scalar b \<and> list_all is_scalar k \<and> list_all is_scalar r \<and> (\<forall>h. i = Some h \<longrightarrow> list_all is_scalar h)"
  by (auto simp: base_key_def lit_def is_scalar_def split: option.splits)

lemma json_safe_manifest:
  "json_safe (manifest_value snap (base_key b k i r) recipe created) \<longleftrightarrow>
     json_exact (manifest_value snap (base_key b k i r) recipe created)"
  by (simp add: json_safe_def manifest_value_def base_key_def split: option.splits)

end
