(* ===== verification/Recipe.thy ===== *)
theory Recipe
  imports Manifest
begin

text \<open>
  Recipes: \<open>load_recipe\<close>, \<open>validate_recipe\<close> and \<open>render_conf\<close> of \<open>scripts/bake.py\<close>.  A recipe is a
  Python value as \<open>tomllib\<close> returns it, of any shape; an operation on a value of the wrong type
  raises what CPython raises (a path that is an integer, which \<open>os.path.exists\<close> takes for a file
  descriptor, raises \<open>TypeError\<close> here).  The lemmas say what a recipe that passes validation
  satisfies, what each error is, and what the synthesised \<open>nether.conf\<close> says.
\<close>

definition MAX_XFER :: nat where "MAX_XFER = 16 * 1024 * 1024"

definition die :: "'a sys" where
  "die = raise (SystemExit 2)"

section \<open>Loading\<close>

text \<open>One round of \<open>for k in ("kernel", "initramfs")\<close>.\<close>

definition resolve_image :: "pystr \<Rightarrow> pystr \<Rightarrow> pyval \<Rightarrow> exn + pyval" where
  "resolve_image base k img =
     ebind (py_get img k PNone) (\<lambda>v.
     if \<not> truthy v then Inr img
     else
       ebind (ebind (py_index img k) as_str) (\<lambda>p.
       if isabs p then Inr img else py_set img k (PStr (normpath (join base p)))))"

definition load_recipe :: "env \<Rightarrow> pystr \<Rightarrow> (pyval \<times> bytes) sys" where
  "load_recipe E path =
     (if \<not> has_tomllib E then die
      else
        bind (read_file E path) (\<lambda>raw.
        bind (try_except (bind (lift (decode_strict raw)) (\<lambda>t. lift (toml_loads E t))) is_Exception (\<lambda>_. die)) (\<lambda>r.
        let base = dirname (full E path) in
        bind (lift (py_get r (lit ''image'') (PDict []))) (\<lambda>img.
        bind (lift (resolve_image base (lit ''kernel'') img)) (\<lambda>img.
        bind (lift (resolve_image base (lit ''initramfs'') img)) (\<lambda>img.
        bind (lift (py_set r (lit ''image'') img)) (\<lambda>r.
        bind (lift (py_set r (lit ''_dir'') (PStr base))) (\<lambda>r.
        ret (r, raw)))))))))"

section \<open>Validation\<close>

definition check_file :: "env \<Rightarrow> pyval \<Rightarrow> unit sys" where
  "check_file E f =
     bind (lift (py_get f (lit ''host'') PNone)) (\<lambda>h.
     if \<not> truthy h then ret ()
     else
       bind (lift (as_str h)) (\<lambda>h.
       bind (path_exists E h) (\<lambda>x.
       if \<not> x then ret ()
       else bind (getsize E h) (\<lambda>n. if MAX_XFER < n then die else ret ()))))"

text \<open>The three groups of checks of \<open>validate_recipe\<close>: the image, the storage policy, the files.\<close>

definition check_initramfs :: "env \<Rightarrow> pyval \<Rightarrow> unit sys" where
  "check_initramfs E i =
     (if \<not> truthy i then ret ()
      else bind (lift (as_str i)) (\<lambda>i. bind (path_exists E i) (\<lambda>x. if \<not> x then die else ret ())))"

definition check_image :: "env \<Rightarrow> pyval \<Rightarrow> unit sys" where
  "check_image E img =
     bind (lift (py_get img (lit ''kernel'') PNone)) (\<lambda>k.
     if \<not> truthy k then die
     else
     bind (lift (as_str k)) (\<lambda>k.
     bind (path_exists E k) (\<lambda>x.
     if \<not> x then die
     else
     bind (lift (py_get img (lit ''initramfs'') PNone)) (check_initramfs E))))"

definition check_storage :: "pyval \<Rightarrow> unit sys" where
  "check_storage snap =
     bind (lift (py_get snap (lit ''out'') PNone)) (\<lambda>out.
     if \<not> truthy out then die
     else
     bind (lift (py_get snap (lit ''base'') PNone)) (\<lambda>b.
     if truthy b then die
     else
     bind (lift (py_get snap (lit ''compress'') (PStr (lit ''none'')))) (\<lambda>comp.
     if py_eq comp (PStr (lit ''zstd'')) then die
     else if \<not> (py_eq comp (PStr (lit ''none'')) \<or> py_eq comp (PStr (lit ''deflate''))) then die
     else ret ())))"

definition check_files :: "env \<Rightarrow> pyval \<Rightarrow> unit sys" where
  "check_files E r =
     bind (lift (ebind (py_get r (lit ''files'') (PList [])) py_iter)) (\<lambda>files. for_each files (check_file E))"

definition validate_recipe :: "env \<Rightarrow> pyval \<Rightarrow> unit sys" where
  "validate_recipe E r =
     bind (lift (py_get r (lit ''image'') (PDict []))) (\<lambda>img.
     seq (check_image E img) (
     bind (lift (py_get r (lit ''snapshot'') (PDict []))) (\<lambda>snap.
     seq (check_storage snap) (check_files E r))))"

section \<open>\<open>nether.conf\<close>\<close>

definition opt_line :: "pyval \<Rightarrow> pystr \<Rightarrow> (pyval \<Rightarrow> exn + pystr) \<Rightarrow> string \<Rightarrow> exn + pystr list" where
  "opt_line d k fmt name =
     ebind (py_get d k PNone) (\<lambda>v.
     if truthy v then ebind (ebind (py_index d k) fmt) (\<lambda>t. Inr [lit name @ t]) else Inr [])"

definition net_lines :: "pyval \<Rightarrow> exn + pystr list" where
  "net_lines net =
     ebind (py_get net (lit ''egress'') PNone) (\<lambda>e.
     Inr ((if py_eq e (PStr (lit ''allow'')) then [lit ''net_open=1''] else []) @
          (if \<not> (py_eq e PNone \<or> py_eq e (PStr (lit ''deny''))) then [lit ''net=1''] else [])))"

text \<open>\<open>lines\<close> of \<open>render_conf\<close> before they are joined.\<close>

definition conf_lines :: "env \<Rightarrow> pyval \<Rightarrow> pystr \<Rightarrow> pystr \<Rightarrow> pystr option \<Rightarrow> exn + pystr list" where
  "conf_lines E r control_socket data_socket restore_from =
     ebind (py_get r (lit ''resources'') (PDict [])) (\<lambda>res.
     let l0 = [lit ''control_socket='' @ control_socket, lit ''data_socket='' @ data_socket] @
              (case restore_from of
                 None \<Rightarrow> []
               | Some p \<Rightarrow> if p = [] then [] else [lit ''restore=1'', lit ''restore_from='' @ p]) in
     ebind (py_get r (lit ''ready'') (PDict [])) (\<lambda>ready.
     ebind (opt_line ready (lit ''port'') fmt_d ''app_port='') (\<lambda>l1.
     ebind (ebind (py_get res (lit ''ram_mb'') (PInt 512)) fmt_d) (\<lambda>ram.
     ebind (ebind (py_get res (lit ''cpus'') (PInt 1)) fmt_d) (\<lambda>cpus.
     ebind (py_get r (lit ''disk'') (PDict [])) (\<lambda>disk.
     ebind (py_get disk (lit ''file'') PNone) (\<lambda>df.
     ebind (if \<not> truthy df then Inr []
            else ebind (opt_line disk (lit ''size_mb'') fmt_d ''disk_size_mb='') (\<lambda>l.
                 Inr ((lit ''disk='' @ fmt_s (py_repr E) df) # l))) (\<lambda>l2.
     ebind (py_get r (lit ''network'') (PDict [])) (\<lambda>net.
     ebind (net_lines net) (\<lambda>l3.
     ebind (opt_line r (lit ''run_as'') (\<lambda>v. Inr (fmt_s (py_repr E) v)) ''run_as='') (\<lambda>l4.
     Inr (l0 @ l1 @ [lit ''ram_mb='' @ ram, lit ''cpus='' @ cpus] @ l2 @ l3 @ l4))))))))))))"

definition render_conf :: "env \<Rightarrow> pyval \<Rightarrow> pystr \<Rightarrow> pystr \<Rightarrow> pystr option \<Rightarrow> exn + pystr" where
  "render_conf E r control_socket data_socket restore_from =
     ebind (conf_lines E r control_socket data_socket restore_from) (\<lambda>lines.
     Inr (joined [10] lines @ [10]))"

section \<open>What validation guarantees\<close>

lemma py_eq_PNone_right: "py_eq v PNone \<longleftrightarrow> v = PNone"
  by (cases v) (simp_all add: py_eq.simps num_val_def)


text \<open>The host file of an entry fits through the control socket, where the entry names one that exists.\<close>

definition file_fits :: "env \<Rightarrow> world \<Rightarrow> pyval \<Rightarrow> bool" where
  "file_fits E w f \<longleftrightarrow>
     (case f of
        PDict d \<Rightarrow>
          (case map_of d (lit ''host'') of
             Some (PStr h) \<Rightarrow>
               h = [] \<or> (case stat E h w of None \<Rightarrow> True | Some n \<Rightarrow> node_size n \<le> MAX_XFER)
           | Some v \<Rightarrow> \<not> truthy v
           | None \<Rightarrow> True)
      | _ \<Rightarrow> False)"

lemma check_file_ok: "check_file E f w = Some (Inr (), w') \<longleftrightarrow> w' = w \<and> file_fits E w f"
proof (cases f)
  case (PDict d)
  show ?thesis
  proof (cases "map_of d (lit ''host'')")
    case None
    with PDict show ?thesis by (auto simp: check_file_def file_fits_def bind_lift ret_def)
  next
    case (Some h)
    with PDict show ?thesis
      by (cases h) (auto simp: check_file_def file_fits_def bind_lift bind_path_exists bind_getsize ret_def
          raise_def die_def split: option.splits)
  qed
qed (simp_all add: check_file_def file_fits_def bind_lift raise_def)

lemma for_each_check:
  "for_each xs (check_file E) w = Some (Inr (), w') \<longleftrightarrow> w' = w \<and> list_all (file_fits E w) xs"
  by (induction xs arbitrary: w) (auto simp: ret_def seq_Some_iff check_file_ok)

definition image_found :: "env \<Rightarrow> world \<Rightarrow> pyval \<Rightarrow> bool" where
  "image_found E w v \<longleftrightarrow>
     (case v of
        PDict img \<Rightarrow>
          (case map_of img (lit ''kernel'') of Some (PStr k) \<Rightarrow> k \<noteq> [] \<and> stat E k w \<noteq> None | _ \<Rightarrow> False) \<and>
          (case map_of img (lit ''initramfs'') of
             None \<Rightarrow> True
           | Some (PStr p) \<Rightarrow> p = [] \<or> stat E p w \<noteq> None
           | Some v \<Rightarrow> \<not> truthy v)
      | _ \<Rightarrow> False)"

definition storage_ok :: "pyval \<Rightarrow> bool" where
  "storage_ok v \<longleftrightarrow>
     (case v of
        PDict snap \<Rightarrow>
          (case map_of snap (lit ''out'') of Some out \<Rightarrow> truthy out | None \<Rightarrow> False) \<and>
          (case map_of snap (lit ''base'') of Some b \<Rightarrow> \<not> truthy b | None \<Rightarrow> True) \<and>
          map_of snap (lit ''compress'') \<in> {None, Some (PStr (lit ''none'')), Some (PStr (lit ''deflate''))}
      | _ \<Rightarrow> False)"

definition files_ok :: "env \<Rightarrow> world \<Rightarrow> pyval \<Rightarrow> bool" where
  "files_ok E w v \<longleftrightarrow> (case py_iter v of Inl _ \<Rightarrow> False | Inr fl \<Rightarrow> list_all (file_fits E w) fl)"

text \<open>The recipes that pass.\<close>

definition valid_recipe :: "env \<Rightarrow> world \<Rightarrow> pyval \<Rightarrow> bool" where
  "valid_recipe E w r \<longleftrightarrow>
     (case r of
        PDict d \<Rightarrow>
          (case (map_of d (lit ''image''), map_of d (lit ''snapshot'')) of
             (Some img, Some snap) \<Rightarrow>
               image_found E w img \<and> storage_ok snap \<and>
               (case map_of d (lit ''files'') of None \<Rightarrow> True | Some v \<Rightarrow> files_ok E w v)
           | _ \<Rightarrow> False)
      | _ \<Rightarrow> False)"

lemma check_initramfs_ok:
  "check_initramfs E i w = Some (Inr (), w') \<longleftrightarrow>
     w' = w \<and> (case i of PStr p \<Rightarrow> p = [] \<or> stat E p w \<noteq> None | v \<Rightarrow> \<not> truthy v)"
  by (cases i) (auto simp: check_initramfs_def ret_def bind_lift bind_path_exists raise_def die_def)

lemma check_image_ok: "check_image E v w = Some (Inr (), w') \<longleftrightarrow> w' = w \<and> image_found E w v"
proof (cases v)
  case (PDict img)
  show ?thesis
  proof (cases "map_of img (lit ''kernel'')")
    case None
    with PDict show ?thesis by (simp add: check_image_def image_found_def bind_lift die_def raise_def)
  next
    case (Some k)
    with PDict show ?thesis
      by (cases k; cases "map_of img (lit ''initramfs'')")
         (auto simp: check_image_def image_found_def bind_lift bind_path_exists die_def raise_def ret_def check_initramfs_ok)
  qed
qed (simp_all add: check_image_def image_found_def bind_lift raise_def)

lemma check_storage_ok: "check_storage v w = Some (Inr (), w') \<longleftrightarrow> w' = w \<and> storage_ok v"
proof (cases v)
  case (PDict snap)
  have ne: "lit ''zstd'' \<noteq> lit ''none''" "lit ''zstd'' \<noteq> lit ''deflate''" by (simp_all add: lit_def)
  show ?thesis using PDict ne
    by (auto simp: check_storage_def storage_ok_def bind_lift die_def raise_def ret_def split: option.splits)
qed (simp_all add: check_storage_def storage_ok_def bind_lift raise_def)

lemma check_files_ok:
  "check_files E (PDict d) w = Some (Inr (), w') \<longleftrightarrow>
     w' = w \<and> (case map_of d (lit ''files'') of None \<Rightarrow> True | Some v \<Rightarrow> files_ok E w v)"
  by (cases "map_of d (lit ''files'')")
     (auto simp: check_files_def files_ok_def bind_lift ret_def for_each_check raise_def split: sum.splits)

text \<open>
  C4: validation accepts exactly the recipes with an existing kernel (and initramfs, when one is
  named), an output, no incremental base, a known compression and files within the transfer limit,
  and changes nothing.
\<close>

theorem validate_recipe_iff:
  "validate_recipe E r w = Some (Inr (), w') \<longleftrightarrow> w' = w \<and> valid_recipe E w r"
proof (cases r)
  case (PDict d)
  have "image_found E w (PDict []) = False" "storage_ok (PDict []) = False"
    by (simp_all add: image_found_def storage_ok_def)
  then show ?thesis
    using PDict
    by (cases "map_of d (lit ''image'')"; cases "map_of d (lit ''snapshot'')")
       (auto simp: validate_recipe_def valid_recipe_def bind_lift seq_Some_iff check_image_ok check_storage_ok check_files_ok)
qed (simp_all add: validate_recipe_def valid_recipe_def bind_lift raise_def)

section \<open>What the configuration says\<close>

text \<open>The egress policy of a recipe, \<open>None\<close> when it declares none.\<close>

definition egress_of :: "pyval \<Rightarrow> exn + pyval" where
  "egress_of r = ebind (py_get r (lit ''network'') (PDict [])) (\<lambda>net. py_get net (lit ''egress'') PNone)"

lemma opt_line_prefix: "opt_line d k fmt name = Inr ls \<Longrightarrow> l \<in> set ls \<Longrightarrow> \<exists>t. l = lit name @ t"
  by (auto simp: opt_line_def ebind_eq_Inr split: if_splits)

lemma conf_lines_n:
  assumes "conf_lines E r cs ds rf = Inr ls"
  obtains net l3 where "py_get r (lit ''network'') (PDict []) = Inr net" and "net_lines net = Inr l3"
    and "set l3 \<subseteq> set ls" and "\<And>l. l \<in> set ls \<Longrightarrow> l \<in> set l3 \<or> (\<exists>c t. l = c # t \<and> c \<noteq> 110)"
proof -
  obtain res ready l1 ram cpus disk df l2 net l3 l4 l0 where parts:
    "l0 = [lit ''control_socket='' @ cs, lit ''data_socket='' @ ds] @
              (case rf of None \<Rightarrow> [] | Some p \<Rightarrow> if p = [] then [] else [lit ''restore=1'', lit ''restore_from='' @ p])"
    "opt_line ready (lit ''port'') fmt_d ''app_port='' = Inr l1"
    "(if \<not> truthy df then Inr [] else ebind (opt_line disk (lit ''size_mb'') fmt_d ''disk_size_mb='') (\<lambda>l.
        Inr ((lit ''disk='' @ fmt_s (py_repr E) df) # l))) = Inr l2"
    "py_get r (lit ''network'') (PDict []) = Inr net" "net_lines net = Inr l3"
    "opt_line r (lit ''run_as'') (\<lambda>v. Inr (fmt_s (py_repr E) v)) ''run_as='' = Inr l4"
    "ls = l0 @ l1 @ [lit ''ram_mb='' @ ram, lit ''cpus='' @ cpus] @ l2 @ l3 @ l4"
    using assms unfolding conf_lines_def Let_def by (auto simp only: ebind_eq_Inr sum.inject)
  have "\<exists>c t. l = c # t \<and> c \<noteq> 110" if "l \<in> set (l0 @ l1 @ [lit ''ram_mb='' @ ram, lit ''cpus='' @ cpus] @ l2 @ l4)" for l
  proof -
    from that consider "l \<in> set l0" | "l \<in> set l1" | "l = lit ''ram_mb='' @ ram" | "l = lit ''cpus='' @ cpus" | "l \<in> set l2" | "l \<in> set l4"
      by auto
    then show ?thesis
    proof cases
      case 1 then show ?thesis by (auto simp: parts(1) lit_def split: option.splits if_splits)
    next
      case 2 then show ?thesis using opt_line_prefix [OF parts(2), of l] by (auto simp: lit_def)
    next
      case 5 then show ?thesis using parts(3) opt_line_prefix
        by (fastforce simp: lit_def ebind_eq_Inr split: if_splits)
    next
      case 6 then show ?thesis using opt_line_prefix [OF parts(6), of l] by (auto simp: lit_def)
    qed (auto simp: lit_def)
  qed
  then have "l \<in> set l3 \<or> (\<exists>c t. l = c # t \<and> c \<noteq> 110)" if "l \<in> set ls" for l
    using that unfolding parts(7) set_append by blast
  moreover have "set l3 \<subseteq> set ls" unfolding parts(7) by auto
  ultimately show thesis using that [OF parts(4,5)] by blast
qed

lemma split_all_joined:
  assumes "\<forall>l \<in> set ls. x \<notin> set l" and "ls \<noteq> []"
  shows "split_all x (joined [x] ls @ [x]) = ls @ [[]]"
  using assms
proof (induction ls rule: induct_list012)
  case (3 l m ls)
  then show ?case using split_all_append [of x l "joined [x] (m # ls) @ [x]"] by (simp add: split_all_no_sep)
qed (simp_all add: split_all_append split_all_no_sep)

text \<open>
  C35: the rendered configuration enables the network exactly when the recipe declares an egress
  policy other than \<open>deny\<close>, and opens it exactly for \<open>allow\<close>: a recipe that says nothing gets no
  network.  (For values without line breaks: a line break in a path or user name starts a line of its
  own.)
\<close>

theorem conf_network:
  assumes "render_conf E r cs ds rf = Inr t" and "conf_lines E r cs ds rf = Inr ls"
    and "\<forall>l \<in> set ls. 10 \<notin> set l" and "egress_of r = Inr e"
  shows "(lit ''net=1'' \<in> set (split_all 10 t) \<longleftrightarrow> e \<noteq> PNone \<and> e \<noteq> PStr (lit ''deny'')) \<and>
         (lit ''net_open=1'' \<in> set (split_all 10 t) \<longleftrightarrow> e = PStr (lit ''allow''))"
proof -
  obtain net l3 where n: "py_get r (lit ''network'') (PDict []) = Inr net" "net_lines net = Inr l3"
    "set l3 \<subseteq> set ls" "\<And>l. l \<in> set ls \<Longrightarrow> l \<in> set l3 \<or> (\<exists>c t. l = c # t \<and> c \<noteq> 110)"
    using conf_lines_n [OF assms(2)] by blast
  have "ls \<noteq> []" using assms(2) by (auto simp: conf_lines_def Let_def ebind_eq_Inr)
  then have t: "split_all 10 t = ls @ [[]]"
    using assms(1,2,3) split_all_joined by (auto simp: render_conf_def)
  have l3: "l3 = (if e = PStr (lit ''allow'') then [lit ''net_open=1''] else []) @
      (if e \<noteq> PNone \<and> e \<noteq> PStr (lit ''deny'') then [lit ''net=1''] else [])"
    using n(1,2) assms(4) by (auto simp: egress_of_def net_lines_def py_eq_PNone_right)
  have ne: "lit ''allow'' \<noteq> lit ''deny''" "lit ''net=1'' \<noteq> lit ''net_open=1''" "lit ''net=1'' \<noteq> []" "lit ''net_open=1'' \<noteq> []"
    by (simp_all add: lit_def)
  have in3: "l \<in> set ls \<longleftrightarrow> l \<in> set l3" if "l \<in> {lit ''net=1'', lit ''net_open=1''}" for l
    using n(3,4) that by (fastforce simp: lit_def)
  then show ?thesis using ne by (auto simp: t l3)
qed

end
