(* ===== verification/Bake.thy ===== *)
theory Bake
  imports Recipe
begin

text \<open>
  \<open>bake\<close> and \<open>fork\<close> of \<open>scripts/bake.py\<close>: the waiting loops, the control session of a bake (push
  files, warm up, wait until ready, freeze), the clean-up that runs on every way out, compression
  and rehydration.  What the VM does is the environment's: every theorem holds for every VM, every reply in
  every chunking, and every change other processes make meanwhile.  What is shown about coming back needs a
  host on which every peer at some point stops sending (\<open>patient\<close>); C33 shows that it does.
\<close>

section \<open>Waiting and connecting\<close>

text \<open>\<open>while time.time() - t0 < timeout: <probe, leave with its result>; time.sleep(nap)\<close>\<close>

definition poll_body :: "env \<Rightarrow> nat \<Rightarrow> nat \<Rightarrow> nat \<Rightarrow> 'a option sys \<Rightarrow> unit \<Rightarrow> (unit + 'a option) sys" where
  "poll_body E t0 timeout nap probe u =
     bind time_time (\<lambda>t.
     if \<not> t - t0 < timeout then ret (Inr None)
     else
       bind probe (\<lambda>r.
       case r of
         Some a \<Rightarrow> ret (Inr (Some a))
       | None \<Rightarrow> seq (sleep E nap) (ret (Inl ()))))"

definition poll :: "env \<Rightarrow> nat \<Rightarrow> nat \<Rightarrow> nat \<Rightarrow> 'a option sys \<Rightarrow> 'a option sys" where
  "poll E t0 timeout nap probe = iterate (poll_body E t0 timeout nap probe) ()"

definition wait_sock :: "env \<Rightarrow> pystr \<Rightarrow> nat \<Rightarrow> bool sys" where
  "wait_sock E path timeout =
     bind time_time (\<lambda>t0.
     bind (poll E t0 timeout 300 (bind (path_exists E path) (\<lambda>x. ret (if x then Some () else None)))) (\<lambda>r.
     ret (r \<noteq> None)))"

definition uconn :: "env \<Rightarrow> pystr \<Rightarrow> nat \<Rightarrow> nat sys" where
  "uconn E path to = connect E path to"

definition launch :: "env \<Rightarrow> pystr \<Rightarrow> pystr \<Rightarrow> nat sys" where
  "launch E d logname = seq (write_file E (join d logname) []) (popen E d)"

abbreviation on_cmd :: "env \<Rightarrow> nat \<Rightarrow> pystr \<Rightarrow> nat \<Rightarrow> pystr sys" where
  "on_cmd E s line to \<equiv> on_sock E s (cmd line to)"

abbreviation on_meta :: "env \<Rightarrow> nat \<Rightarrow> pystr \<Rightarrow> nat \<Rightarrow> pystr sys" where
  "on_meta E s line to \<equiv> on_sock E s (meta line to)"

section \<open>Compression\<close>

definition nether_transform :: "env \<Rightarrow> string \<Rightarrow> string \<Rightarrow> pystr \<Rightarrow> pystr \<Rightarrow> bool sys" where
  "nether_transform E key_in key_out src dst =
     bind (mkdtemp E) (\<lambda>wd.
     try_finally
       (seq (write_text E (join wd (lit ''nether.conf''))
               (lit key_in @ lit ''='' @ full E src @ [10] @ lit key_out @ lit ''='' @ full E dst @ [10]))
         (bind (run_nether E wd) (\<lambda>rc. ret (rc = 0))))
       (rmtree E wd))"

definition compress_base :: "env \<Rightarrow> pystr \<Rightarrow> unit sys" where
  "compress_base E snap =
     (let tmp = snap @ lit ''.ztmp'' in
      bind (nether_transform E ''compress_in'' ''compress_out'' snap tmp) (\<lambda>k.
      if \<not> k then die
      else
        bind (getsize E snap) (\<lambda>b.
        seq (os_rename E tmp snap) (
        bind (getsize E snap) (\<lambda>n. if b = 0 then raise ZeroDivisionError else ret ())))))"

definition ensure_forkable :: "env \<Rightarrow> pystr \<Rightarrow> pystr sys" where
  "ensure_forkable E snap =
     bind (read_snap_encoding E snap) (\<lambda>enc.
     if enc \<noteq> Some RAM_COMPRESSED then ret snap
     else
       let hy = snap @ lit ''.hydrated'' in
       bind (path_exists E hy) (\<lambda>x.
       bind (if \<not> x then ret False
             else bind (getmtime E hy) (\<lambda>a. bind (getmtime E snap) (\<lambda>b. ret (b \<le> a)))) (\<lambda>fresh.
       if fresh then ret hy
       else
         bind (nether_transform E ''rehydrate_in'' ''rehydrate_out'' snap hy) (\<lambda>k.
         if \<not> k then die else ret hy))))"

section \<open>Bake\<close>

definition wait_ready :: "env \<Rightarrow> nat \<Rightarrow> pyval \<Rightarrow> nat \<Rightarrow> bool sys" where
  "wait_ready E s ready timeout =
     bind time_time (\<lambda>t0.
     let gate = (\<lambda>line.
       bind (poll E t0 timeout 50000
         (bind (on_cmd E s line (seconds 10)) (\<lambda>r. ret (if contains (lit ''READY'') r then Some () else None)))) (\<lambda>r.
       ret (r \<noteq> None))) in
     bind (lift (py_get ready (lit ''command'') PNone)) (\<lambda>c.
     if truthy c then gate (fmt_s (py_repr E) c @ lit '' && echo READY'')
     else
       bind (lift (py_get ready (lit ''port'') PNone)) (\<lambda>p.
       if truthy p then
         bind (lift (fmt_d p)) (\<lambda>n.
         gate (lit ''(exec 3<>/dev/tcp/127.0.0.1/'' @ n @ lit '') 2>/dev/null && echo READY''))
       else seq (sleep E (seconds 2)) (ret True))))"

text \<open>1. Push files.\<close>

definition host_path :: "pyval \<Rightarrow> pystr \<Rightarrow> pystr" where
  "host_path dir h = (if isabs h then h else join (case dir of PStr d \<Rightarrow> d | _ \<Rightarrow> []) h)"

definition push_file :: "env \<Rightarrow> nat \<Rightarrow> pyval \<Rightarrow> pyval \<Rightarrow> unit sys" where
  "push_file E s r f =
     bind (lift (ebind (py_index f (lit ''host'')) as_str)) (\<lambda>h.
     bind (lift (py_index r (lit ''_dir''))) (\<lambda>dir.
     bind (lift (py_index f (lit ''guest''))) (\<lambda>g.
     seq (on_cmd E s (lit ''__put__ '' @ host_path dir h @ lit '' '' @ fmt_s (py_repr E) g) (seconds 30))
       (ret ()))))"

text \<open>2. One warm-up step.  \<open>cmd\<close> calls \<open>.encode()\<close> on the line, which only a string has.\<close>

fun as_line :: "pyval \<Rightarrow> exn + pystr" where
  "as_line (PStr s) = Inr s"
| "as_line _ = Inl AttributeError"

definition warm_step :: "env \<Rightarrow> nat \<Rightarrow> pyval \<Rightarrow> unit sys" where
  "warm_step E s step =
     bind (lift (py_mem (lit ''run'') step)) (\<lambda>a.
     if a then
       bind (lift (ebind (py_index step (lit ''run'')) as_line)) (\<lambda>l. seq (on_cmd E s l (seconds 120)) (ret ()))
     else
       bind (lift (py_mem (lit ''start'') step)) (\<lambda>b.
       if b then
         bind (lift (py_index step (lit ''start''))) (\<lambda>v.
         seq (on_cmd E s (fmt_s (py_repr E) v @ lit '' >/tmp/bake-start.log 2>&1 &'') (seconds 30)) (ret ()))
       else ret ()))"

text \<open>4. Freeze.\<close>

definition dir_or_dot :: "pystr \<Rightarrow> pystr" where
  "dir_or_dot p = (if dirname p = [] then lit ''.'' else dirname p)"

definition freeze :: "env \<Rightarrow> nat \<Rightarrow> pyval \<Rightarrow> pystr \<Rightarrow> pystr \<Rightarrow> unit sys" where
  "freeze E s r snap work =
     (let snap_name = basename snap in
      bind (on_meta E s (lit ''__snapshot__ '' @ snap_name) (seconds 120)) (\<lambda>rep.
      if \<not> contains (lit ''OK'') rep then die
      else
        seq (makedirs E (dir_or_dot snap) True) (
        seq (shutil_move E (join work snap_name) snap) (
        bind (getsize E snap) (\<lambda>_.
        bind (lift (ebind (py_index r (lit ''snapshot'')) (\<lambda>v. py_get v (lit ''compress'') (PStr (lit ''none''))))) (\<lambda>c.
        seq (when_io (py_eq c (PStr (lit ''deflate''))) (compress_base E snap))
          (swallow (on_meta E s (lit ''__shutdown__'') (seconds 5)))))))))"

text \<open>The body of the \<open>try\<close>.\<close>

definition bake_session :: "env \<Rightarrow> pyval \<Rightarrow> pystr \<Rightarrow> pystr \<Rightarrow> unit sys" where
  "bake_session E r snap work =
     bind (wait_sock E (join work (lit ''b.sock'')) (seconds 40)) (\<lambda>up.
     if \<not> up then die
     else
       bind (uconn E (join work (lit ''b.sock'')) (seconds 20)) (\<lambda>s.
       seq (on_cmd E s (lit ''__info__'') (seconds 30)) (
       bind (lift (ebind (py_get r (lit ''files'') (PList [])) py_iter)) (\<lambda>files.
       seq (for_each files (push_file E s r)) (
       bind (lift (ebind (py_get r (lit ''warmup'') (PList [])) py_iter)) (\<lambda>steps.
       seq (for_each steps (warm_step E s)) (
       bind (lift (py_get r (lit ''ready'') (PDict []))) (\<lambda>ready.
       bind (wait_ready E s ready (seconds 60)) (\<lambda>k.
       if \<not> k then die else freeze E s r snap work)))))))))"

text \<open>The \<open>finally\<close> block.\<close>

definition stop_vm :: "env \<Rightarrow> nat \<Rightarrow> unit sys" where
  "stop_vm E p =
     seq (swallow (send_signal p SIGTERM)) (seq (sleep E 300000) (swallow (send_signal p SIGKILL)))"

definition boot_and_freeze :: "env \<Rightarrow> pyval \<Rightarrow> pystr \<Rightarrow> pystr \<Rightarrow> unit sys" where
  "boot_and_freeze E r snap work =
     bind (launch E work (lit ''bake.log'')) (\<lambda>p.
     try_finally (bake_session E r snap work) (stop_vm E p))"

text \<open>The scratch directory with the kernel link and the configuration.\<close>

definition prepare_work :: "env \<Rightarrow> pyval \<Rightarrow> pystr \<Rightarrow> pystr \<Rightarrow> unit sys" where
  "prepare_work E r kernel_path work =
     seq (rmtree E work) (
     seq (makedirs E work False) (
     seq (symlink E (dirname kernel_path) (join work (lit ''kernels''))) (
     seq (write_file E (join work (lit ''nether.conf'')) []) (
     bind (lift (render_conf E r (lit ''b.sock'') (lit ''b.data'') None)) (\<lambda>t.
     write_text E (join work (lit ''nether.conf'')) t)))))"

text \<open>What a bake is about: the recipe, where the base goes, and its key.\<close>

definition bake_plan :: "env \<Rightarrow> pystr \<Rightarrow> (pyval \<times> pystr \<times> pyval \<times> pystr) sys" where
  "bake_plan E recipe_path =
     bind (path_exists E (BIN E)) (\<lambda>b.
     if \<not> b then die
     else
       bind (load_recipe E recipe_path) (\<lambda>(r, raw).
       seq (validate_recipe E r) (
       bind (lift (py_index r (lit ''image''))) (\<lambda>img.
       bind (lift (ebind (ebind (py_index r (lit ''snapshot'')) (\<lambda>v. py_index v (lit ''out''))) as_str)) (\<lambda>snap.
       bind (lift (py_index r (lit ''_dir''))) (\<lambda>dir.
       let snap = host_path dir snap in
       bind (recipe_key E raw img) (\<lambda>key.
       bind (lift (ebind (py_index img (lit ''kernel'')) as_str)) (\<lambda>kern.
       ret (r, snap, key, kern)))))))))"

definition is_current :: "env \<Rightarrow> pystr \<Rightarrow> pyval \<Rightarrow> bool sys" where
  "is_current E snap key =
     bind (path_exists E snap) (\<lambda>x.
     if \<not> x then ret False else bind (read_manifest E snap) (\<lambda>m. lift (key_matches m key)))"

text \<open>5. The manifest and the superseded generations.\<close>

definition record_base :: "env \<Rightarrow> pystr \<Rightarrow> pystr \<Rightarrow> pyval \<Rightarrow> int sys" where
  "record_base E recipe_path snap key =
     bind time_time (\<lambda>t.
     seq (write_manifest E snap key (full E recipe_path) (utc_text E t)) (
     seq (gc_superseded E (dir_or_dot snap) snap (full E recipe_path)) (ret 0)))"

definition or_default :: "pystr option \<Rightarrow> pystr \<Rightarrow> pystr" where
  "or_default v d = (case v of None \<Rightarrow> d | Some x \<Rightarrow> x)"

definition do_bake :: "env \<Rightarrow> pystr \<Rightarrow> bool \<Rightarrow> pystr option \<Rightarrow> int sys" where
  "do_bake E recipe_path force work =
     bind (bake_plan E recipe_path) (\<lambda>(r, snap, key, kern).
     bind (if force then ret False else is_current E snap key) (\<lambda>current.
     if current then ret 0
     else
       let work = (case work of Some (c # w) \<Rightarrow> c # w
                   | _ \<Rightarrow> or_default (environ E (lit ''NETHER_WORK'')) (lit ''/tmp/nether-bake'')) in
       seq (prepare_work E r kern work) (
       seq (boot_and_freeze E r snap work) (
       record_base E recipe_path snap key))))"

section \<open>Fork\<close>

definition warn_build :: "env \<Rightarrow> pyval \<Rightarrow> unit sys" where
  "warn_build E m =
     (if \<not> truthy m then ret ()
      else bind (lift (ebind (py_index m (lit ''key'')) (\<lambda>k. py_get k (lit ''nether_build'') PNone))) (\<lambda>_.
           seq (nether_build_id E) (ret ())))"

definition fork_probe :: "env \<Rightarrow> pystr \<Rightarrow> pystr option sys" where
  "fork_probe E fsk =
     try_except
       (bind (uconn E fsk (seconds 10)) (\<lambda>s.
        bind (on_cmd E s (lit ''__info__'') (seconds 10)) (\<lambda>r.
        ret (if r \<noteq> [] \<and> \<not> contains (lit ''ERR'') r then Some r else None))))
       is_Exception (\<lambda>_. ret None)"

definition do_fork :: "env \<Rightarrow> pystr \<Rightarrow> pystr \<Rightarrow> pystr option \<Rightarrow> int sys" where
  "do_fork E snap name work =
     bind (path_exists E snap) (\<lambda>x.
     if \<not> x then die
     else
     bind (read_manifest E snap) (\<lambda>m.
     seq (warn_build E m) (
     bind (ensure_forkable E (full E snap)) (\<lambda>forkable.
     let work = (case work of Some (c # w) \<Rightarrow> c # w
                 | _ \<Rightarrow> join (or_default (environ E (lit ''NETHER_WORK'')) (lit ''/tmp/nether-fork'')) name);
         kdir = join (NB E) (lit ''kernels'');
         fsk = join work (lit ''f.sock'') in
     seq (rmtree E work) (
     seq (makedirs E work False) (
     bind (path_exists E kdir) (\<lambda>k.
     seq (when_io k (symlink E kdir (join work (lit ''kernels'')))) (
     seq (write_text E (join work (lit ''nether.conf''))
            (lit ''restore=1'' @ [10] @ lit ''restore_from='' @ forkable @ [10] @
             lit ''control_socket=f.sock'' @ [10] @ lit ''data_socket=f.data'' @ [10])) (
     bind time_time (\<lambda>t0.
     seq (launch E work (lit ''fork.log'')) (
     seq (poll E t0 (seconds 30) 300 (bind (path_exists E fsk) (\<lambda>x. ret (if x then Some () else None)))) (
     bind (poll E t0 (seconds 30) 300 (fork_probe E fsk)) (\<lambda>driveable.
     ret (if driveable \<noteq> None then 0 else 1)))))))))))))) "

section \<open>Every wait ends on a patient host\<close>

lemma settles_poll:
  assumes "settles I quiet probe" and "0 < nap" and "\<And>w d. I w \<Longrightarrow> I (elapse E d w)"
  shows "settles I quiet (poll E t0 timeout nap probe)"
  unfolding poll_def
proof (rule quiet.s_iterate [where lev = "\<lambda>_ w. t0 + timeout - clock w"])
  have "settles I quiet (sleep E nap)" using assms(3) by (simp add: settles_def sleep_def modify_def quiet_elapse)
  then show "settles I quiet (poll_body E t0 timeout nap probe u)" for u
    unfolding poll_body_def time_time_def by (intro quiet.forms assms(1))
next
  fix u w v w' assume "poll_body E t0 timeout nap probe u w = Some (Inr (Inl v), w')"
  then obtain w1 r where p: "probe w = Some (r, w1)" "clock w - t0 < timeout" "w' = elapse E (nap + oversleep E w1) w1"
    by (auto simp: poll_body_def time_time_def bind_get bind_Some_iff seq_Some_iff ret_def sleep_def modify_def
        split: if_splits option.splits)
  then have "clock w \<le> clock w1" using settles_rel [OF assms(1)] by (auto simp: quiet_def)
  with p assms(2) show "t0 + timeout - clock w' < t0 + timeout - clock w" by (simp add: elapse_def Let_def)
qed

lemma quiet_poll:
  "settles (patient E) quiet probe \<Longrightarrow> 0 < nap \<Longrightarrow> settles (patient E) quiet (poll E t0 timeout nap probe)"
  by (rule settles_poll) simp_all

lemma quiet_cmd: "settles (patient E) quiet (on_cmd E s l to)"
  by (rule quiet_on_sock [OF returning_cmd])

lemma quiet_meta: "settles (patient E) quiet (on_meta E s l to)"
  by (rule quiet_on_sock [OF returning_meta])

lemmas quiet_base = quiet.forms quiet_calls quiet_cmd quiet_meta

lemma quiet_die: "settles (patient E) quiet die"
  by (simp add: die_def quiet.s_raise)

lemma quiet_wait_sock: "settles (patient E) quiet (wait_sock E p t)"
  unfolding wait_sock_def by (intro quiet_base quiet_poll) simp

lemma quiet_wait_ready: "settles (patient E) quiet (wait_ready E s ready t)"
  unfolding wait_ready_def Let_def by (intro quiet_base quiet_poll) simp_all

lemma quiet_nether_transform: "settles (patient E) quiet (nether_transform E a b src dst)"
  unfolding nether_transform_def by (intro quiet_base)

lemma quiet_compress_base: "settles (patient E) quiet (compress_base E snap)"
  unfolding compress_base_def Let_def by (intro quiet_base quiet_nether_transform quiet_die)

lemma quiet_freeze: "settles (patient E) quiet (freeze E s r snap work)"
  unfolding freeze_def Let_def by (intro quiet_base quiet_compress_base quiet_die)

lemma quiet_push_file: "settles (patient E) quiet (push_file E s r f)"
  unfolding push_file_def by (intro quiet_base)

lemma quiet_warm_step: "settles (patient E) quiet (warm_step E s f)"
  unfolding warm_step_def by (intro quiet_base)

lemma quiet_bake_session: "settles (patient E) quiet (bake_session E r snap work)"
  unfolding bake_session_def uconn_def
  by (intro quiet_base quiet_wait_sock quiet_wait_ready quiet_push_file quiet_warm_step quiet_freeze quiet_die)

lemma quiet_prepare_work: "settles (patient E) quiet (prepare_work E r kern work)"
  unfolding prepare_work_def by (intro quiet_base)

lemma quiet_read_manifest: "settles (patient E) quiet (read_manifest E snap)"
  unfolding read_manifest_def by (intro quiet_base)

lemma quiet_nether_build_id: "settles (patient E) quiet (nether_build_id E)"
  unfolding nether_build_id_def sha256_file_def by (intro quiet_base)

lemma quiet_recipe_key: "settles (patient E) quiet (recipe_key E raw img)"
  unfolding recipe_key_def sha256_file_def by (intro quiet_base quiet_nether_build_id)

lemma quiet_load_recipe: "settles (patient E) quiet (load_recipe E p)"
  unfolding load_recipe_def Let_def by (intro quiet_base quiet_die)

lemma quiet_validate_recipe: "settles (patient E) quiet (validate_recipe E r)"
  unfolding validate_recipe_def check_image_def check_storage_def check_files_def check_file_def check_initramfs_def
  by (intro quiet_base quiet_die)

lemma quiet_bake_plan: "settles (patient E) quiet (bake_plan E p)"
  unfolding bake_plan_def Let_def
  by (intro quiet_base quiet_die quiet_load_recipe quiet_validate_recipe quiet_recipe_key)

lemma quiet_is_current: "settles (patient E) quiet (is_current E snap key)"
  unfolding is_current_def by (intro quiet_base quiet_read_manifest)

lemma quiet_reap: "settles (patient E) quiet (reap E snap)"
  unfolding reap_def remove_quietly_def by (intro quiet_base)

lemma quiet_gc_superseded: "settles (patient E) quiet (gc_superseded E d keep recipe)"
  unfolding gc_superseded_def gc_superseded_body_def by (intro quiet_base quiet_read_manifest quiet_reap)

lemma quiet_write_manifest: "settles (patient E) quiet (write_manifest E snap key p c)"
  unfolding write_manifest_def Let_def by (intro quiet_base)

lemma quiet_record_base: "settles (patient E) quiet (record_base E p snap key)"
  unfolding record_base_def by (intro quiet_base quiet_write_manifest quiet_gc_superseded)

section \<open>No VM outlives its bake\<close>

text \<open>A child process that was started and that neither \<open>terminate()\<close> nor \<open>kill()\<close> has been called on, and one
  that both have been called on.\<close>

definition running :: "pystr \<Rightarrow> proc" where
  "running d = \<lparr>p_cwd = d, p_signals = []\<rparr>"

definition stopped :: "pystr \<Rightarrow> proc" where
  "stopped d = \<lparr>p_cwd = d, p_signals = [SIGTERM, SIGKILL]\<rparr>"

lemma stop_vm_last:
  assumes "procs w = ps @ [running d]"
  shows "\<exists>w'. stop_vm E (length ps) w = Some (Inr (), w') \<and> procs w' = ps @ [stopped d]"
  using assms
  by (simp add: stop_vm_def seq_def bind_def swallow_def try_except_def send_signal_def sleep_def modify_def ret_def
      elapse_def Let_def stopped_def running_def)

lemma stop_vm_patient: "settles (patient E) (\<lambda>_ _. True) (stop_vm E p)"
  unfolding stop_vm_def by (intro returning.forms) (auto simp: settles_def send_signal_def sleep_def modify_def)

lemma launch_run:
  assumes "launch E d logname w = Some (r, w')"
  shows "procs w' = procs w \<and> (\<exists>e. r = Inl e) \<or> r = Inr (length (procs w)) \<and> procs w' = procs w @ [running d]"
proof -
  have "procs w1 = procs w" if "write_file E (join d logname) [] w = Some (q, w1)" for q w1
    using settles_rel [OF quiet_write_file that] by (simp add: quiet_def)
  with assms show ?thesis by (fastforce simp: launch_def seq_Some_iff popen_def running_def split: if_splits)
qed

lemma launch_patient: "settles (patient E) (\<lambda>_ _. True) (launch E d logname)"
  unfolding launch_def
  by (intro returning.forms returning_weaken [OF quiet_write_file]) (auto simp: settles_def popen_def)

definition vm_stopped :: "world \<Rightarrow> world \<Rightarrow> bool" where
  "vm_stopped w w' \<longleftrightarrow> procs w' = procs w \<or> (\<exists>d. procs w' = procs w @ [stopped d])"

lemma boot_and_freeze_stops: "settles (patient E) vm_stopped (boot_and_freeze E r snap work)"
proof (rule settlesI)
  fix w q w' assume "boot_and_freeze E r snap work w = Some (q, w')"
  then consider e where "launch E work (lit ''bake.log'') w = Some (Inl e, w')"
    | p w1 r1 w2 r2 where "launch E work (lit ''bake.log'') w = Some (Inr p, w1)"
        "bake_session E r snap work w1 = Some (r1, w2)" "stop_vm E p w2 = Some (r2, w')"
    by (auto simp: boot_and_freeze_def bind_Some_iff try_finally_Some_iff)
  then show "vm_stopped w w'"
  proof cases
    case 1
    with launch_run show ?thesis by (fastforce simp: vm_stopped_def)
  next
    case 2
    note l = launch_run [OF 2(1)]
    have "procs w2 = procs w @ [running work]"
      using l settles_rel [OF quiet_bake_session 2(2)] by (simp add: quiet_def)
    from stop_vm_last [OF this, of E] 2(3) l show ?thesis by (auto simp: vm_stopped_def)
  qed
next
  fix w assume "patient E w"
  moreover have "settles (patient E) (\<lambda>_ _. True) (boot_and_freeze E r snap work)"
    unfolding boot_and_freeze_def
    by (intro returning.forms launch_patient stop_vm_patient returning_weaken [OF quiet_bake_session])
  ultimately show "\<exists>q w'. boot_and_freeze E r snap work w = Some (q, w') \<and> patient E w'"
    using settlesD [of "patient E" "\<lambda>_ _. True"] by blast
qed

lemma quiet_vm_stopped: "settles I quiet m \<Longrightarrow> settles I vm_stopped m"
  by (erule settles_weaken) (simp add: quiet_def vm_stopped_def)

lemma vm_stopped_bind:
  assumes "settles I quiet m" and "\<And>a. settles I vm_stopped (f a)"
  shows "settles I vm_stopped (bind m f)"
proof (rule settlesI)
  fix w r w' assume "bind m f w = Some (r, w')"
  then show "vm_stopped w w'"
    by (auto simp: bind_Some_iff vm_stopped_def quiet_def dest!: settles_rel [OF assms(1)] settles_rel [OF assms(2)])
next
  fix w assume "I w"
  then show "\<exists>r w'. bind m f w = Some (r, w') \<and> I w'"
    using settlesD [OF returning.s_bind [of I m f, OF returning_weaken [OF assms(1)] returning_weaken [OF assms(2)]]] by blast
qed

lemma vm_stopped_seq:
  assumes "settles I vm_stopped m" and "settles I quiet n"
  shows "settles I vm_stopped (seq m n)"
proof (rule settlesI)
  fix w r w' assume "seq m n w = Some (r, w')"
  then show "vm_stopped w w'"
    by (auto simp: seq_Some_iff vm_stopped_def quiet_def dest!: settles_rel [OF assms(1)] settles_rel [OF assms(2)])
next
  fix w assume "I w"
  then show "\<exists>r w'. seq m n w = Some (r, w') \<and> I w'"
    using settlesD [OF returning.s_seq [OF returning_weaken [OF assms(1)] returning_weaken [OF assms(2)]]] by blast
qed

lemma vm_stopped_do_bake: "settles (patient E) vm_stopped (do_bake E recipe_path force work)"
proof -
  have rest: "settles (patient E) vm_stopped (seq (prepare_work E r kern wk) (seq (boot_and_freeze E r snap wk) n))"
    if "settles (patient E) quiet n" for r kern wk snap and n :: "int sys"
    unfolding seq_def [of "prepare_work _ _ _ _"]
    by (rule vm_stopped_bind [OF quiet_prepare_work vm_stopped_seq [OF boot_and_freeze_stops that]])
  have cur: "settles (patient E) quiet (if force then ret False else is_current E snap key)" for snap key
    by (intro quiet_base quiet_is_current)
  show ?thesis
    unfolding do_bake_def
    by (auto simp: Let_def intro!: vm_stopped_bind quiet_bake_plan cur rest quiet_record_base
        quiet_vm_stopped [OF quiet.s_ret])
qed

text \<open>
  C1: however a bake comes back (baked, cached, an error, an exception out of any step), whatever the VM and
  the rest of the host do meanwhile, \<open>terminate()\<close> and \<open>kill()\<close> have been called on the VM it started, and it
  never starts more than one.  It does come back when every peer it may talk to at some point stops sending.
\<close>

theorem do_bake_stops_vm:
  "(\<forall>r w'. do_bake E recipe_path force work w = Some (r, w') \<longrightarrow>
      procs w' = procs w \<or> (\<exists>d. procs w' = procs w @ [stopped d])) \<and>
   (patient E w \<longrightarrow> (\<exists>r w'. do_bake E recipe_path force work w = Some (r, w')))"
  using settles_rel [OF vm_stopped_do_bake] settlesD [OF vm_stopped_do_bake] unfolding vm_stopped_def by blast

text \<open>
  C33: no deadline stands over the reading of a reply, only a timeout over each \<open>recv\<close>.  A VM that meets its
  first command with a stream that goes on for ever, in which no byte is \<open>0x1e\<close> and each chunk comes within 30
  seconds of the one before, is read for ever: the bake never comes back, and its \<open>finally\<close> block, which would
  stop the VM, is never reached.
\<close>

theorem bake_hangs_on_stream:
  assumes "launch E work (lit ''bake.log'') w = Some (Inr p, w1)"
    and "wait_sock E (join work (lit ''b.sock'')) (seconds 40) w1 = Some (Inr True, w2)"
    and "dial E w2 (join work (lit ''b.sock'')) = (dt, Some s)"
    and "inbox s = []" and "peer s (blit ''__info__'' @ [10]) = []" and "broken s (blit ''__info__'' @ [10]) = None"
    and "streams (\<lambda>b. b \<noteq> RS) (s\<lparr>tmo := seconds 30, sent := blit ''__info__'' @ [10], shut := False, dripped := 0,
           now := clock w2 + dt\<rparr>)"
  shows "boot_and_freeze E r snap work w = None"
proof -
  let ?c = "s\<lparr>tmo := seconds 20, sent := [], shut := False, dripped := 0\<rparr>"
  define w3 where "w3 = (elapse E dt w2)\<lparr>socks := socks (elapse E dt w2) @ [?c]\<rparr>"
  have u: "uconn E (join work (lit ''b.sock'')) (seconds 20) w2 = Some (Inr (length (socks (elapse E dt w2))), w3)"
    using assms(3) by (simp add: uconn_def connect_def w3_def Let_def)
  have clk: "clock w3 = clock w2 + dt" by (simp add: w3_def elapse_def Let_def)
  have enc: "encode (lit ''__info__'') = Inr (blit ''__info__'')" by (simp add: blit_def encode_ascii lit_def)
  have "frame (s\<lparr>tmo := seconds 30, sent := blit ''__info__'' @ [10], shut := False, dripped := 0, now := clock w2 + dt\<rparr>) = None"
    unfolding frame_def by (rule read_loop_hangs [OF assms(7)]) (auto simp: list_all_iff)
  moreover have "send_line (lit ''__info__'') (?c\<lparr>now := clock w2 + dt, tmo := seconds 30\<rparr>) =
      Some (Inr (), s\<lparr>tmo := seconds 30, sent := blit ''__info__'' @ [10], shut := False, dripped := 0, now := clock w2 + dt\<rparr>)"
    using assms(4-6) by (simp add: send_line_def bind_lift enc sendall_def)
  ultimately have "cmd (lit ''__info__'') (seconds 30) (?c\<lparr>now := clock w2 + dt\<rparr>) = None"
    by (simp add: cmd_def bind_get seq_ret settimeout_run bind_diverge)
  then have "on_cmd E (length (socks (elapse E dt w2))) (lit ''__info__'') (seconds 30) w3 = None"
    using clk by (simp add: on_sock_def w3_def)
  then have "bake_session E r snap work w1 = None"
    using assms(2) u by (simp add: bake_session_def bind_ret seq_def bind_diverge)
  then show ?thesis using assms(1) by (simp add: boot_and_freeze_def bind_ret try_finally_def)
qed

section \<open>A bake that succeeded is a cache hit\<close>

lemma collect_changes:
  assumes "\<And>x w r w' q. x \<in> set xs \<Longrightarrow> f x w = Some (r, w') \<Longrightarrow> node_at (fs w') q \<noteq> node_at (fs w) q \<Longrightarrow> P q"
    and "collect xs f w = Some (r, w')" and "node_at (fs w') q \<noteq> node_at (fs w) q"
  shows "P q"
  using assms
proof (induction xs arbitrary: w r)
  case (Cons x xs)
  from Cons.prems(2) consider e where "f x w = Some (Inl e, w')"
    | a w1 r' where "f x w = Some (Inr a, w1)" "collect xs f w1 = Some (r', w')"
    by (auto simp: bind_Some_iff ret_def)
  then show ?case
  proof cases
    case 1
    with Cons.prems(1) [of x w "Inl e" w' q] Cons.prems(3) show ?thesis by simp
  next
    case 2
    then show ?thesis
      using Cons.prems(1,3) Cons.IH [of w1 r'] by (cases "node_at (fs w1) q = node_at (fs w) q") fastforce+
  qed
qed (simp add: ret_def)

text \<open>Whatever the manifests hold, only files of other snapshots of the directory can disappear.\<close>

lemma gc_superseded_spares:
  assumes "gc_superseded E d keep recipe w = Some (r, w')" and "node_at (fs w') q \<noteq> node_at (fs w) q"
  shows "\<exists>s \<in> set (snaps_of E d w). full E s \<noteq> full E keep \<and> q \<in> set (files_of E s)"
proof -
  have body: "full E s \<noteq> k \<and> q \<in> set (files_of E s)"
    if "gc_superseded_body E k recipe s w = Some (r, w')" "node_at (fs w') q \<noteq> node_at (fs w) q" for s w r w' q k
    using that
    by (auto simp: gc_superseded_body_def ret_def bind_def read_manifest_run lift_def seq_def reap_run node_at_rm
        split: if_splits sum.splits)
  have "collect (snaps_of E d w) (gc_superseded_body E (full E keep) recipe) w = Some (r, w')"
    using assms(1) by (simp add: gc_superseded_def bind_def glob_snaps_run)
  then show ?thesis
    by (rule collect_changes [rotated]) (use body assms(2) in blast)+
qed

text \<open>A path whose file is a name in a directory, and its manifest.\<close>

lemma full_snap:
  assumes "isabs (cwd E)" and "is_snap_name (basename snap)"
  shows "full E snap = join (full E (dir_or_dot snap)) (basename snap)"
    and "full E (manifest_path snap) = join (full E (dir_or_dot snap)) (basename snap @ lit ''.manifest.json'')"
proof -
  have p: "plain (basename snap)" using assms(2) basename_no_slash snap_name_plain by blast
  show "full E snap = join (full E (dir_or_dot snap)) (basename snap)"
    using abspath_split [OF assms(1) p] by (simp add: full_def dir_or_dot_def)
  have n: "5 \<le> length (basename snap)" using assms(2) by (auto simp: is_snap_name_def endswith_def suffix_def lit_def)
  have bn: "basename (manifest_path snap) = basename snap @ lit ''.manifest.json''"
    by (simp add: basename_def split_last_def manifest_path_def lit_def)
  have dn: "dirname (manifest_path snap) = dirname snap"
    by (simp add: dirname_def split_last_def manifest_path_def lit_def Let_def)
  have "plain (basename (manifest_path snap))" unfolding bn using p n by (intro plain_append) (auto simp: lit_def)
  from abspath_split [OF assms(1) this]
  show "full E (manifest_path snap) = join (full E (dir_or_dot snap)) (basename snap @ lit ''.manifest.json'')"
    by (simp add: full_def dir_or_dot_def bn dn)
qed

lemma gc_keeps_manifest:
  assumes "isabs (cwd E)" and "is_snap_name (basename snap)"
    and "gc_superseded E (dir_or_dot snap) snap recipe w = Some (r, w')"
  shows "node_at (fs w') (full E (manifest_path snap)) = node_at (fs w) (full E (manifest_path snap))"
proof (rule ccontr)
  let ?d = "dir_or_dot snap" and ?x = "lit ''.manifest.json''" and ?b = "basename snap"
  assume "node_at (fs w') (full E (manifest_path snap)) \<noteq> node_at (fs w) (full E (manifest_path snap))"
  then obtain m where m: "m \<in> set (snaps_in (full E ?d) (fs w))" "full E (join ?d m) \<noteq> full E snap"
    "full E (manifest_path snap) \<in> set (files_of E (join ?d m))"
    using gc_superseded_spares [OF assms(3)] by auto
  note fm = files_of_snap(1) [OF assms(1) m(1), of ?d] files_of_snap(2,3) [OF assms(1) m(1)]
  have pb: "plain ?b" using assms(2) basename_no_slash snap_name_plain by blast
  have "5 \<le> length ?b" using assms(2) by (auto simp: is_snap_name_def endswith_def suffix_def lit_def)
  then have pbx: "plain (?b @ ?x)" using pb by (intro plain_append) (auto simp: lit_def)
  have ns: "\<not> is_snap_name (?b @ ?x)" by (auto simp: is_snap_name_def endswith_def suffix_def lit_def)
  have "m \<noteq> ?b" using m(2) fm(1) full_snap [OF assms(1,2)] by auto
  moreover have "m \<noteq> ?b @ ?x" using ns m(1) by (auto simp: snaps_in_iff)
  ultimately show False
    using m(3) fm full_snap(2) [OF assms(1,2)] join_inj [OF pbx plain_snap [OF m(1)], of "full E ?d"]
      join_inj [OF pbx fm(2), of "full E ?d"] by auto
qed

lemma is_current_run:
  "is_current E snap key w =
     Some (if stat E snap w = None then Inr False
           else ebind (manifest_in E (contents E (manifest_path snap) w)) (\<lambda>m. key_matches m key), w)"
  by (auto simp: is_current_def bind_path_exists ret_def bind_def [of "read_manifest E snap"] read_manifest_run lift_def
      split: sum.splits)

lemma resolve_not_link: "resolve k f p = Some q \<Longrightarrow> link_free f q"
  by (induction k arbitrary: p) (auto simp: link_free_def split: option.splits node.splits)

text \<open>What a write that succeeded leaves at a path that is no link afterwards.\<close>

lemma write_file_node:
  assumes "write_file E p b w = Some (Inr (), w')" and "link_free (fs w') (full E p)"
  shows "node_at (fs w') (full E p) = Some (File b (clock w))"
proof -
  obtain q where q: "resolve 41 (fs w) (full E p) = Some q" "writable q w"
    "w' = w\<lparr>fs := fs_put q (File b (clock w)) (fs w)\<rparr>"
    using assms(1) by (auto simp: write_file_def split: option.splits if_splits)
  have nr: "q \<noteq> lit ''/''" using q(2) by (auto simp: writable_def node_at_def)
  have "q = full E p"
  proof (rule ccontr)
    assume "q \<noteq> full E p"
    then have "node_at (fs w') (full E p) = node_at (fs w) (full E p)" by (simp add: q(3) node_at_def map_of_fs_put)
    then have "link_free (fs w) (full E p)" using assms(2) by (simp add: link_free_def)
    then have "resolve 41 (fs w) (full E p) = Some (full E p)" by (simp add: resolve_link_free)
    with q(1) \<open>q \<noteq> full E p\<close> show False by simp
  qed
  then show ?thesis using q(3) nr by (simp add: node_at_def map_of_fs_put)
qed

lemma write_manifest_node:
  assumes "write_manifest E snap key recipe created w = Some (Inr m, w')"
    and "json_safe (manifest_value snap key recipe created)" and "link_free (fs w') (full E (manifest_path snap))"
  shows "\<exists>b t. node_at (fs w') (full E (manifest_path snap)) = Some (File b t) \<and>
           manifest_in E (Some b) = Inr (manifest_value snap key recipe created)"
proof -
  let ?m = "manifest_value snap key recipe created"
  let ?t = "json_text (py_repr E) 0 ?m"
  have e: "encode ?t = Inr (map word_of_nat ?t)" by (rule encode_json_text [OF assms(2)])
  have "write_file E (manifest_path snap) (map word_of_nat ?t) w = Some (Inr (), w')"
    using assms(1) e json_exact_ok [of ?m] assms(2)
    by (auto simp: json_safe_def write_manifest_def Let_def write_text_def seq_Some_iff ret_def)
  then show ?thesis using write_file_node assms(3) manifest_in_text [OF assms(2)] by blast
qed

lemma record_base_current:
  assumes "record_base E p snap (base_key b k i h) w = Some (Inr 0, w1)"
    and "isabs (cwd E)" and "is_snap_name (basename snap)" and "stat E snap w1 \<noteq> None"
    and "link_free (fs w1) (full E (manifest_path snap))" and "\<not> denied w1 Rd (full E (manifest_path snap))"
    and "\<forall>t. json_safe (manifest_value snap (base_key b k i h) (full E p) (utc_text E t))"
  shows "is_current E snap (base_key b k i h) w1 = Some (Inr True, w1)"
proof -
  let ?key = "base_key b k i h" and ?M = "full E (manifest_path snap)"
  obtain t m w3 r where wm: "write_manifest E snap ?key (full E p) (utc_text E t) w = Some (Inr m, w3)"
    and gc: "gc_superseded E (dir_or_dot snap) snap (full E p) w3 = Some (r, w1)"
    using assms(1) by (auto simp: record_base_def time_time_def bind_get seq_Some_iff ret_def)
  have same: "node_at (fs w1) ?M = node_at (fs w3) ?M" by (rule gc_keeps_manifest [OF assms(2,3) gc])
  then have "link_free (fs w3) ?M" using assms(5) by (simp add: link_free_def)
  then obtain c u where "node_at (fs w3) ?M = Some (File c u)"
    "manifest_in E (Some c) = Inr (manifest_value snap ?key (full E p) (utc_text E t))"
    using write_manifest_node [OF wm] assms(7) by blast
  moreover from this have "contents E (manifest_path snap) w1 = Some c"
    using same assms(5,6) by (simp add: contents_link_free)
  moreover have "key_matches (manifest_value snap ?key (full E p) (utc_text E t)) ?key = Inr True"
    by (simp add: key_matches_def manifest_value_def lit_def) (simp add: py_eq_base_key)
  ultimately show ?thesis using assms(4) by (simp add: is_current_run)
qed

text \<open>A bake that returned 0 has left a base whose manifest is current.\<close>

lemma bake_leaves_current:
  assumes "do_bake E p force work w = Some (Inr 0, w1)"
    and "bake_plan E p w = Some (Inr (r, snap, base_key b k i h, kern), w)"
    and "stat E snap w1 \<noteq> None" and "isabs (cwd E)" and "is_snap_name (basename snap)"
    and "link_free (fs w1) (full E (manifest_path snap))" and "\<not> denied w1 Rd (full E (manifest_path snap))"
    and "\<forall>t. json_safe (manifest_value snap (base_key b k i h) (full E p) (utc_text E t))"
  shows "is_current E snap (base_key b k i h) w1 = Some (Inr True, w1)"
proof (cases "\<not> force \<and> is_current E snap (base_key b k i h) w = Some (Inr True, w)")
  case True
  then have "w1 = w" using assms(1,2) by (auto simp: do_bake_def bind_def ret_def)
  with True show ?thesis by simp
next
  case False
  have run: "(if force then ret False else is_current E snap (base_key b k i h)) w = Some (Inr False, w)"
    using False assms(1,2)
    by (auto simp: do_bake_def bind_def ret_def is_current_run split: if_splits sum.splits)
  then obtain w2 where "record_base E p snap (base_key b k i h) w2 = Some (Inr 0, w1)"
    using assms(1,2) by (auto simp: do_bake_def bind_def [of "bake_plan E p"] bind_def [of "if force then _ else _"]
        seq_Some_iff Let_def)
  then show ?thesis by (rule record_base_current [OF _ assms(4,5,3,6-8)])
qed

text \<open>The base whose manifest is current is no garbage for the build that baked it.\<close>

lemma current_not_garbage:
  assumes "is_current E snap (base_key b k i h) w = Some (Inr True, w)" and "\<And>t. json_typed (float_of E t)"
  shows "\<not> garbage E b orphans snap w"
proof -
  obtain m where mi: "manifest_in E (contents E (manifest_path snap) w) = Inr m" and km: "key_matches m (base_key b k i h) = Inr True"
    using assms(1) by (auto simp: is_current_run ebind_def split: if_splits sum.splits)
  have ty: "json_typed m"
    using mi json_loads_typed [of "float_of E", OF assms(2)] by (auto simp: manifest_in_def split: option.splits sum.splits if_splits)
  obtain d where m: "m = PDict d" "d \<noteq> []" using km by (cases m) (auto simp: key_matches_def split: if_splits)
  obtain v where v: "map_of d (lit ''key'') = Some v" "py_eq v (base_key b k i h)"
    using km m by (auto simp: key_matches_def base_key_def split: option.splits)
  obtain e where e: "v = PDict e" using v(2) unfolding base_key_def by (rule py_eq_to_dict)
  have "json_typed v" using ty m v(1) by (auto simp: list_all_iff dest!: map_of_SomeD)
  then have dist: "distinct (map fst e)" using e by simp
  from v(2) e have len: "length e = 4" and sub: "\<forall>(k', x) \<in> set e. \<exists>y. map_of (case base_key b k i h of PDict q \<Rightarrow> q) k' = Some y \<and> py_eq x y"
    by (auto simp: base_key_def py_eq_dict)
  have "fst ` set e \<subseteq> {lit ''nether_build'', lit ''kernel_sha'', lit ''initramfs_sha'', lit ''recipe_sha''}"
    using sub by (fastforce simp: base_key_def split: if_splits)
  moreover have "card (fst ` set e) = 4" using dist len by (metis distinct_card length_map set_map)
  moreover have "card {lit ''nether_build'', lit ''kernel_sha'', lit ''initramfs_sha'', lit ''recipe_sha''} = 4"
    by (simp add: lit_def)
  ultimately have "lit ''nether_build'' \<in> fst ` set e" by (metis card_subset_eq finite.emptyI finite.insertI insertI1)
  then obtain x where x: "(lit ''nether_build'', x) \<in> set e" by auto
  with sub have "py_eq x (PStr b)" by (fastforce simp: base_key_def)
  moreover have "map_of e (lit ''nether_build'') = Some x" using x dist by simp
  ultimately show ?thesis using m mi v(1) e by (simp add: py_eq_to_PStr garbage_def stale_build_def)
qed

text \<open>
  C8: a bake is idempotent: after one that returned 0, with the base still there and the inputs
  (build, image, recipe) unchanged, the next bake of the same recipe returns 0 and does nothing:
  no VM, no file written or removed, no time spent waiting.
\<close>

theorem bake_again_is_cache_hit:
  assumes "do_bake E p force work w = Some (Inr 0, w1)"
    and "bake_plan E p w = Some (Inr (r, snap, base_key b k i h, kern), w)"
    and "bake_plan E p w1 = Some (Inr (r', snap, base_key b k i h, kern'), w1)"
    and "stat E snap w1 \<noteq> None" and "isabs (cwd E)" and "is_snap_name (basename snap)"
    and "link_free (fs w1) (full E (manifest_path snap))" and "\<not> denied w1 Rd (full E (manifest_path snap))"
    and "\<forall>t. json_safe (manifest_value snap (base_key b k i h) (full E p) (utc_text E t))"
  shows "do_bake E p False work w1 = Some (Inr 0, w1)"
  using bake_leaves_current [OF assms(1,2,4-9)] assms(3) by (simp add: do_bake_def bind_def ret_def)

section \<open>The transfer limit\<close>

text \<open>
  C36: the transfer limit is checked on the wrong file when the recipe names a host file by a relative path:
  validation looks it up from the working directory, the bake pushes the one beside the recipe.  A file
  over the limit that exists only there passes validation and is sent.
\<close>

theorem push_over_limit:
  assumes "h \<noteq> []" and "\<not> isabs h" and "stat E h w = None"
    and "stat E (join dir h) w = Some n" and "MAX_XFER < node_size n"
    and "f = PDict [(lit ''host'', PStr h), (lit ''guest'', PStr g)]" and "py_index r (lit ''_dir'') = Inr (PStr dir)"
  shows "check_file E f w = Some (Inr (), w) \<and>
         push_file E s r f = seq (on_cmd E s (lit ''__put__ '' @ join dir h @ lit '' '' @ g) (seconds 30)) (ret ())"
proof
  have "file_fits E w f" using assms by (simp add: file_fits_def lit_def)
  then show "check_file E f w = Some (Inr (), w)" by (simp add: check_file_ok)
  show "push_file E s r f = seq (on_cmd E s (lit ''__put__ '' @ join dir h @ lit '' '' @ g) (seconds 30)) (ret ())"
    using assms by (simp add: push_file_def bind_lift host_path_def lit_def)
qed

section \<open>Fork\<close>

lemma nether_transform_returns: "\<exists>r w'. nether_transform E a b src dst w = Some (r, w')"
proof -
  have "settles (\<lambda>_. True) (\<lambda>_ _. True) (nether_transform E a b src dst)"
    unfolding nether_transform_def write_text_def
    by (intro returning.forms)
       (auto simp: settles_def mkdtemp_def write_file_def run_nether_def rmtree_def modify_def Let_def
         split: option.splits prod.splits run_result.splits)
  then show ?thesis by (simp add: settles_def)
qed

text \<open>What a successful transform has done: the binary ran over the configuration and exited with 0.\<close>

lemma nether_transform_ran:
  assumes "nether_transform E a b src dst w = Some (Inr True, w')"
  shows "\<exists>wd w0 w1. write_text E (join wd (lit ''nether.conf''))
             (lit a @ lit ''='' @ full E src @ [10] @ lit b @ lit ''='' @ full E dst @ [10]) w0 = Some (Inr (), w1) \<and>
           snd (snd (run_bin E w1 wd)) = Code 0"
proof -
  have "snd (snd (run_bin E u d)) = Code c" if "run_nether E d u = Some (Inr c, u')" for d u u' c
    using that by (auto simp: run_nether_def Let_def split: prod.splits run_result.splits)
  moreover obtain wd w0 w1 w2 where
      "write_text E (join wd (lit ''nether.conf''))
         (lit a @ lit ''='' @ full E src @ [10] @ lit b @ lit ''='' @ full E dst @ [10]) w0 = Some (Inr (), w1)"
      "run_nether E wd w1 = Some (Inr 0, w2)"
    using assms by (auto simp: nether_transform_def bind_Some_iff seq_Some_iff try_finally_Some_iff ret_def)
  ultimately show ?thesis by blast
qed

text \<open>
  C34: the base a fork runs from is never a stale copy.  A base that is not compressed is forked as it is,
  and nothing is run or written.  For a compressed one the hydrated copy beside it is taken as it is exactly
  when it is there and at least as new as the base; in every other case it is taken only after the binary has
  rehydrated the base to that path and exited with 0, and an error is raised otherwise.
\<close>

theorem ensure_forkable_not_stale:
  fixes E snap w
  defines "hy \<equiv> snap @ lit ''.hydrated''"
  shows "\<exists>r w'. ensure_forkable E snap w = Some (r, w') \<and>
    (if Option.bind (contents E snap w) (header_field 84) \<noteq> Some RAM_COMPRESSED then r = Inr snap \<and> w' = w
     else if (\<exists>n h. stat E snap w = Some n \<and> stat E hy w = Some h \<and> node_mtime n \<le> node_mtime h)
     then r = Inr hy \<and> w' = w
     else (case r of
             Inl e \<Rightarrow> True
           | Inr p \<Rightarrow> p = hy \<and>
               (\<exists>wd w0 w1. write_text E (join wd (lit ''nether.conf''))
                  (lit ''rehydrate_in='' @ full E snap @ [10] @ lit ''rehydrate_out='' @ full E hy @ [10]) w0 = Some (Inr (), w1) \<and>
                snd (snd (run_bin E w1 wd)) = Code 0)))"
proof (cases "Option.bind (contents E snap w) (header_field 84) \<noteq> Some RAM_COMPRESSED")
  case True
  then show ?thesis by (simp add: ensure_forkable_def bind_def [of "read_snap_encoding E snap"] read_snap_encoding_run ret_def)
next
  case False
  have lits: "lit ''rehydrate_in'' @ lit ''='' @ x = lit ''rehydrate_in='' @ x"
    "lit ''rehydrate_out'' @ lit ''='' @ x = lit ''rehydrate_out='' @ x" for x by (simp_all add: lit_def)
  let ?fresh = "\<exists>n h. stat E snap w = Some n \<and> stat E hy w = Some h \<and> node_mtime n \<le> node_mtime h"
  have "contents E snap w \<noteq> None" using False by (cases "contents E snap w") auto
  then obtain n where n: "stat E snap w = Some n" by (auto simp: contents_def stat_def split: option.splits)
  let ?run = "bind (nether_transform E ''rehydrate_in'' ''rehydrate_out'' snap hy) (\<lambda>k. if \<not> k then die else ret hy)"
  have run: "ensure_forkable E snap w = (if ?fresh then Some (Inr hy, w) else ?run w)"
    using False n
    by (auto simp: ensure_forkable_def bind_def [of "read_snap_encoding E snap"] read_snap_encoding_run ret_def Let_def
        bind_path_exists bind_getmtime bind_def [of "if _ then _ else _"] bind_def [of "bind _ _"] hy_def [symmetric]
        split: option.splits)
  obtain r w' where t: "nether_transform E ''rehydrate_in'' ''rehydrate_out'' snap hy w = Some (r, w')"
    using nether_transform_returns by blast
  show ?thesis
  proof (cases ?fresh)
    case fresh: True
    then have "ensure_forkable E snap w = Some (Inr hy, w)" using run by simp
    then show ?thesis using False fresh by simp
  next
    case stale: False
    have ef: "ensure_forkable E snap w = ?run w" unfolding run if_not_P [OF stale] ..
    show ?thesis
    proof (cases "r = Inr True")
      case True
      with t have "nether_transform E ''rehydrate_in'' ''rehydrate_out'' snap hy w = Some (Inr True, w')" by simp
      note ran = nether_transform_ran [OF this, unfolded lits]
      have "ensure_forkable E snap w = Some (Inr hy, w')" using ef t True by (simp add: bind_def ret_def)
      with ran False show ?thesis unfolding if_not_P [OF stale] by simp
    next
      case no: False
      then obtain e where "ensure_forkable E snap w = Some (Inl e, w')"
        using ef t by (cases r) (auto simp: bind_def die_def raise_def)
      with False show ?thesis unfolding if_not_P [OF stale] by simp
    qed
  qed
qed

lemma quiet_ensure_forkable: "settles (patient E) quiet (ensure_forkable E snap)"
  unfolding ensure_forkable_def read_snap_encoding_def read_header_def Let_def
  by (intro quiet_base quiet_nether_transform quiet_die)

lemma quiet_warn_build: "settles (patient E) quiet (warn_build E m)"
  unfolding warn_build_def by (intro quiet_base quiet_nether_build_id)

lemma quiet_fork_probe: "settles (patient E) quiet (fork_probe E fsk)"
  unfolding fork_probe_def uconn_def by (intro quiet_base)

text \<open>A statement that ends with a launched VM when it returns a value, and with none when it raises before.\<close>

definition leaves_vm :: "(world \<Rightarrow> bool) \<Rightarrow> int sys \<Rightarrow> bool" where
  "leaves_vm I m \<longleftrightarrow> settles I (\<lambda>_ _. True) m \<and> (\<forall>w r w'. m w = Some (r, w') \<longrightarrow>
     (\<exists>e. r = Inl e) \<and> procs w' = procs w \<or> (\<exists>d. procs w' = procs w @ [running d]))"

lemma leaves_vm_bind:
  assumes "settles I quiet m" and "\<And>a. leaves_vm I (f a)"
  shows "leaves_vm I (bind m f)"
proof -
  have "settles I (\<lambda>_ _. True) (bind m f)"
    using assms by (intro returning.s_bind returning_weaken [OF assms(1)]) (simp add: leaves_vm_def)
  moreover have "(\<exists>e. r = Inl e) \<and> procs w' = procs w \<or> (\<exists>d. procs w' = procs w @ [running d])"
    if run: "bind m f w = Some (r, w')" for w r w'
  proof -
    from run consider e where "r = Inl e" "m w = Some (Inl e, w')"
      | a w1 where "m w = Some (Inr a, w1)" "f a w1 = Some (r, w')" by (auto simp: bind_Some_iff)
    then show ?thesis
    proof cases
      case 1
      then show ?thesis using settles_rel [OF assms(1)] by (auto simp: quiet_def)
    next
      case 2
      then show ?thesis using settles_rel [OF assms(1) 2(1)] assms(2) [of a] unfolding leaves_vm_def quiet_def by metis
    qed
  qed
  ultimately show ?thesis by (simp add: leaves_vm_def)
qed

lemma leaves_vm_seq: "settles I quiet m \<Longrightarrow> leaves_vm I n \<Longrightarrow> leaves_vm I (seq m n)"
  by (simp add: seq_def leaves_vm_bind)

lemma leaves_vm_if: "(b \<Longrightarrow> leaves_vm I m) \<Longrightarrow> (\<not> b \<Longrightarrow> leaves_vm I n) \<Longrightarrow> leaves_vm I (if b then m else n)"
  by simp

lemma leaves_vm_launch:
  assumes "settles (patient E) quiet n"
  shows "leaves_vm (patient E) (seq (launch E d logname) n)"
proof -
  have "settles (patient E) (\<lambda>_ _. True) (seq (launch E d logname) n)"
    by (intro returning.s_seq launch_patient returning_weaken [OF assms])
  moreover have "(\<exists>e. r = Inl e) \<and> procs w' = procs w \<or> (\<exists>d. procs w' = procs w @ [running d])"
    if run: "seq (launch E d logname) n w = Some (r, w')" for w r w'
  proof -
    from run consider e where "r = Inl e" "launch E d logname w = Some (Inl e, w')"
      | p w1 where "launch E d logname w = Some (Inr p, w1)" "n w1 = Some (r, w')" by (auto simp: seq_Some_iff)
    then show ?thesis
    proof cases
      case 1
      then show ?thesis using launch_run by fastforce
    next
      case 2
      then show ?thesis using launch_run [OF 2(1)] settles_rel [OF assms 2(2)] by (auto simp: quiet_def)
    qed
  qed
  ultimately show ?thesis by (simp add: leaves_vm_def)
qed

lemma leaves_vm_do_fork: "leaves_vm (patient E) (do_fork E snap name work)"
proof -
  have die: "leaves_vm (patient E) die" by (simp add: leaves_vm_def die_def raise_def settles_def)
  show ?thesis
    unfolding do_fork_def Let_def
    by (intro leaves_vm_if leaves_vm_launch leaves_vm_bind leaves_vm_seq die quiet_base
        quiet_read_manifest quiet_warn_build quiet_ensure_forkable quiet_poll quiet_fork_probe) simp_all
qed

text \<open>
  C15: whenever a fork returns a status, 0 or 1, it has started one VM and called neither \<open>terminate()\<close> nor
  \<open>kill()\<close> on it: the VM of a fork that never became driveable is not stopped.  When it raises it has done
  so before starting one, or left one.  It comes back when every peer it may talk to at some point stops sending.
\<close>

theorem do_fork_leaves_vm:
  "(\<forall>r w'. do_fork E snap name work w = Some (r, w') \<longrightarrow>
      (\<exists>e. r = Inl e) \<and> procs w' = procs w \<or> (\<exists>d. procs w' = procs w @ [running d])) \<and>
   (patient E w \<longrightarrow> (\<exists>r w'. do_fork E snap name work w = Some (r, w')))"
  using leaves_vm_do_fork [of E snap name work] settlesD [of "patient E" "\<lambda>_ _. True"] unfolding leaves_vm_def by blast

end
