(* ===== verification/Cli.thy ===== *)
theory Cli
  imports Bake
begin

text \<open>
  The command line of \<open>scripts/bake.py\<close> (\<open>main\<close>) and the self-test it can run: the tool's own check
  of the manifest, the collectors, the park reaper and the header readers in a scratch directory.
  Every command comes back, as far as the VMs it talks to stop sending.
\<close>

section \<open>The self-test\<close>

text \<open>\<open>os.utime(p, (t, t))\<close>; times before the epoch are not modelled.\<close>

definition os_utime :: "env \<Rightarrow> pystr \<Rightarrow> nat \<Rightarrow> unit sys" where
  "os_utime E p t w =
     (case resolve 41 (fs w) (full E p) of
        None \<Rightarrow> Some (Inl OSError, w)
      | Some q \<Rightarrow>
          (case node_at (fs w) q of
             None \<Rightarrow> Some (Inl OSError, w)
           | Some (File b _) \<Rightarrow> Some (Inr (), w\<lparr>fs := fs_put q (File b t) (fs w)\<rparr>)
           | Some _ \<Rightarrow> Some (Inr (), w)))"

definition selftest_key :: pyval where
  "selftest_key = PDict [(lit ''nether_build'', PStr (lit ''b1'')), (lit ''kernel_sha'', PStr (lit ''k'')),
     (lit ''initramfs_sha'', PNone), (lit ''recipe_sha'', PStr (lit ''r''))]"

text \<open>Manifest round trip and key match; the result is what the checks make of \<open>ok\<close>.\<close>

definition selftest_manifest :: "env \<Rightarrow> pystr \<Rightarrow> bool sys" where
  "selftest_manifest E snap =
     seq (write_file E snap [0x78]) (
     seq (write_manifest E snap selftest_key (lit ''/r.toml'') (lit ''t'')) (
     bind (read_manifest E snap) (\<lambda>m.
     bind (lift (py_index m (lit ''key''))) (\<lambda>k.
     bind (read_manifest E snap) (\<lambda>m1.
     bind (lift (key_matches m1 selftest_key)) (\<lambda>exact.
     bind (if \<not> exact then ret False
           else
             bind (read_manifest E snap) (\<lambda>m2.
             bind (lift (py_set selftest_key (lit ''recipe_sha'') (PStr (lit ''r2'')))) (\<lambda>key2.
             bind (lift (key_matches m2 key2)) (\<lambda>x. ret (\<not> x))))) (\<lambda>only.
     ret (py_eq k selftest_key \<and> only))))))))"

text \<open>\<open>gc_superseded\<close> reaps the old generation and keeps the current base and an orphan.\<close>

definition selftest_gc :: "env \<Rightarrow> pystr \<Rightarrow> pystr \<Rightarrow> bool sys" where
  "selftest_gc E d snap =
     (let old = join d (lit ''old.snap''); orph = join d (lit ''orph.snap'') in
      seq (write_file E old [0x79]) (
      bind (lift (py_set selftest_key (lit ''nether_build'') (PStr (lit ''b0'')))) (\<lambda>key0.
      seq (write_manifest E old key0 (lit ''/r.toml'') (lit ''t0'')) (
      bind (gc_superseded E d snap (lit ''/r.toml'')) (\<lambda>reaped.
      bind (path_exists E snap) (\<lambda>kept.
      bind (path_exists E (manifest_path old)) (\<lambda>left.
      seq (write_file E orph [0x7a]) (
      seq (gc_superseded E d snap (lit ''/r.toml'')) (
      bind (path_exists E orph) (\<lambda>orphan.
      ret (lit ''old.snap'' \<in> set reaped \<and> kept \<and> \<not> left \<and> orphan)))))))))))"

text \<open>The header that \<open>wsnap\<close> and \<open>wsnap2\<close> write, with one field set.\<close>

definition selftest_header :: "nat \<Rightarrow> nat \<Rightarrow> exn + bytes" where
  "selftest_header off v =
     ebind (pack_into 4 0 SNAP_MAGIC (replicate SNAP_HDR_SIZE 0)) (\<lambda>h.
     ebind (pack_into 4 4 SNAP_VERSION h) (\<lambda>h. pack_into 4 off v h))"

definition wsnap :: "env \<Rightarrow> pystr \<Rightarrow> pystr \<Rightarrow> nat \<Rightarrow> nat \<Rightarrow> pystr sys" where
  "wsnap E pd name kind age_s =
     (let p = join pd name in
      bind (lift (selftest_header 80 kind)) (\<lambda>h.
      seq (write_file E p h) (
      bind time_time (\<lambda>c.
      seq (os_utime E p (c - seconds age_s)) (ret p)))))"

definition wsnap2 :: "env \<Rightarrow> pystr \<Rightarrow> pystr \<Rightarrow> nat \<Rightarrow> pystr sys" where
  "wsnap2 E pd name encoding =
     (let p = join pd name in
      bind (lift (selftest_header 84 encoding)) (\<lambda>h. seq (write_file E p h) (ret p)))"

text \<open>An expired park is reaped by kind and age; a base, a fresh park and junk survive.\<close>

definition selftest_parks :: "env \<Rightarrow> pystr \<Rightarrow> bool sys" where
  "selftest_parks E pd =
     seq (makedirs E pd False) (
     bind (wsnap E pd (lit ''old.park.snap'') SNAP_KIND_PARK 10000) (\<lambda>old_park.
     bind (wsnap E pd (lit ''new.park.snap'') SNAP_KIND_PARK 5) (\<lambda>new_park.
     bind (wsnap E pd (lit ''keep.base.snap'') SNAP_KIND_BASE 10000) (\<lambda>a_base.
     let junk = join pd (lit ''junk.snap'') in
     seq (write_file E junk (map word_of_nat (lit ''not a snapshot header''))) (
     bind (reap_parks E pd 3600 False None) (\<lambda>reaped.
     let names = map fst reaped in
     bind (path_exists E old_park) (\<lambda>old_left.
     bind (path_exists E new_park) (\<lambda>new_left.
     bind (path_exists E a_base) (\<lambda>base_left.
     bind (path_exists E junk) (\<lambda>junk_left.
     bind (reap_parks E pd 1 True None) (\<lambda>would.
     bind (path_exists E new_park) (\<lambda>still.
     ret ((lit ''old.park.snap'' \<in> set names \<and> \<not> old_left) \<and> (lit ''new.park.snap'' \<notin> set names \<and> new_left) \<and>
          base_left \<and> junk_left \<and> (would \<noteq> [] \<and> still))))))))))))))"

text \<open>The encoding is read, and a full base needs no rehydration.\<close>

definition selftest_compress :: "env \<Rightarrow> pystr \<Rightarrow> bool sys" where
  "selftest_compress E pd =
     bind (wsnap2 E pd (lit ''full.base.snap'') RAM_FULL) (\<lambda>full.
     bind (wsnap2 E pd (lit ''comp.base.snap'') RAM_COMPRESSED) (\<lambda>comp.
     bind (read_snap_encoding E full) (\<lambda>a.
     bind (read_snap_encoding E comp) (\<lambda>b.
     bind (ensure_forkable E full) (\<lambda>f.
     ret (a = Some RAM_FULL \<and> b = Some RAM_COMPRESSED \<and> f = full))))))"

definition selftest :: "env \<Rightarrow> int sys" where
  "selftest E =
     bind (mkdtemp E) (\<lambda>d.
     let snap = join d (lit ''a.snap''); pd = join d (lit ''parks'') in
     bind (selftest_manifest E snap) (\<lambda>ok1.
     bind (selftest_gc E d snap) (\<lambda>ok2.
     bind (selftest_parks E pd) (\<lambda>ok3.
     bind (selftest_compress E pd) (\<lambda>ok4.
     seq (rmtree E d) (ret (if ok1 \<and> ok2 \<and> ok3 \<and> ok4 then 0 else 1)))))))"

section \<open>The command line\<close>

text \<open>\<open>argv[argv.index(o) + 1] if o in argv else d\<close>\<close>

definition opt_arg :: "pystr list \<Rightarrow> pystr \<Rightarrow> pystr \<Rightarrow> exn + pystr" where
  "opt_arg argv opt d =
     (case index_of opt argv of
        None \<Rightarrow> Inr d
      | Some i \<Rightarrow> if i + 1 < length argv then Inr (argv ! (i + 1)) else Inl IndexError)"

definition run_gc :: "env \<Rightarrow> pystr list \<Rightarrow> int sys" where
  "run_gc E argv =
     bind (lift (opt_arg argv (lit ''--dir'') (lit ''.''))) (\<lambda>d.
     if lit ''--parks'' \<in> set argv then
       (if lit ''--ttl-s'' \<notin> set argv then die
        else
          bind (lift (opt_arg argv (lit ''--ttl-s'') [])) (\<lambda>a.
          case py_int a of
            None \<Rightarrow> raise ValueError
          | Some ttl \<Rightarrow> seq (reap_parks E d ttl (lit ''--dry-run'' \<in> set argv) None) (ret 0)))
     else do_gc E d (lit ''--orphans'' \<in> set argv))"

definition main :: "env \<Rightarrow> pystr list \<Rightarrow> int sys" where
  "main E argv =
     (case argv of
        [] \<Rightarrow> ret 2
      | cmd0 # rest \<Rightarrow>
          if cmd0 = lit ''bake'' then
            (case rest of [] \<Rightarrow> die | p # _ \<Rightarrow> do_bake E p (lit ''--force'' \<in> set argv) None)
          else if cmd0 = lit ''fork'' then
            (case rest of
               [] \<Rightarrow> die
             | p # _ \<Rightarrow> bind (lift (opt_arg argv (lit ''--name'') (lit ''fork''))) (\<lambda>name. do_fork E p name None))
          else if cmd0 = lit ''gc'' then run_gc E argv
          else if cmd0 = lit ''selftest'' then selftest E
          else die)"

section \<open>Every command comes back\<close>

lemma returning_do_gc: "settles (patient E) quiet (do_gc E d orphans)"
  unfolding do_gc_def do_gc_reaped_def do_gc_body_def
  by (intro quiet_base quiet_nether_build_id quiet_read_manifest quiet_reap)

lemma returning_reap_parks: "settles (patient E) quiet (reap_parks E d ttl dry t)"
  unfolding reap_parks_def reap_parks_body_def read_snap_kind_def read_header_def
  by (intro quiet_base quiet_reap)

lemma quiet_os_utime: "settles (patient E) quiet (os_utime E p t)"
  by (auto simp: settles_def os_utime_def quiet_def split: option.splits node.splits)

lemma quiet_selftest: "settles (patient E) quiet (selftest E)"
  unfolding selftest_def selftest_manifest_def selftest_gc_def selftest_parks_def selftest_compress_def wsnap_def
    wsnap2_def read_snap_encoding_def read_header_def Let_def
  by (intro quiet_base quiet_write_manifest quiet_read_manifest quiet_gc_superseded quiet_os_utime returning_reap_parks
      quiet_ensure_forkable)

text \<open>
  C14: every command line of the tool comes back, on every host, whatever the other processes do, when every
  peer it may talk to at some point stops sending: no answer, a partial or a slow one, a refused or
  a reset connection, a failing send and a VM that never gets ready all end.
\<close>

theorem main_returns:
  assumes "patient E w"
  shows "\<exists>r w'. main E argv w = Some (r, w')"
proof -
  have bake: "settles (patient E) (\<lambda>_ _. True) (do_bake E p fo wk)" for p fo wk
    by (rule returning_weaken [OF vm_stopped_do_bake])
  have fork: "settles (patient E) (\<lambda>_ _. True) (do_fork E p nm wk)" for p nm wk
    using leaves_vm_do_fork unfolding leaves_vm_def by blast
  have gc: "settles (patient E) (\<lambda>_ _. True) (run_gc E argv)"
    unfolding run_gc_def
    by (intro returning.forms returning_weaken [OF returning_do_gc] returning_weaken [OF returning_reap_parks]
        returning_weaken [OF quiet_die])
  have "settles (patient E) (\<lambda>_ _. True) (main E argv)"
    unfolding main_def
    by (intro returning.forms bake fork gc returning_weaken [OF quiet_die] returning_weaken [OF quiet_selftest])
  from settlesD [OF this assms] show ?thesis by blast
qed

end
