(* ===== verification/Harness.thy ===== *)
theory Harness
  imports Bake
begin

text \<open>
  What the live proof scripts share: the list \<open>procs\<close> of the VMs a script has started, kept next to the
  world so that a \<open>finally\<close> block sees it; starting a VM and noting it; stopping all of them; the
  guest-side \<open>cat\<close>, the HTTP probe \<open>hit\<close> and the polling idioms.  \<open>keeps\<close> is the partial-correctness
  counterpart of \<open>settles\<close>: these scripts use readers that may never return, so what is shown about
  their VMs holds whenever, and however, they come back.
\<close>

section \<open>Invariants of programs that may not return\<close>

definition keeps :: "('s \<Rightarrow> bool) \<Rightarrow> ('s, 'a) io \<Rightarrow> bool" where
  "keeps I m \<longleftrightarrow> (\<forall>s r s'. I s \<longrightarrow> m s = Some (r, s') \<longrightarrow> I s')"

lemma keepsI: "(\<And>s r s'. I s \<Longrightarrow> m s = Some (r, s') \<Longrightarrow> I s') \<Longrightarrow> keeps I m"
  by (auto simp: keeps_def)

lemma keepsD: "keeps I m \<Longrightarrow> I s \<Longrightarrow> m s = Some (r, s') \<Longrightarrow> I s'"
  by (auto simp: keeps_def)

lemma keeps_ret: "keeps I (ret a)"
  by (simp add: keeps_def ret_def)

lemma keeps_raise: "keeps I (raise e)"
  by (simp add: keeps_def raise_def)

lemma keeps_lift: "keeps I (lift r)"
  by (simp add: keeps_def lift_def)

lemma keeps_get: "keeps I (get f)"
  by (simp add: keeps_def get_def)

lemma keeps_bind: "keeps I m \<Longrightarrow> (\<And>a. keeps I (f a)) \<Longrightarrow> keeps I (bind m f)"
  unfolding keeps_def bind_Some_iff by blast

lemma keeps_seq: "keeps I m \<Longrightarrow> keeps I n \<Longrightarrow> keeps I (seq m n)"
  unfolding keeps_def seq_Some_iff by blast

lemma keeps_if: "(b \<Longrightarrow> keeps I m) \<Longrightarrow> (\<not> b \<Longrightarrow> keeps I n) \<Longrightarrow> keeps I (if b then m else n)"
  by simp

lemma keeps_option: "keeps I m \<Longrightarrow> (\<And>a. keeps I (f a)) \<Longrightarrow> keeps I (case v of None \<Rightarrow> m | Some a \<Rightarrow> f a)"
  by (cases v) auto

lemma keeps_prod: "(\<And>a b. keeps I (f a b)) \<Longrightarrow> keeps I (case v of (a, b) \<Rightarrow> f a b)"
  by (cases v) auto

lemma keeps_try: "keeps I m \<Longrightarrow> (\<And>e. keeps I (h e)) \<Longrightarrow> keeps I (try_except m p h)"
  unfolding keeps_def try_except_Some_iff by (metis (full_types))

lemma keeps_finally: "keeps I m \<Longrightarrow> keeps I c \<Longrightarrow> keeps I (try_finally m c)"
  unfolding keeps_def try_finally_Some_iff by blast

lemma keeps_swallow: "keeps I m \<Longrightarrow> keeps I (swallow m)"
  unfolding swallow_def by (intro keeps_try keeps_seq keeps_ret)

lemma keeps_when: "keeps I m \<Longrightarrow> keeps I (when_io b m)"
  by (simp add: when_io_def keeps_ret)

lemma keeps_for_each: "(\<And>x. keeps I (f x)) \<Longrightarrow> keeps I (for_each xs f)"
  by (induction xs) (auto intro: keeps_ret keeps_seq)

lemma keeps_iterate:
  assumes "\<And>x. keeps I (body x)"
  shows "keeps I (iterate body x)"
proof (rule keepsI)
  fix s r s' assume "I s" and run: "iterate body x s = Some (r, s')"
  then show "I s'"
    by (intro iterate_inv [OF run, where I = "\<lambda>_ t. I t" and Q = "\<lambda>_ t. I t"]) (auto dest: keepsD [OF assms])
qed

lemmas keeps_forms = keeps_ret keeps_raise keeps_lift keeps_get keeps_bind keeps_seq keeps_if keeps_option keeps_prod
  keeps_try keeps_finally keeps_swallow keeps_when keeps_for_each keeps_iterate

section \<open>The VMs of a script\<close>

type_synonym 'a harness = "(world \<times> nat list, 'a) io"

definition on_world :: "'a sys \<Rightarrow> 'a harness" where
  "on_world m = (\<lambda>(w, ps). case m w of None \<Rightarrow> None | Some (r, w') \<Rightarrow> Some (r, (w', ps)))"

text \<open>\<open>p = launch(d, log); procs.append(p)\<close>\<close>

definition boot :: "env \<Rightarrow> pystr \<Rightarrow> pystr \<Rightarrow> nat harness" where
  "boot E d logname = bind (on_world (launch E d logname)) (\<lambda>p. seq (modify (\<lambda>(w, ps). (w, ps @ [p]))) (ret p))"

text \<open>The \<open>finally\<close> block: terminate every VM, wait, kill every VM.\<close>

definition signal_all :: "signal \<Rightarrow> unit harness" where
  "signal_all g = bind (get snd) (\<lambda>ps. for_each ps (\<lambda>p. on_world (swallow (send_signal p g))))"

definition stop_all :: "env \<Rightarrow> nat \<Rightarrow> unit harness" where
  "stop_all E nap = seq (signal_all SIGTERM) (seq (on_world (sleep E nap)) (signal_all SIGKILL))"

text \<open>\<open>procs = []\<close>, then the \<open>try\<close> with its \<open>finally\<close>.\<close>

definition with_procs :: "env \<Rightarrow> nat \<Rightarrow> 'a harness \<Rightarrow> 'a sys" where
  "with_procs E nap body w =
     (case try_finally body (stop_all E nap) (w, []) of None \<Rightarrow> None | Some (r, (w', ps)) \<Rightarrow> Some (r, w'))"

text \<open>Every VM since the start is running and noted, and those before are as they were.\<close>

definition tracked :: "proc list \<Rightarrow> world \<times> nat list \<Rightarrow> bool" where
  "tracked P s \<longleftrightarrow> (\<exists>ds. procs (fst s) = P @ map running ds \<and> snd s = [length P ..< length P + length ds])"

text \<open>No VM is started or signalled, and the clock does not go back.\<close>

definition calm :: "'a sys \<Rightarrow> bool" where
  "calm m \<longleftrightarrow> (\<forall>P t. keeps (\<lambda>w. procs w = P \<and> t \<le> clock w) m)"

lemma calmD: "calm m \<Longrightarrow> m w = Some (r, w') \<Longrightarrow> procs w' = procs w"
  by (auto simp: calm_def keeps_def)

lemma calm_later: "calm m \<Longrightarrow> m w = Some (r, w') \<Longrightarrow> clock w \<le> clock w'"
  unfolding calm_def keeps_def by blast

lemma calm_quiet: "settles I quiet m \<Longrightarrow> calm m"
  by (fastforce simp: calm_def keeps_def quiet_def dest: settles_rel)

lemma calm_on_sock: "calm (on_sock E i m)"
  by (auto simp: calm_def keeps_def on_sock_def elapse_def Let_def split: if_splits option.splits)

lemma calm_bind: "calm m \<Longrightarrow> (\<And>a. calm (f a)) \<Longrightarrow> calm (bind m f)"
  unfolding calm_def by (blast intro: keeps_bind)

lemma calm_seq: "calm m \<Longrightarrow> calm n \<Longrightarrow> calm (seq m n)"
  unfolding calm_def by (blast intro: keeps_seq)

lemma calm_if: "(b \<Longrightarrow> calm m) \<Longrightarrow> (\<not> b \<Longrightarrow> calm n) \<Longrightarrow> calm (if b then m else n)"
  by simp

lemma calm_option: "calm m \<Longrightarrow> (\<And>a. calm (f a)) \<Longrightarrow> calm (case v of None \<Rightarrow> m | Some a \<Rightarrow> f a)"
  by (cases v) auto

lemma calm_try: "calm m \<Longrightarrow> (\<And>e. calm (h e)) \<Longrightarrow> calm (try_except m p h)"
  unfolding calm_def by (blast intro: keeps_try)

lemma calm_swallow: "calm m \<Longrightarrow> calm (swallow m)"
  unfolding calm_def by (blast intro: keeps_swallow)

lemma calm_for_each: "(\<And>x. calm (f x)) \<Longrightarrow> calm (for_each xs f)"
  unfolding calm_def by (blast intro: keeps_for_each)

lemma calm_iterate: "(\<And>x. calm (body x)) \<Longrightarrow> calm (iterate body x)"
  unfolding calm_def by (blast intro: keeps_iterate)

lemmas calm_forms = calm_quiet [OF quiet.s_ret] calm_quiet [OF quiet.s_raise] calm_quiet [OF quiet.s_lift]
  calm_quiet [OF quiet.s_get] calm_bind calm_seq calm_if calm_option calm_try calm_swallow calm_for_each calm_iterate calm_on_sock

lemmas calm_calls = quiet_calls [THEN calm_quiet] quiet_wait_sock [THEN calm_quiet]

lemma calm_uconn: "calm (uconn E p to)"
  unfolding uconn_def by (rule calm_quiet [OF quiet_connect])

lemma calm_poll:
  assumes "calm probe"
  shows "calm (poll E t0 timeout nap probe)"
  unfolding poll_def poll_body_def by (intro calm_forms calm_calls assms)

lemma tracked_calm: "calm m \<Longrightarrow> keeps (tracked P) (on_world m)"
proof (rule keepsI)
  fix s r s' assume "calm m" and tr: "tracked P s" and run: "on_world m s = Some (r, s')"
  obtain w ps where s: "s = (w, ps)" by (cases s)
  from run s obtain w' where "m w = Some (r, w')" "s' = (w', ps)" by (auto simp: on_world_def split: option.splits)
  with \<open>calm m\<close> tr s show "tracked P s'" by (simp add: tracked_def calmD)
qed

lemma launch_clock: "launch E d l w = Some (r, w') \<Longrightarrow> clock w \<le> clock w'"
  by (auto simp: launch_def seq_Some_iff popen_def split: if_splits dest: calm_later [OF calm_quiet [OF quiet_write_file]])

lemma tracked_boot: "keeps (tracked P) (boot E d l)"
proof (rule keepsI)
  fix s r s' assume "tracked P s" and run: "boot E d l s = Some (r, s')"
  then obtain w ds where s: "s = (w, [length P ..< length P + length ds])" and pr: "procs w = P @ map running ds"
    by (cases s) (auto simp: tracked_def)
  from run s obtain q w1 where l: "launch E d l w = Some (q, w1)"
    and s': "s' = (w1, snd s @ (case q of Inl _ \<Rightarrow> [] | Inr p \<Rightarrow> [p]))"
    by (auto simp: boot_def on_world_def bind_Some_iff seq_Some_iff modify_def ret_def split: option.splits)
  from launch_run [OF l] pr s s' show "tracked P s'"
    unfolding tracked_def by (auto intro: exI [of _ ds] exI [of _ "ds @ [d]"])
qed

lemmas tracked_forms = keeps_forms tracked_calm tracked_boot

definition add_signal :: "signal \<Rightarrow> proc \<Rightarrow> proc" where
  "add_signal g p = p\<lparr>p_signals := p_signals p @ [g]\<rparr>"

lemma signal_run:
  assumes "procs w = P @ map f ds"
  shows "\<exists>w'. for_each [length P ..< length P + length ds] (\<lambda>p. on_world (swallow (send_signal p g))) (w, ps) =
      Some (Inr (), (w', ps)) \<and> procs w' = P @ map (add_signal g \<circ> f) ds"
  using assms
proof (induction ds arbitrary: P w)
  case (Cons d ds)
  let ?w = "w\<lparr>procs := P @ add_signal g (f d) # map f ds\<rparr>"
  have "on_world (swallow (send_signal (length P) g)) (w, ps) = Some (Inr (), (?w, ps))"
    using Cons.prems by (simp add: on_world_def swallow_def try_except_def send_signal_def seq_def bind_def modify_def ret_def
        list_update_append add_signal_def)
  moreover obtain w' where "for_each [Suc (length P) ..< Suc (length P) + length ds]
      (\<lambda>p. on_world (swallow (send_signal p g))) (?w, ps) = Some (Inr (), (w', ps))"
    "procs w' = (P @ [add_signal g (f d)]) @ map (add_signal g \<circ> f) ds"
    using Cons.IH [of ?w "P @ [add_signal g (f d)]"] by (auto simp del: upt_Suc)
  moreover have "[length P ..< length P + length (d # ds)] = length P # [Suc (length P) ..< Suc (length P) + length ds]"
    by (simp add: upt_conv_Cons del: upt_Suc)
  ultimately show ?case by (simp add: seq_ret del: upt_Suc)
qed (simp add: ret_def)

lemma stop_all_run:
  assumes "tracked P (w, ps)"
  shows "\<exists>w' ds. stop_all E nap (w, ps) = Some (Inr (), (w', ps)) \<and> procs w' = P @ map stopped ds"
proof -
  obtain ds where d: "procs w = P @ map running ds" "ps = [length P ..< length P + length ds]"
    using assms by (auto simp: tracked_def)
  obtain w1 where 1: "signal_all SIGTERM (w, ps) = Some (Inr (), (w1, ps))"
    "procs w1 = P @ map (add_signal SIGTERM \<circ> running) ds"
    using signal_run [OF d(1), of SIGTERM ps] d(2) by (auto simp: signal_all_def bind_def get_def)
  let ?w2 = "elapse E (nap + oversleep E w1) w1"
  have 2: "on_world (sleep E nap) (w1, ps) = Some (Inr (), (?w2, ps))"
    by (simp add: on_world_def sleep_def modify_def)
  have "procs ?w2 = P @ map (add_signal SIGTERM \<circ> running) ds" using 1(2) by (simp add: elapse_def Let_def)
  then obtain w3 where 3: "signal_all SIGKILL (?w2, ps) = Some (Inr (), (w3, ps))"
    "procs w3 = P @ map (add_signal SIGKILL \<circ> (add_signal SIGTERM \<circ> running)) ds"
    using signal_run [of ?w2 P "add_signal SIGTERM \<circ> running" ds SIGKILL ps] d(2) by (auto simp: signal_all_def bind_def get_def)
  have "add_signal SIGKILL \<circ> (add_signal SIGTERM \<circ> running) = stopped"
    by (auto simp: add_signal_def running_def stopped_def)
  then show ?thesis using 1 2 3 by (auto simp: stop_all_def seq_def bind_def)
qed

text \<open>Whatever the body does, and however it leaves, no VM it started is left running.\<close>

lemma with_procs_stops:
  assumes "\<And>P. keeps (tracked P) body" and "with_procs E nap body w = Some (r, w')"
  shows "\<exists>ds. procs w' = procs w @ map stopped ds"
proof -
  obtain ps where "try_finally body (stop_all E nap) (w, []) = Some (r, (w', ps))"
    using assms(2) by (auto simp: with_procs_def split: option.splits)
  then obtain q w1 ps1 b where b: "body (w, []) = Some (q, (w1, ps1))" "stop_all E nap (w1, ps1) = Some (b, (w', ps))"
    by (elim try_finally_runs) force
  have "tracked (procs w) (w, [])" by (simp add: tracked_def)
  from keepsD [OF assms(1) this b(1)] have "tracked (procs w) (w1, ps1)" .
  with stop_all_run [OF this, of E nap] b(2) show ?thesis by auto
qed

section \<open>What a script leaves running\<close>

text \<open>\<open>leaves R m\<close>: whatever \<open>m\<close> comes back with, the child processes before and after are related by \<open>R\<close>;
  \<open>leaves_ok R m\<close>: they are when it raises nothing.\<close>

definition leaves :: "(proc list \<Rightarrow> proc list \<Rightarrow> bool) \<Rightarrow> 'a sys \<Rightarrow> bool" where
  "leaves R m \<longleftrightarrow> (\<forall>w r w'. m w = Some (r, w') \<longrightarrow> R (procs w) (procs w'))"

definition leaves_ok :: "(proc list \<Rightarrow> proc list \<Rightarrow> bool) \<Rightarrow> 'a sys \<Rightarrow> bool" where
  "leaves_ok R m \<longleftrightarrow> (\<forall>w a w'. m w = Some (Inr a, w') \<longrightarrow> R (procs w) (procs w'))"

lemma leavesI: "(\<And>w r w'. m w = Some (r, w') \<Longrightarrow> R (procs w) (procs w')) \<Longrightarrow> leaves R m"
  by (auto simp: leaves_def)

lemma leavesD: "leaves R m \<Longrightarrow> m w = Some (r, w') \<Longrightarrow> R (procs w) (procs w')"
  by (auto simp: leaves_def)

lemma leaves_okI: "(\<And>w a w'. m w = Some (Inr a, w') \<Longrightarrow> R (procs w) (procs w')) \<Longrightarrow> leaves_ok R m"
  by (auto simp: leaves_ok_def)

lemma leaves_okD: "leaves_ok R m \<Longrightarrow> m w = Some (Inr a, w') \<Longrightarrow> R (procs w) (procs w')"
  by (auto simp: leaves_ok_def)

locale tally =
  fixes R :: "proc list \<Rightarrow> proc list \<Rightarrow> bool"
  assumes R_refl: "R P P"
    and R_trans: "R P Q \<Longrightarrow> R Q S \<Longrightarrow> R P S"
begin

lemma t_calm: "calm m \<Longrightarrow> leaves R m"
  by (rule leavesI) (simp add: calmD R_refl)

lemma t_ret: "leaves R (ret a)"
  by (simp add: leaves_def ret_def R_refl)

lemma t_bind: "leaves R m \<Longrightarrow> (\<And>a. leaves R (f a)) \<Longrightarrow> leaves R (bind m f)"
  unfolding leaves_def bind_Some_iff by (blast intro: R_trans)

lemma t_seq: "leaves R m \<Longrightarrow> leaves R n \<Longrightarrow> leaves R (seq m n)"
  unfolding seq_def by (rule t_bind)

lemma t_if: "(b \<Longrightarrow> leaves R m) \<Longrightarrow> (\<not> b \<Longrightarrow> leaves R n) \<Longrightarrow> leaves R (if b then m else n)"
  by simp

lemma t_finally: "leaves R m \<Longrightarrow> leaves R c \<Longrightarrow> leaves R (try_finally m c)"
  unfolding leaves_def try_finally_Some_iff by (blast intro: R_trans)

lemma ok_weaken: "leaves R m \<Longrightarrow> leaves_ok R m"
  by (auto simp: leaves_def leaves_ok_def)

lemma ok_bind: "leaves_ok R m \<Longrightarrow> (\<And>a. leaves_ok R (f a)) \<Longrightarrow> leaves_ok R (bind m f)"
  unfolding leaves_ok_def bind_Some_iff by (blast intro: R_trans)

lemma ok_seq: "leaves_ok R m \<Longrightarrow> leaves_ok R n \<Longrightarrow> leaves_ok R (seq m n)"
  unfolding seq_def by (rule ok_bind)

lemma ok_if: "(b \<Longrightarrow> leaves_ok R m) \<Longrightarrow> (\<not> b \<Longrightarrow> leaves_ok R n) \<Longrightarrow> leaves_ok R (if b then m else n)"
  by simp

lemma ok_finally:
  assumes "leaves_ok R m" and "leaves R c"
  shows "leaves_ok R (try_finally m c)"
proof (rule leaves_okI)
  fix w a w' assume "try_finally m c w = Some (Inr a, w')"
  then obtain t b where "m w = Some (Inr a, t)" "c t = Some (b, w')"
    by (auto simp: try_finally_def split: option.splits sum.splits)
  with assms show "R (procs w) (procs w')" by (blast intro: R_trans leavesD leaves_okD)
qed

lemmas forms = t_ret t_bind t_seq t_if t_finally calm_calls [THEN t_calm]

lemmas ok_forms = ok_weaken [OF t_ret] ok_bind ok_seq ok_if ok_finally calm_calls [THEN t_calm, THEN ok_weaken]
  calm_calls [THEN t_calm]

end

text \<open>\<open>terminate()\<close> and then \<open>kill()\<close> have been called on every VM started since, and nothing else.\<close>

definition stopped_since :: "proc list \<Rightarrow> proc list \<Rightarrow> bool" where
  "stopped_since P P' \<longleftrightarrow> (\<exists>ds. P' = P @ map stopped ds)"

abbreviation stops :: "'a sys \<Rightarrow> bool" where
  "stops \<equiv> leaves stopped_since"

interpretation stopping: tally stopped_since
proof
  show "stopped_since P P" for P unfolding stopped_since_def by (intro exI [of _ "[]"]) simp
  show "stopped_since P Q \<Longrightarrow> stopped_since Q S \<Longrightarrow> stopped_since P S" for P Q S
    unfolding stopped_since_def by (metis append.assoc map_append)
qed

lemma stops_with_procs: "(\<And>P. keeps (tracked P) body) \<Longrightarrow> stops (with_procs E nap body)"
  unfolding leaves_def stopped_since_def by (blast intro: with_procs_stops)

lemmas stops_forms = stopping.forms stops_with_procs

section \<open>Talking to a VM\<close>

text \<open>\<open>for _ in range(n): if <probe>: break; time.sleep(0.5)\<close>\<close>

fun retry :: "env \<Rightarrow> nat \<Rightarrow> bool sys \<Rightarrow> unit sys" where
  "retry E 0 probe = ret ()"
| "retry E (Suc n) probe = bind probe (\<lambda>b. if b then ret () else seq (sleep E 500000) (retry E n probe))"

lemma calm_retry: "calm probe \<Longrightarrow> calm (retry E n probe)"
  by (induction n) (auto intro!: calm_forms calm_calls)

text \<open>\<open>while not os.path.exists(p) and time.time() - t0 < timeout: time.sleep(nap)\<close>: the loop leaves in the
  same world as \<open>poll\<close> does, which looks at the clock first.\<close>

definition wait_path :: "env \<Rightarrow> pystr \<Rightarrow> nat \<Rightarrow> nat \<Rightarrow> nat \<Rightarrow> unit sys" where
  "wait_path E p t0 timeout nap =
     seq (poll E t0 timeout nap (bind (path_exists E p) (\<lambda>x. ret (if x then Some () else None)))) (ret ())"

lemma calm_wait_path: "calm (wait_path E p t0 timeout nap)"
  unfolding wait_path_def by (intro calm_forms calm_poll calm_calls)

text \<open>\<open>any(<probe> or time.sleep(0.5) for _ in range(n))\<close>\<close>

fun any_of :: "env \<Rightarrow> nat \<Rightarrow> bool sys \<Rightarrow> bool sys" where
  "any_of E 0 probe = ret False"
| "any_of E (Suc n) probe = bind probe (\<lambda>b. if b then ret True else seq (sleep E 500000) (any_of E n probe))"

lemma calm_any_of: "calm probe \<Longrightarrow> calm (any_of E n probe)"
  by (induction n) (auto intro!: calm_forms calm_calls)

text \<open>The HTTP probe: read until the peer closes or a \<open>recv\<close> raises.\<close>

definition http_get :: bytes where
  "http_get = map word_of_nat (lit ''GET / HTTP/1.0'' @ [13, 10, 13, 10])"

definition http_body :: "bytes \<Rightarrow> bytes" where
  "http_body buf = (case after_sep [13, 10, 13, 10] buf of None \<Rightarrow> buf | Some b \<Rightarrow> b)"

definition hit_sock :: "(sock, pystr) io" where
  "hit_sock =
     seq (sendall http_get) (
     bind (iterate (\<lambda>buf.
       bind (try_except (bind (recv 4096) (\<lambda>c. ret (Some c))) is_Exception (\<lambda>_. ret None)) (\<lambda>oc.
       case oc of
         None \<Rightarrow> ret (Inr buf)
       | Some c \<Rightarrow> if c = [] then ret (Inr buf) else ret (Inl (buf @ c)))) []) (\<lambda>buf.
     seq sock_close (ret (strip (decode (http_body buf))))))"

definition hit :: "env \<Rightarrow> pystr \<Rightarrow> nat \<Rightarrow> pystr sys" where
  "hit E path to = bind (uconn E path to) (\<lambda>d. on_sock E d hit_sock)"

lemma calm_hit: "calm (hit E path to)"
  unfolding hit_def by (intro calm_forms calm_uconn)

text \<open>A probe comes back when the peer at some point stops sending.\<close>

lemma returning_hit_sock: "settles terse (\<lambda>_ _. True) hit_sock"
proof -
  let ?body = "\<lambda>buf. bind (try_except (bind (recv 4096) (\<lambda>c. ret (Some c))) is_Exception (\<lambda>_. ret None)) (\<lambda>oc.
       case oc of None \<Rightarrow> ret (Inr buf) | Some c \<Rightarrow> if c = [] then ret (Inr buf) else ret (Inl (buf @ c)))"
  have loop: "settles terse (\<lambda>_ _. True) (iterate ?body [])"
  proof (rule returning.s_iterate [where lev = "\<lambda>_. to_come"])
    show "settles terse (\<lambda>_ _. True) (?body buf)" for buf by (intro returning.forms returning_recv)
  next
    fix buf s y t assume "terse s" and round: "?body buf s = Some (Inr (Inl y), t)"
    then obtain c where "recv 4096 s = Some (Inr c, t)" "c \<noteq> []"
      by (auto simp: bind_Some_iff try_except_Some_iff ret_def split: if_splits option.splits)
    with recv_terse [OF \<open>terse s\<close>, of 4096] show "to_come t < to_come s" by auto
  qed
  show ?thesis unfolding hit_sock_def by (intro returning.forms loop returning_sock_close returning_sendall)
qed

end
