(* ===== verification/Burst.thy ===== *)
theory Burst
  imports Harness
begin

text \<open>
  \<open>scripts/swerver_guest_burst.py\<close>: one thread per request runs the same worker, which gets ready, waits at
  a barrier until all threads are, and then does what is measured.  The threads are a step relation
  \<open>worker_step\<close> over the two halves of the worker: a step is one thread's progress to the barrier, or from
  the barrier to its end, and sees whatever world the other threads and processes have left (the rules
  quantify over it); a thread whose second half never comes back gets stuck there.  The locale \<open>burst_worker\<close>
  holds what follows from the first half always coming back; it is interpreted here on \<open>ensure_and_hit\<close> (connect to the supervisor's control socket; then ask for a VM and
  send it one HTTP request) and in \<open>Gateway\<close> on \<open>gateway_hit\<close>.  The random part of a tenant's name
  (\<open>uuid4().hex\<close>) is a parameter.
\<close>

section \<open>One request\<close>

definition baseline_get :: bytes where
  "baseline_get = blit ''GET /baseline11?a=25&b=17 HTTP/1.1'' @ [13, 10] @ blit ''Host: guest'' @ [13, 10] @
     blit ''Connection: close'' @ [13, 10, 13, 10]"

text \<open>\<open>xs.split(sep, 1)[0]\<close>\<close>

fun before_sep :: "'a list \<Rightarrow> 'a list \<Rightarrow> 'a list" where
  "before_sep p [] = []"
| "before_sep p (x # xs) = (if prefix p (x # xs) then [] else x # before_sep p xs)"

definition check_response :: "bytes \<Rightarrow> exn + unit" where
  "check_response response =
     (if \<not> contains (blit '' 200 '') (before_sep [13, 10] response) then Inl RuntimeError
      else if strip_by is_space_byte (case after_sep [13, 10, 13, 10] response of None \<Rightarrow> [] | Some b \<Rightarrow> b) \<noteq> blit ''42''
      then Inl RuntimeError else Inr ())"

text \<open>\<open>while True: chunk = s.recv(4096); if not chunk: break; response.extend(chunk)\<close>\<close>

definition drain :: "nat \<Rightarrow> (sock, bytes) io" where
  "drain n = iterate (read_body (recv n) (\<lambda>_. False) (\<lambda>b. ret (Inr b)) id) []"

text \<open>\<open>with socket.socket(...) as s: ...\<close>: the socket is closed on every way out of the block.\<close>

definition with_sock :: "env \<Rightarrow> nat \<Rightarrow> 'a sys \<Rightarrow> 'a sys" where
  "with_sock E i m = try_finally m (on_sock E i sock_close)"

text \<open>What a thread does once it has left the barrier: the two \<open>with\<close> blocks, then the checks.\<close>

definition fetch_guest :: "env \<Rightarrow> nat \<Rightarrow> pystr \<Rightarrow> bytes sys" where
  "fetch_guest E ctl tenant =
     seq (on_sock E ctl (send_line (lit ''ensure '' @ tenant))) (
     bind (on_sock E ctl recv_frame) (\<lambda>(path, exit_code).
     if exit_code \<noteq> 0 then raise RuntimeError
     else
       bind (lift (decode_strict path)) (\<lambda>path.
       bind (uconn E path (seconds 10)) (\<lambda>upstream.
       with_sock E upstream (
         seq (on_sock E upstream (sendall baseline_get)) (on_sock E upstream (drain 4096)))))))"

definition hit_guest :: "env \<Rightarrow> nat \<Rightarrow> pystr \<Rightarrow> nat sys" where
  "hit_guest E ctl tenant =
     bind (with_sock E ctl (bind time_time (\<lambda>start.
             bind (fetch_guest E ctl tenant) (\<lambda>response. ret (start, response))))) (\<lambda>(start, response).
     seq (lift (check_response response)) (
     bind time_time (\<lambda>t. ret (t - start))))"

lemma returning_recv_frame: "settles terse (\<lambda>_ _. True) recv_frame"
proof -
  have "settles terse (\<lambda>_ _. True) (iterate recv_frame_body [])"
  proof (rule returning.s_iterate [where lev = "\<lambda>_. to_come"])
    show "settles terse (\<lambda>_ _. True) (recv_frame_body b)" for b
      unfolding recv_frame_body_def Let_def by (intro returning.forms returning_recv)
  next
    fix b s y t assume "terse s" and round: "recv_frame_body b s = Some (Inr (Inl y), t)"
    then obtain c where "recv 4096 s = Some (Inr c, t)" "c \<noteq> []"
      by (auto simp: recv_frame_body_def bind_Some_iff ret_def raise_def Let_def split: if_splits option.splits)
    with recv_terse [OF \<open>terse s\<close>, of 4096] show "to_come t < to_come s" by auto
  qed
  then show ?thesis by (simp add: recv_frame_def)
qed

lemma returning_drain: "settles terse (\<lambda>_ _. True) (drain n)"
  unfolding drain_def by (rule returning_reads)

lemma quiet_hit_guest: "settles (patient E) quiet (hit_guest E ctl tenant)"
  unfolding hit_guest_def fetch_guest_def with_sock_def uconn_def
  by (intro quiet.forms quiet_calls quiet_on_sock returning_recv_frame returning_drain returning_sendall
      returning_send_line returning_sock_close)

section \<open>The threads and their barrier\<close>

text \<open>\<open>'c\<close> is what a thread holds when it reaches the barrier: its control socket, or its HTTP connection.\<close>

datatype 'c phase =
    Starting
  | Refused exn             \<comment> \<open>getting ready raised, before the barrier\<close>
  | Waiting 'c              \<comment> \<open>in \<open>barrier.wait()\<close>\<close>
  | Released 'c             \<comment> \<open>past the barrier\<close>
  | Finished "exn + nat"    \<comment> \<open>the future's exception or its milliseconds\<close>
  | Stuck                   \<comment> \<open>in a read that never ends\<close>

fun is_waiting :: "'c phase \<Rightarrow> bool" where
  "is_waiting (Waiting s) = True"
| "is_waiting _ = False"

fun release :: "'c phase \<Rightarrow> 'c phase" where
  "release (Waiting s) = Released s"
| "release p = p"

text \<open>\<open>barrier.wait()\<close> of \<open>threading.Barrier(n)\<close>: the \<open>n\<close>-th arrival opens it.\<close>

definition arrive :: "nat \<Rightarrow> 'c \<Rightarrow> 'c phase list \<Rightarrow> 'c phase list" where
  "arrive i s ps =
     (let ps' = ps[i := Waiting s] in
      if length (filter is_waiting ps') = length ps then map release ps' else ps')"

definition tenant :: "(nat \<Rightarrow> pystr) \<Rightarrow> nat \<Rightarrow> pystr" where
  "tenant uuid i = lit ''burst-'' @ uuid i @ lit ''-'' @ str_of_nat i"

text \<open>\<open>pool.submit(worker, endpoint, barrier, index)\<close> for every \<open>index\<close>: \<open>prepare\<close> is what the worker does
  before the barrier, \<open>perform\<close> what it does after it.\<close>

inductive worker_step :: "(nat \<Rightarrow> 'c sys) \<Rightarrow> (nat \<Rightarrow> 'c \<Rightarrow> nat sys) \<Rightarrow> 'c phase list \<Rightarrow> 'c phase list \<Rightarrow> bool"
  for prepare perform where
  reach: "i < length ps \<Longrightarrow> ps ! i = Starting \<Longrightarrow> prepare i w = Some (Inr s, w') \<Longrightarrow>
    worker_step prepare perform ps (arrive i s ps)"
| refuse: "i < length ps \<Longrightarrow> ps ! i = Starting \<Longrightarrow> prepare i w = Some (Inl e, w') \<Longrightarrow>
    worker_step prepare perform ps (ps[i := Refused e])"
| finish: "i < length ps \<Longrightarrow> ps ! i = Released s \<Longrightarrow> perform i s w = Some (r, w') \<Longrightarrow>
    worker_step prepare perform ps (ps[i := Finished r])"
| stick: "i < length ps \<Longrightarrow> ps ! i = Released s \<Longrightarrow> perform i s w = None \<Longrightarrow>
    worker_step prepare perform ps (ps[i := Stuck])"

text \<open>\<open>ensure_and_hit\<close>\<close>

definition burst_step :: "env \<Rightarrow> pystr \<Rightarrow> (nat \<Rightarrow> pystr) \<Rightarrow> nat phase list \<Rightarrow> nat phase list \<Rightarrow> bool" where
  "burst_step E control uuid =
     worker_step (\<lambda>i. uconn E control (seconds 35)) (\<lambda>i s. hit_guest E s (tenant uuid i))"

text \<open>\<open>--concurrency\<close>: \<open>parser.error\<close> exits with status 2.\<close>

definition burst_start :: "int \<Rightarrow> exn + 'c phase list" where
  "burst_start concurrency =
     (if concurrency < 1 then Inl (SystemExit 2) else Inr (replicate (nat concurrency) Starting))"

fun future :: "'c phase \<Rightarrow> (exn + nat) option" where
  "future (Refused e) = Some (Inl e)"
| "future (Finished r) = Some r"
| "future _ = None"

text \<open>The main thread leaves the pool when every future has a result: 0 when all are timings.\<close>

definition burst_status :: "'c phase list \<Rightarrow> int option" where
  "burst_status ps =
     (if list_ex (\<lambda>p. future p = None) ps then None
      else Some (if list_ex (\<lambda>p. \<exists>e. future p = Some (Inl e)) ps then 1 else 0))"

text \<open>\<open>int((len(ordered) - 1) * fraction)\<close> is floating-point arithmetic; \<open>scale\<close> is its result for a length.\<close>

definition percentile :: "(nat \<Rightarrow> nat) \<Rightarrow> nat list \<Rightarrow> exn + nat" where
  "percentile scale vals =
     (let ordered = sort vals in
      if vals = [] then Inl IndexError
      else Inr (ordered ! min (length ordered - 1) (scale (length ordered - 1))))"

section \<open>Step relations that run down\<close>

text \<open>A system in which every step lowers a weight comes to rest, wherever it started.\<close>

locale running_down =
  fixes step :: "'s \<Rightarrow> 's \<Rightarrow> bool"
    and inv :: "'s \<Rightarrow> bool"
    and weight :: "'s \<Rightarrow> nat"
  assumes inv_step: "inv s \<Longrightarrow> step s t \<Longrightarrow> inv t"
    and weight_step: "inv s \<Longrightarrow> step s t \<Longrightarrow> weight t < weight s"
begin

lemma run_bounded: "(step ^^ k) s t \<Longrightarrow> inv s \<Longrightarrow> inv t \<and> k + weight t \<le> weight s"
proof (induction k arbitrary: t)
  case (Suc k)
  then obtain u where u: "(step ^^ k) s u" "step u t" by auto
  with Suc have "inv u" "k + weight u \<le> weight s" by auto
  with u(2) inv_step [of u t] weight_step [of u t] show ?case by simp
qed auto

lemma comes_to_rest: "inv s \<Longrightarrow> \<exists>k t. (step ^^ k) s t \<and> (\<nexists>u. step t u)"
proof (induction "weight s" arbitrary: s rule: less_induct)
  case less
  show ?case
  proof (cases "\<exists>u. step s u")
    case True
    then obtain u where u: "step s u" by blast
    with less obtain k t where "(step ^^ k) u t" "\<nexists>v. step t v" by (meson inv_step weight_step)
    with u show ?thesis by (metis relpowp_Suc_I2)
  next
    case False
    then show ?thesis by (intro exI [of _ 0] exI [of _ s]) simp
  qed
qed

end

section \<open>The barrier opens for all or for none\<close>

fun before_barrier :: "'c phase \<Rightarrow> bool" where
  "before_barrier (Released s) = False"
| "before_barrier (Finished r) = False"
| "before_barrier Stuck = False"
| "before_barrier _ = True"

definition burst_inv :: "'c phase list \<Rightarrow> bool" where
  "burst_inv ps \<longleftrightarrow> ps = [] \<or> list_all (\<lambda>p. \<not> before_barrier p) ps \<or>
     list_all before_barrier ps \<and> \<not> list_all is_waiting ps"

fun todo :: "'c phase \<Rightarrow> nat" where
  "todo Starting = 2"
| "todo (Waiting s) = 1"
| "todo (Released s) = 1"
| "todo _ = 0"

definition burst_weight :: "'c phase list \<Rightarrow> nat" where
  "burst_weight ps = sum_list (map todo ps)"

lemma all_waiting: "length (filter is_waiting ps) = length ps \<longleftrightarrow> list_all is_waiting ps"
  by (metis filter_True length_filter_less less_irrefl list_all_iff)

lemma todo_release [simp]: "todo (release p) = todo p"
  by (cases p) auto

lemma weight_release: "burst_weight (map release ps) = burst_weight ps"
  by (simp add: burst_weight_def comp_def)

lemma weight_update: "i < length ps \<Longrightarrow> todo p < todo (ps ! i) \<Longrightarrow> burst_weight (ps[i := p]) < burst_weight ps"
  by (induction ps arbitrary: i) (auto simp: burst_weight_def split: nat.splits)

lemma weight_arrive: "i < length ps \<Longrightarrow> ps ! i = Starting \<Longrightarrow> burst_weight (arrive i s ps) < burst_weight ps"
  by (simp add: arrive_def Let_def weight_release weight_update)

lemma inv_at: "burst_inv ps \<Longrightarrow> i < length ps \<Longrightarrow>
    (if before_barrier (ps ! i) then list_all before_barrier ps else list_all (\<lambda>p. \<not> before_barrier p) ps)"
  using nth_mem [of i ps] by (auto simp: burst_inv_def list_all_iff)

lemma inv_arrive:
  assumes "burst_inv ps" and "i < length ps" and "ps ! i = Starting"
  shows "burst_inv (arrive i s ps)"
proof -
  let ?qs = "ps[i := Waiting s]"
  have "list_all before_barrier ps" using inv_at [OF assms(1,2)] assms(3) by simp
  then have q: "list_all before_barrier ?qs"
    using set_update_subset_insert [of ps i "Waiting s"] by (auto simp: list_all_iff)
  show ?thesis
  proof (cases "list_all is_waiting ?qs")
    case True
    have "\<not> before_barrier (release p)" if "is_waiting p" for p using that by (cases p) auto
    with True have "list_all (\<lambda>p. \<not> before_barrier p) (map release ?qs)" by (auto simp: list_all_iff)
    with True show ?thesis using all_waiting [of ?qs] by (simp add: arrive_def burst_inv_def)
  next
    case False
    with q show ?thesis using all_waiting [of ?qs] by (simp add: arrive_def burst_inv_def)
  qed
qed

lemma inv_update:
  assumes "burst_inv ps" and "i < length ps" and "before_barrier p = before_barrier (ps ! i)" and "\<not> is_waiting p"
  shows "burst_inv (ps[i := p])"
proof -
  let ?qs = "ps[i := p]"
  have "p \<in> set ?qs" using assms(2) by (rule set_update_memI)
  then have w: "\<not> list_all is_waiting ?qs" using assms(4) by (auto simp: list_all_iff)
  have sub: "set ?qs \<subseteq> insert p (set ps)" by (rule set_update_subset_insert)
  show ?thesis
  proof (cases "before_barrier p")
    case True
    then have "list_all before_barrier ps" using inv_at [OF assms(1,2)] assms(3) by simp
    with True sub have "list_all before_barrier ?qs" by (auto simp: list_all_iff)
    with w show ?thesis by (simp add: burst_inv_def)
  next
    case False
    then have "list_all (\<lambda>p. \<not> before_barrier p) ps" using inv_at [OF assms(1,2)] assms(3) by simp
    with False sub have "list_all (\<lambda>p. \<not> before_barrier p) ?qs" by (auto simp: list_all_iff)
    then show ?thesis by (simp add: burst_inv_def)
  qed
qed

lemma inv_start: "burst_inv (replicate n Starting)"
  by (cases n) (auto simp: burst_inv_def list_all_iff)

fun is_refused :: "'c phase \<Rightarrow> bool" where
  "is_refused (Refused e) = True"
| "is_refused _ = False"

fun is_finished :: "'c phase \<Rightarrow> bool" where
  "is_finished (Finished r) = True"
| "is_finished _ = False"

fun is_stuck :: "'c phase \<Rightarrow> bool" where
  "is_stuck Stuck = True"
| "is_stuck _ = False"

lemma list_exI: "x \<in> set xs \<Longrightarrow> P x \<Longrightarrow> list_ex P xs"
  by (auto simp: list_ex_iff)

lemma waiting_before: "is_waiting p \<Longrightarrow> before_barrier p \<and> future p = None"
  by (cases p) auto

lemma is_refused_iff: "is_refused p \<longleftrightarrow> (\<exists>e. p = Refused e)"
  by (cases p) auto

lemma start_weight:
  assumes "burst_start concurrency = Inr start"
  shows "burst_inv start" and "burst_weight start = 2 * nat concurrency" and "start = replicate (nat concurrency) Starting"
  using assms by (auto simp: burst_start_def inv_start burst_weight_def sum_list_replicate split: if_splits)

section \<open>Workers whose first half comes back\<close>

locale burst_worker =
  fixes prepare :: "nat \<Rightarrow> 'c sys"
    and perform :: "nat \<Rightarrow> 'c \<Rightarrow> nat sys"
  assumes prepare_returns: "settles (\<lambda>_. True) (\<lambda>_ _. True) (prepare i)"

sublocale burst_worker \<subseteq> pool: running_down "worker_step prepare perform" burst_inv burst_weight
proof unfold_locales
  fix ps qs assume "burst_inv ps" and "worker_step prepare perform ps qs"
  then show "burst_inv qs" by (elim worker_step.cases) (auto intro: inv_arrive inv_update)
next
  fix ps qs assume "worker_step prepare perform ps qs"
  then show "burst_weight qs < burst_weight ps"
    by (elim worker_step.cases) (auto intro: weight_arrive weight_update)
qed

context burst_worker
begin

text \<open>A thread that has neither ended nor reached the barrier can always go on.\<close>

lemma progress:
  assumes "\<nexists>qs. worker_step prepare perform ps qs" and "p \<in> set ps"
  shows "p \<noteq> Starting" and "p \<noteq> Released s"
proof -
  obtain i where i: "i < length ps" "ps ! i = p" using assms(2) by (metis in_set_conv_nth)
  obtain r w' where "prepare i undefined = Some (r, w')" using settlesD [OF prepare_returns] by blast
  then have "\<exists>qs. worker_step prepare perform ps qs" if "ps ! i = Starting"
    using i that by (cases r) (blast intro: worker_step.intros)+
  then show "p \<noteq> Starting" using i assms(1) by blast
  have "\<exists>qs. worker_step prepare perform ps qs" if "ps ! i = Released s"
    using i that by (cases "perform i s undefined") (fastforce intro: worker_step.intros)+
  then show "p \<noteq> Released s" using i assms(1) by blast
qed

text \<open>Who waits at the barrier for ever waits for a thread that was refused.\<close>

lemma waiting_refused:
  assumes "burst_inv ps" and "\<nexists>qs. worker_step prepare perform ps qs" and "list_ex is_waiting ps"
  shows "list_ex is_refused ps"
proof -
  obtain p where p: "p \<in> set ps" "before_barrier p" using assms(3) waiting_before by (auto simp: list_ex_iff)
  then have "ps \<noteq> []" "\<not> list_all (\<lambda>p. \<not> before_barrier p) ps" by (auto simp: list_all_iff)
  then have "list_all before_barrier ps" "\<not> list_all is_waiting ps"
    using assms(1) unfolding burst_inv_def by blast+
  then obtain q where q: "q \<in> set ps" "\<not> is_waiting q" "before_barrier q" by (auto simp: list_all_iff)
  have "is_refused q" using q(2,3) progress(1) [OF assms(2) q(1)] by (cases q) auto
  with q(1) show ?thesis by (rule list_exI)
qed

text \<open>At rest: all threads ended or got stuck past the barrier, or all were refused, or some wait for ever.\<close>

lemma rest_status:
  assumes "burst_inv ps" and "\<nexists>qs. worker_step prepare perform ps qs"
  shows "burst_status ps = None \<longleftrightarrow> list_ex is_waiting ps \<and> list_ex is_refused ps \<or> list_ex is_stuck ps"
proof -
  have go: "p \<noteq> Starting" "p \<noteq> Released s" if "p \<in> set ps" for p s
    using progress [OF assms(2) that] by blast+
  have fut: "future p = None \<longleftrightarrow> is_waiting p \<or> is_stuck p" if "p \<in> set ps" for p
    using go [OF that] by (cases p) auto
  show ?thesis using fut waiting_refused [OF assms] by (auto simp: burst_status_def list_ex_iff)
qed

lemma stuck_why:
  assumes "(worker_step prepare perform ^^ k) ps qs" and "list_ex is_stuck qs" and "\<not> list_ex is_stuck ps"
  shows "\<exists>i s w. perform i s w = None"
  using assms(1,2)
proof (induction k arbitrary: qs)
  case (Suc k)
  then obtain us where u: "(worker_step prepare perform ^^ k) ps us" "worker_step prepare perform us qs" by auto
  have new: "list_ex is_stuck us" if "list_ex is_stuck (us[i := p])" "\<not> is_stuck p" for i p
    using that set_update_subset_insert [of us i p] by (auto simp: list_ex_iff)
  have rel: "is_stuck (release p) = is_stuck p" for p :: "'c phase" by (cases p) auto
  from u(2) show ?case
  proof cases
    case (reach i w s w')
    then have "list_ex is_stuck (us[i := Waiting s])"
      using Suc.prems(2) rel by (auto simp: arrive_def Let_def list_ex_iff split: if_splits)
    then show ?thesis using new Suc.IH [OF u(1)] by simp
  next
    case (refuse i w e w')
    then show ?thesis using new Suc.IH [OF u(1)] Suc.prems(2) by simp
  next
    case (finish i s w r w')
    then show ?thesis using new Suc.IH [OF u(1)] Suc.prems(2) by simp
  next
    case (stick i s w)
    then show ?thesis by blast
  qed
qed (use assms(3) in simp)

lemma ends:
  assumes "burst_start concurrency = Inr start" and "(worker_step prepare perform ^^ k) start ps"
    and "\<nexists>qs. worker_step prepare perform ps qs"
  shows "k \<le> 2 * nat concurrency \<and>
    (burst_status ps = None \<longleftrightarrow> list_ex is_waiting ps \<and> list_ex is_refused ps \<or> list_ex is_stuck ps) \<and>
    (list_ex is_stuck ps \<longrightarrow> (\<exists>i s w. perform i s w = None))"
proof -
  have "\<not> list_ex is_stuck start" unfolding start_weight(3) [OF assms(1)] by (simp add: list_ex_iff)
  with stuck_why [OF assms(2)] show ?thesis
    using pool.run_bounded [OF assms(2) start_weight(1) [OF assms(1)]] start_weight(2) [OF assms(1)]
      rest_status [OF _ assms(3)] by auto
qed

lemma hang_step:
  assumes "worker_step prepare perform ps qs" and "list_ex is_waiting ps" and "list_ex is_refused ps"
  shows "list_ex is_waiting qs \<and> list_ex is_refused qs"
proof -
  have keep: "list_ex P (ps[i := p])" if "list_ex P ps" "i < length ps" "\<not> P (ps ! i)" for P i p
    using that by (auto simp: list_ex_length nth_list_update)
  from assms(1) show ?thesis
  proof cases
    case (reach i w s w')
    have "list_ex is_refused (ps[i := Waiting s])" using keep [OF assms(3) reach(2)] reach(3) by simp
    then have "\<not> list_all is_waiting (ps[i := Waiting s])"
      by (fastforce simp: list_ex_iff list_all_iff is_refused_iff)
    then show ?thesis
      using reach(1,3) keep [OF assms(2) reach(2)] keep [OF assms(3) reach(2)] all_waiting [of "ps[i := Waiting s]"]
      by (simp add: arrive_def)
  next
    case (refuse i w e w')
    have "Refused e \<in> set (ps[i := Refused e])" using refuse(2) by (rule set_update_memI)
    then show ?thesis using refuse(1,3) keep [OF assms(2) refuse(2)] by (auto intro: list_exI)
  next
    case (finish i s w r w')
    then show ?thesis using keep [OF assms(2) finish(2)] keep [OF assms(3) finish(2)] by simp
  next
    case (stick i s w)
    then show ?thesis using keep [OF assms(2) stick(2)] keep [OF assms(3) stick(2)] by simp
  qed
qed

lemma hangs:
  assumes "(worker_step prepare perform)\<^sup>*\<^sup>* ps qs" and "list_ex is_waiting ps" and "list_ex is_refused ps"
  shows "burst_status qs = None"
proof -
  from assms have "list_ex is_waiting qs \<and> list_ex is_refused qs"
    by (induction rule: rtranclp_induct) (auto dest: hang_step)
  then show ?thesis using waiting_before by (auto simp: burst_status_def list_ex_iff)
qed

end

text \<open>What a thread can be doing when the first half of every worker ends in \<open>verdict\<close>.\<close>

definition fits :: "exn + 'c \<Rightarrow> 'c phase \<Rightarrow> bool" where
  "fits verdict p \<longleftrightarrow> (case verdict of Inl e \<Rightarrow> p = Starting \<or> p = Refused e | Inr c \<Rightarrow> \<not> is_refused p)"

text \<open>A worker whose first half has the same outcome in every thread, whatever the world.\<close>

locale uniform_worker = burst_worker +
  fixes verdict :: "exn + 'c"
  assumes prepare_verdict: "prepare i w = Some (r, w') \<Longrightarrow> r = verdict"
begin

lemma fits_step:
  assumes "worker_step prepare perform ps qs" and "list_all (fits verdict) ps"
  shows "list_all (fits verdict) qs"
proof -
  have upd: "list_all (fits verdict) (ps[i := p])" if "fits verdict p" for i p
    using assms(2) that set_update_subset_insert [of ps i p] by (auto simp: list_all_iff)
  have rel: "fits verdict (release p)" if "fits verdict p" for p
    using that by (cases p) (auto simp: fits_def split: sum.splits)
  from assms(1) show ?thesis
  proof cases
    case (reach i w s w')
    then have "fits verdict (Waiting s)" using prepare_verdict [of i w] by (auto simp: fits_def)
    then show ?thesis using reach(1) upd [of "Waiting s" i] rel by (auto simp: arrive_def Let_def list_all_iff)
  next
    case (refuse i w e w')
    then have "fits verdict (Refused e)" using prepare_verdict [of i w] by (auto simp: fits_def)
    then show ?thesis using refuse(1) upd by simp
  next
    case (finish i s w r w')
    have "fits verdict (Released s)" using assms(2) finish(2,3) nth_mem [of i ps] by (auto simp: list_all_iff)
    then have "fits verdict (Finished r)" by (auto simp: fits_def split: sum.splits)
    then show ?thesis using finish(1) upd by simp
  next
    case (stick i s w)
    have "fits verdict (Released s)" using assms(2) stick(2,3) nth_mem [of i ps] by (auto simp: list_all_iff)
    then have "fits verdict Stuck" by (auto simp: fits_def split: sum.splits)
    then show ?thesis using stick(1) upd by simp
  qed
qed

lemma fits_run: "(worker_step prepare perform ^^ k) ps qs \<Longrightarrow> list_all (fits verdict) ps \<Longrightarrow> list_all (fits verdict) qs \<and> length qs = length ps"
proof (induction k arbitrary: qs)
  case (Suc k)
  then obtain us where u: "(worker_step prepare perform ^^ k) ps us" "worker_step prepare perform us qs" by auto
  have "length qs = length us" using u(2) by (elim worker_step.cases) (auto simp: arrive_def Let_def)
  with Suc u fits_step [of us qs] show ?case by auto
qed auto

text \<open>Then no thread waits for ever at the barrier: either all are refused, or all get past it.\<close>

lemma uniform_end:
  assumes "burst_start concurrency = Inr start" and "(worker_step prepare perform ^^ k) start ps"
    and "\<nexists>qs. worker_step prepare perform ps qs"
  shows "case verdict of Inl e \<Rightarrow> ps = replicate (nat concurrency) (Refused e) 
    | Inr c \<Rightarrow> list_all (\<lambda>p. is_finished p \<or> is_stuck p) ps"
proof -
  have st: "start = replicate (nat concurrency) Starting" by (rule start_weight(3) [OF assms(1)])
  then have "list_all (fits verdict) start" by (auto simp: list_all_iff fits_def split: sum.splits)
  from fits_run [OF assms(2) this] st have fit: "list_all (fits verdict) ps" and len: "length ps = nat concurrency" by simp_all
  have go: "p \<noteq> Starting" "p \<noteq> Released s" if "p \<in> set ps" for p s
    using progress [OF assms(3) that] by blast+
  show ?thesis
  proof (cases verdict)
    case (Inl e)
    then have "\<forall>p \<in> set ps. p = Refused e" using fit go(1) by (auto simp: list_all_iff fits_def)
    then show ?thesis using Inl len by (auto intro: replicate_eqI)
  next
    case (Inr c)
    then have nr: "\<not> list_ex is_refused ps" using fit by (auto simp: list_all_iff list_ex_iff fits_def)
    have inv: "burst_inv ps" using pool.run_bounded [OF assms(2) start_weight(1) [OF assms(1)]] by blast
    have nw: "\<not> list_ex is_waiting ps" using waiting_refused [OF inv assms(3)] nr by blast
    have "is_finished p \<or> is_stuck p" if "p \<in> set ps" for p
      using nr nw go [OF that] that by (cases p) (auto simp: list_ex_iff)
    with Inr show ?thesis by (auto simp: list_all_iff)
  qed
qed

end

section \<open>Properties\<close>

lemma returning_uconn: "settles I (\<lambda>_ _. True) (uconn E p to)" if "\<And>w. I w"
  using that by (auto simp: settles_def uconn_def connect_def Let_def split: prod.splits option.splits)

interpretation direct: burst_worker "\<lambda>i. uconn E control (seconds 35)" "\<lambda>i s. hit_guest E s (tenant uuid i)"
  for E control uuid by unfold_locales (simp add: returning_uconn)


text \<open>Two threads, the second of which is refused.\<close>

definition burst_env :: env where
  "burst_env = \<lparr>NB = [], cwd = [], environ = \<lambda>_. None, has_tomllib = True, sha256 = \<lambda>_. [], toml_loads = \<lambda>_. Inl ValueError,
     float_of = \<lambda>_. PNone, too_deep = \<lambda>_. False, py_repr = \<lambda>_. [], utc_text = \<lambda>_. [], tmp_name = \<lambda>_. None, others = fs, oversleep = \<lambda>_. 0,
     spawns = \<lambda>_. False,
     dial = \<lambda>w _. (0, if clock w = 0 then Some \<lparr>inbox = [], closes = None, sent = [], shut = False, broken = \<lambda>_. None, drip = \<lambda>_ _. None, dripped = 0, tmo = 0, now = 0, peer = \<lambda>_. []\<rparr> else None),
     run_bin = \<lambda>w _. (0, fs w, NoExec)\<rparr>"

definition burst_world :: "nat \<Rightarrow> world" where
  "burst_world t = \<lparr>fs = [], denied = \<lambda>_ _. False, clock = t, socks = [], procs = []\<rparr>"

lemma burst_run: "(burst_step burst_env [] (\<lambda>_. []) ^^ 2) [Starting, Starting] [Waiting 0, Refused OSError]"
proof -
  have "\<exists>w'. uconn burst_env [] (seconds 35) (burst_world 0) = Some (Inr 0, w')"
    by (simp add: uconn_def connect_def burst_env_def burst_world_def elapse_def)
  then obtain w' where "uconn burst_env [] (seconds 35) (burst_world 0) = Some (Inr 0, w')" by blast
  then have "burst_step burst_env [] (\<lambda>_. []) [Starting, Starting] (arrive 0 0 [Starting, Starting])"
    unfolding burst_step_def by (intro worker_step.reach) simp_all
  moreover have "arrive 0 (0::nat) [Starting, Starting] = [Waiting 0, Starting]" by (simp add: arrive_def)
  moreover have "\<exists>w'. uconn burst_env [] (seconds 35) (burst_world 1) = Some (Inl OSError, w')"
    by (simp add: uconn_def connect_def burst_env_def burst_world_def elapse_def)
  then obtain w' where "uconn burst_env [] (seconds 35) (burst_world 1) = Some (Inl OSError, w')" by blast
  then have "burst_step burst_env [] (\<lambda>_. []) [Waiting 0, Starting] ([Waiting 0, Starting][1 := Refused OSError])"
    unfolding burst_step_def by (intro worker_step.refuse) simp_all
  ultimately show ?thesis by (auto simp: numeral_2_eq_2)
qed

lemma burst_at_rest: "\<nexists>qs. burst_step E control uuid [Waiting s, Refused e] qs"
  by (auto simp: burst_step_def less_Suc_eq elim!: worker_step.cases)


text \<open>Once one thread's \<open>connect\<close> has been refused while another waits at the barrier, the script never
  ends: the barrier, which has no timeout, cannot open any more.\<close>

lemma burst_hangs:
  assumes "list_ex is_waiting ps" and "list_ex is_refused ps" and "(burst_step E control uuid)\<^sup>*\<^sup>* ps qs"
  shows "burst_status qs = None"
  using direct.hangs [OF _ assms(1,2)] assms(3) unfolding burst_step_def by blast

lemma percentile_rank:
  assumes "vals \<noteq> []"
  shows "\<exists>v. percentile scale vals = Inr v \<and> v \<in> set vals \<and>
    min (length vals - 1) (scale (length vals - 1)) < length (filter (\<lambda>x. x \<le> v) vals)"
proof -
  let ?k = "min (length vals - 1) (scale (length vals - 1))" and ?o = "sort vals"
  have k: "?k < length ?o" using assms by (cases vals) auto
  have "\<forall>x \<in> set (take (Suc ?k) ?o). x \<le> ?o ! ?k"
    using k by (auto simp: in_set_conv_nth less_Suc_eq_le simp del: length_sort intro!: sorted_nth_mono)
  then have "take (Suc ?k) ?o = filter (\<lambda>x. x \<le> ?o ! ?k) (take (Suc ?k) ?o)" by (simp add: filter_id_conv)
  then have "Suc ?k \<le> length (filter (\<lambda>x. x \<le> ?o ! ?k) (take (Suc ?k) ?o))" using k by (metis Suc_leI length_take min_absorb2 order_refl)
  also have "\<dots> \<le> length (filter (\<lambda>x. x \<le> ?o ! ?k) ?o)"
    by (metis append_take_drop_id filter_append le_add1 length_append)
  also have "\<dots> = length (filter (\<lambda>x. x \<le> ?o ! ?k) vals)"
    by (simp add: filter_sort)
  finally show ?thesis using k assms nth_mem [OF k] by (simp add: percentile_def Let_def)
qed

end
