(* ===== verification/Gateway.thy ===== *)
theory Gateway
  imports Burst
begin

text \<open>
  \<open>scripts/swerver_guest_burst.py\<close> with \<open>--gateway\<close>: the worker \<open>gateway_hit\<close> sends its request through a
  host's HTTP server.  Before the barrier it only takes the URL apart and makes a connection object, so
  what it does there is the same in every thread; after the barrier it does one request and closes the
  connection on every way out.  The parts of \<open>urllib.parse\<close> it uses are translated, except for two things
  that rest on the Unicode tables and on \<open>ipaddress\<close> (\<open>url_lib\<close>).  The exchange with the server
  (\<open>request\<close>, \<open>getresponse\<close>, \<open>read\<close>) is a parameter: how long it takes, and the exception or the status and
  body; or \<open>None\<close>, when it never ends (\<open>timeout=35\<close> bounds each socket operation, not the exchange).
\<close>

section \<open>The URL\<close>

record url_lib =
  lower_text :: "pystr \<Rightarrow> pystr"    \<comment> \<open>\<open>str.lower\<close> of a text that is not ASCII\<close>
  netloc_ok :: "pystr \<Rightarrow> bool"      \<comment> \<open>\<open>_checknetloc\<close> and \<open>_check_bracketed_netloc\<close> raise nothing\<close>

record split_url =
  url_scheme :: pystr
  url_netloc :: pystr
  url_path :: pystr

definition is_letter :: "nat \<Rightarrow> bool" where
  "is_letter c \<longleftrightarrow> 65 \<le> c \<and> c \<le> 90 \<or> 97 \<le> c \<and> c \<le> 122"

definition is_digit :: "nat \<Rightarrow> bool" where
  "is_digit c \<longleftrightarrow> 48 \<le> c \<and> c \<le> 57"

definition scheme_char :: "nat \<Rightarrow> bool" where
  "scheme_char c \<longleftrightarrow> is_letter c \<or> is_digit c \<or> c \<in> {43, 45, 46}"

text \<open>\<open>url.lstrip(_WHATWG_C0_CONTROL_OR_SPACE)\<close>, then tabs and line ends are removed anywhere.\<close>

definition clean_url :: "pystr \<Rightarrow> pystr" where
  "clean_url url = filter (\<lambda>c. c \<notin> {9, 10, 13}) (dropWhile (\<lambda>c. c \<le> 32) url)"

text \<open>The scheme is what precedes the first colon, if it looks like one.\<close>

definition split_scheme :: "pystr \<Rightarrow> pystr \<times> pystr" where
  "split_scheme url =
     (case split_once 58 url of
        (s, Some r) \<Rightarrow>
          if s \<noteq> [] \<and> is_letter (hd s) \<and> list_all scheme_char s then (ascii_lower s, r) else ([], url)
      | (s, None) \<Rightarrow> ([], url))"

definition urlsplit :: "url_lib \<Rightarrow> pystr \<Rightarrow> exn + split_url" where
  "urlsplit U url =
     (let (scheme, r) = split_scheme (clean_url url);
          (netloc, r) =
            (if prefix (lit ''//'') r
             then (takeWhile (\<lambda>c. c \<notin> {47, 63, 35}) (drop 2 r), dropWhile (\<lambda>c. c \<notin> {47, 63, 35}) (drop 2 r))
             else ([], r))
      in if (91 \<in> set netloc) \<noteq> (93 \<in> set netloc) \<or> \<not> netloc_ok U netloc then Inl ValueError
         else Inr \<lparr>url_scheme = scheme, url_netloc = netloc, url_path = before 63 (before 35 r)\<rparr>)"

text \<open>\<open>_hostinfo\<close>: what follows the last \<open>@\<close>, and there the host (in brackets or not) and the port's text.\<close>

definition hostinfo :: "pystr \<Rightarrow> pystr \<times> pystr" where
  "hostinfo netloc =
     (let info = rev (before 64 (rev netloc)) in
      case split_once 91 info of
        (_, Some bracketed) \<Rightarrow>
          (let (host, r) = split_once 93 bracketed;
               p = (case r of None \<Rightarrow> [] | Some p \<Rightarrow> p)
           in (host, case snd (split_once 58 p) of None \<Rightarrow> [] | Some p \<Rightarrow> p))
      | (_, None) \<Rightarrow> (fst (split_once 58 info), case snd (split_once 58 info) of None \<Rightarrow> [] | Some p \<Rightarrow> p))"

text \<open>\<open>parsed.hostname\<close>: lower case, but for the zone after a \<open>%\<close>.\<close>

definition hostname :: "url_lib \<Rightarrow> split_url \<Rightarrow> pystr option" where
  "hostname U u =
     (let h = fst (hostinfo (url_netloc u)); n = before 37 h in
      if h = [] then None
      else Some ((if list_all (\<lambda>c. c < 128) n then ascii_lower n else lower_text U n) @ drop (length n) h))"

definition url_port :: "split_url \<Rightarrow> exn + nat option" where
  "url_port u =
     (let p = snd (hostinfo (url_netloc u)) in
      if p = [] then Inr None
      else case py_int p of
             Some n \<Rightarrow> if list_all is_digit p \<and> n \<le> 65535 then Inr (Some (nat n)) else Inl ValueError
           | None \<Rightarrow> Inl ValueError)"

section \<open>The connection\<close>

record http_conn =
  c_host :: pystr
  c_port :: nat
  c_tmo :: nat
  c_open :: bool

text \<open>\<open>http.client.HTTPConnection(host, port, timeout=35)\<close> connects to nothing yet, but checks the host.\<close>

definition HTTPConnection :: "pystr \<Rightarrow> nat \<Rightarrow> nat \<Rightarrow> exn + http_conn" where
  "HTTPConnection host port to =
     (if list_ex (\<lambda>c. c \<le> 32 \<or> c = 127) host then Inl InvalidURL
      else Inr \<lparr>c_host = host, c_port = port, c_tmo = to, c_open = False\<rparr>)"

text \<open>\<open>gateway_hit\<close> up to the barrier: the connection and the path of the request.\<close>

definition gateway_open :: "url_lib \<Rightarrow> pystr \<Rightarrow> exn + http_conn \<times> pystr" where
  "gateway_open U gateway =
     ebind (urlsplit U gateway) (\<lambda>parsed.
     case hostname U parsed of
       None \<Rightarrow> Inl ValueError
     | Some host \<Rightarrow>
         if url_scheme parsed \<noteq> lit ''http'' then Inl ValueError
         else
           ebind (url_port parsed) (\<lambda>port.
           ebind (HTTPConnection host (case port of None \<Rightarrow> 80 | Some p \<Rightarrow> if p = 0 then 80 else p) (seconds 35)) (\<lambda>connection.
           Inr (connection, rev (dropWhile (\<lambda>c. c = 47) (rev (url_path parsed))) @ lit ''/baseline11?a=25&b=17''))))"

text \<open>A statement on the world and the thread's own connection.\<close>

type_synonym exchange = "world \<Rightarrow> http_conn \<Rightarrow> pystr \<Rightarrow> pystr \<Rightarrow> (nat \<times> (exn + int \<times> bytes)) option"
type_synonym 'a via = "(world \<times> http_conn, 'a) io"

definition on_conn :: "http_conn \<Rightarrow> 'a via \<Rightarrow> 'a sys" where
  "on_conn c m w = (case m (w, c) of None \<Rightarrow> None | Some (r, (w', c')) \<Rightarrow> Some (r, w'))"

text \<open>\<open>connection.request("GET", path, headers={"x-tenant": tenant})\<close>, \<open>getresponse()\<close> and \<open>read()\<close>\<close>

definition request :: "env \<Rightarrow> exchange \<Rightarrow> pystr \<Rightarrow> pystr \<Rightarrow> (int \<times> bytes) via" where
  "request E X path tn =
     (\<lambda>(w, c).
        case X w c path tn of
          None \<Rightarrow> None
        | Some (dt, r) \<Rightarrow> Some (r, (elapse E dt w, c\<lparr>c_open := True\<rparr>)))"

definition conn_close :: "unit via" where
  "conn_close = modify (\<lambda>(w, c). (w, c\<lparr>c_open := False\<rparr>))"

definition gateway_get :: "env \<Rightarrow> exchange \<Rightarrow> pystr \<Rightarrow> pystr \<Rightarrow> nat via" where
  "gateway_get E X path tn =
     try_finally
       (bind (get (\<lambda>(w, c). clock w)) (\<lambda>start.
        bind (request E X path tn) (\<lambda>(status, body).
        if status \<noteq> 200 \<or> strip_by is_space_byte body \<noteq> blit ''42'' then raise RuntimeError
        else bind (get (\<lambda>(w, c). clock w)) (\<lambda>t. ret (t - start)))))
       conn_close"

definition gateway_step :: "env \<Rightarrow> exchange \<Rightarrow> url_lib \<Rightarrow> pystr \<Rightarrow> (nat \<Rightarrow> pystr) \<Rightarrow>
    (http_conn \<times> pystr) phase list \<Rightarrow> (http_conn \<times> pystr) phase list \<Rightarrow> bool" where
  "gateway_step E X U gateway uuid =
     worker_step (\<lambda>i. lift (gateway_open U gateway)) (\<lambda>i (c, path). on_conn c (gateway_get E X path (tenant uuid i)))"

section \<open>\<open>main\<close>\<close>

text \<open>\<open>worker = gateway_hit if args.gateway else ensure_and_hit\<close>, one per thread of the pool.\<close>

record burst_args =
  a_control :: pystr
  a_concurrency :: int
  a_gateway :: pystr

datatype pool = Supervisor "nat phase list" | Through "(http_conn \<times> pystr) phase list"

definition main_start :: "burst_args \<Rightarrow> exn + pool" where
  "main_start args =
     (if a_gateway args \<noteq> [] then ebind (burst_start (a_concurrency args)) (\<lambda>ps. Inr (Through ps))
      else ebind (burst_start (a_concurrency args)) (\<lambda>ps. Inr (Supervisor ps)))"

inductive main_step :: "env \<Rightarrow> exchange \<Rightarrow> url_lib \<Rightarrow> (nat \<Rightarrow> pystr) \<Rightarrow> burst_args \<Rightarrow> pool \<Rightarrow> pool \<Rightarrow> bool"
  for E X U uuid args where
  supervisor: "burst_step E (a_control args) uuid ps qs \<Longrightarrow> main_step E X U uuid args (Supervisor ps) (Supervisor qs)"
| through: "gateway_step E X U (a_gateway args) uuid ps qs \<Longrightarrow> main_step E X U uuid args (Through ps) (Through qs)"

inductive_simps main_step_Supervisor: "main_step E X U uuid args (Supervisor ps) q"
inductive_simps main_step_Through: "main_step E X U uuid args (Through ps) q"

fun main_status :: "pool \<Rightarrow> int option" where
  "main_status (Supervisor ps) = burst_status ps"
| "main_status (Through ps) = burst_status ps"

section \<open>Lemmas\<close>

lemma main_run_Supervisor:
  "(main_step E X U uuid args ^^ k) (Supervisor ps) q \<longleftrightarrow>
     (\<exists>qs. q = Supervisor qs \<and> (burst_step E (a_control args) uuid ^^ k) ps qs)"
  by (induction k arbitrary: q; auto simp: OO_def main_step_Supervisor; blast)

lemma main_run_Through:
  "(main_step E X U uuid args ^^ k) (Through ps) q \<longleftrightarrow>
     (\<exists>qs. q = Through qs \<and> (gateway_step E X U (a_gateway args) uuid ^^ k) ps qs)"
  by (induction k arbitrary: q; auto simp: OO_def main_step_Through; blast)

text \<open>Without \<open>--gateway\<close> the script hangs exactly when one thread was refused while another waits, or one is stuck.\<close>

lemma supervisor_rest:
  assumes "a_gateway args = []" and "main_start args = Inr start" and "(main_step E X U uuid args ^^ k) start q"
    and "\<nexists>q'. main_step E X U uuid args q q'"
  shows "\<exists>ps. q = Supervisor ps \<and> (main_status q = None \<longleftrightarrow> list_ex is_waiting ps \<and> list_ex is_refused ps \<or> list_ex is_stuck ps)"
proof -
  obtain st where st: "start = Supervisor st" "burst_start (a_concurrency args) = Inr st"
    using assms(1,2) by (auto simp: main_start_def ebind_eq_Inr)
  obtain ps where ps: "q = Supervisor ps" "(burst_step E (a_control args) uuid ^^ k) st ps"
    using assms(3) unfolding st(1) main_run_Supervisor by blast
  have rest: "\<nexists>qs. burst_step E (a_control args) uuid ps qs" using assms(4) by (simp add: ps(1) main_step_Supervisor)
  have "burst_status ps = None \<longleftrightarrow> list_ex is_waiting ps \<and> list_ex is_refused ps \<or> list_ex is_stuck ps"
    using direct.ends [OF st(2)] ps(2) rest unfolding burst_step_def by blast
  with ps(1) show ?thesis by simp
qed

text \<open>A request comes back exactly when its exchange with the server does, and then the connection is closed,
  whatever the outcome.\<close>

lemma gateway_get_closes:
  "X w c path tn \<noteq> None \<Longrightarrow> \<exists>r w' c'. gateway_get E X path tn (w, c) = Some (r, (w', c')) \<and> \<not> c_open c'"
  by (auto simp: gateway_get_def try_finally_def bind_def get_def request_def conn_close_def modify_def raise_def ret_def Let_def
      split: prod.splits sum.splits)

lemma gateway_get_stuck: "on_conn c (gateway_get E X path tn) w = None \<Longrightarrow> X w c path tn = None"
  using gateway_get_closes [of X w c path tn E] by (cases "X w c path tn") (auto simp: on_conn_def split: option.splits)

interpretation gw: uniform_worker "\<lambda>i. lift (gateway_open U gateway)"
  "\<lambda>i (c, path). on_conn c (gateway_get E X path (tenant uuid i))" "gateway_open U gateway"
  for U gateway E X uuid
proof unfold_locales
  fix i :: nat
  show "settles (\<lambda>_. True) (\<lambda>_ _. True) (lift (gateway_open U gateway) :: (http_conn \<times> pystr) sys)" by (rule returning.s_lift)
next
  fix r w w'
  assume "(lift (gateway_open U gateway) :: (http_conn \<times> pystr) sys) w = Some (r, w')"
  then show "r = gateway_open U gateway" by (simp add: lift_def)
qed

text \<open>A URL put together from a plain host name, a port and a path is taken apart again.\<close>

definition plain_host :: "pystr \<Rightarrow> bool" where
  "plain_host h \<longleftrightarrow> h \<noteq> [] \<and> list_all (\<lambda>c. 97 \<le> c \<and> c \<le> 122 \<or> is_digit c \<or> c \<in> {45, 46}) h"

definition plain_path :: "pystr \<Rightarrow> bool" where
  "plain_path p \<longleftrightarrow> (p = [] \<or> hd p = 47 \<and> last p \<noteq> 47) \<and> list_all (\<lambda>c. 32 < c \<and> c \<noteq> 35 \<and> c \<noteq> 63) p"

lemma dec_digits_length: "n < 10 ^ Suc k \<Longrightarrow> length (dec_digits n) \<le> Suc k"
proof (induction k arbitrary: n)
  case 0
  then show ?case by (simp add: dec_digits.simps [of n])
next
  case (Suc k)
  then have "n div 10 < 10 ^ Suc k" by (simp add: less_mult_imp_div_less mult.commute)
  from Suc.IH [OF this] show ?case by (simp add: dec_digits.simps [of n])
qed

lemma urlsplit_plain:
  assumes "plain_host h" and "plain_path p" and "netloc_ok U (h @ 58 # str_of_nat n)"
  shows "urlsplit U (lit ''http://'' @ h @ 58 # str_of_nat n @ p) =
    Inr \<lparr>url_scheme = lit ''http'', url_netloc = h @ 58 # str_of_nat n, url_path = p\<rparr>"
proof -
  let ?nl = "h @ 58 # str_of_nat n" and ?d = "\<lambda>c. c \<notin> {47, 63, 35::nat}"
  have nl: "\<forall>c \<in> set ?nl. 32 < c \<and> ?d c \<and> c \<noteq> 91 \<and> c \<noteq> 93"
    using assms(1) str_of_nat_chars [of _ n] by (fastforce simp: plain_host_def list_all_iff is_digit_def)
  have p: "\<forall>c \<in> set p. 32 < c \<and> c \<noteq> 35 \<and> c \<noteq> 63" using assms(2) by (simp add: plain_path_def list_all_iff)
  have clean: "clean_url (lit ''http://'' @ ?nl @ p) = lit ''http://'' @ ?nl @ p"
  proof -
    have "\<forall>c \<in> set (?nl @ p). 32 < c" using nl p by auto
    then have "filter (\<lambda>c. c \<notin> {9, 10, 13}) (?nl @ p) = ?nl @ p" by (intro filter_True) fastforce
    then show ?thesis by (simp add: clean_url_def lit_def)
  qed
  have "split_scheme (lit ''http://'' @ ?nl @ p) = (lit ''http'', lit ''//'' @ ?nl @ p)"
    by (simp add: split_scheme_def lit_def is_letter_def scheme_char_def ascii_lower_def)
  moreover have d: "?d c" if "c \<in> set ?nl" for c using nl that by blast
  have "takeWhile ?d p = []" "dropWhile ?d p = p" using assms(2) by (cases p; simp add: plain_path_def)+
  then have "takeWhile ?d (?nl @ p) = ?nl" "dropWhile ?d (?nl @ p) = p"
    by (simp_all only: takeWhile_append2 [of ?nl ?d p, OF d] dropWhile_append2 [of ?nl ?d p, OF d] append_Nil2)
  moreover have "before 63 (before 35 p) = p" using p by (subst before_id [of 35]; fastforce)+
  moreover have "91 \<notin> set ?nl" "93 \<notin> set ?nl" using nl by blast+
  moreover have "prefix (lit ''//'') (lit ''//'' @ ?nl @ p)" "drop 2 (lit ''//'' @ ?nl @ p) = ?nl @ p" by (simp_all add: lit_def)
  ultimately show ?thesis using assms(3) clean unfolding urlsplit_def Let_def by simp
qed

lemma gateway_open_plain:
  assumes "plain_host h" and "plain_path p" and "netloc_ok U (h @ 58 # str_of_nat n)" and "1 \<le> n" and "n \<le> 65535"
  shows "gateway_open U (lit ''http://'' @ h @ 58 # str_of_nat n @ p) =
    Inr (\<lparr>c_host = h, c_port = n, c_tmo = seconds 35, c_open = False\<rparr>, p @ lit ''/baseline11?a=25&b=17'')"
proof -
  let ?u = "\<lparr>url_scheme = lit ''http'', url_netloc = h @ 58 # str_of_nat n, url_path = p\<rparr>"
  have h: "\<forall>c \<in> set h. 32 < c \<and> c < 127 \<and> c \<noteq> 64 \<and> c \<noteq> 91 \<and> c \<noteq> 58 \<and> c \<noteq> 37 \<and> \<not> (65 \<le> c \<and> c \<le> 90)" and ne: "h \<noteq> []"
    using assms(1) by (auto simp: plain_host_def list_all_iff is_digit_def)
  have d: "\<forall>c \<in> set (str_of_nat n). is_digit c" using str_of_nat_chars [of _ n] by (fastforce simp: is_digit_def)
  have split: "split_once c (xs @ c # ys) = (xs, Some ys)" if "c \<notin> set xs" for c :: nat and xs ys
    using that by (induction xs) auto
  have none: "split_once c xs = (xs, None)" if "c \<notin> set xs" for c :: nat and xs
    using that by (induction xs) auto
  have "64 \<notin> set (rev (h @ 58 # str_of_nat n))" "91 \<notin> set (h @ 58 # str_of_nat n)" "58 \<notin> set h" "37 \<notin> set h"
    using h d by (auto simp: is_digit_def)
  then have info: "hostinfo (h @ 58 # str_of_nat n) = (h, str_of_nat n)"
    unfolding hostinfo_def Let_def by (simp add: none [of 91] split)
  have "ascii_lower h = h" using h by (auto simp: ascii_lower_def intro: map_idI)
  moreover have "list_all (\<lambda>c. c < 128) h" using h by (fastforce simp: list_all_iff)
  ultimately have "hostname U ?u = Some h" using \<open>37 \<notin> set h\<close> ne by (simp add: hostname_def info)
  moreover have "length (str_of_nat n) \<le> 4300" using dec_digits_length [of n 4] assms(5) by (simp add: str_of_nat_def)
  then have "url_port ?u = Inr (Some n)"
    using py_int_str_of_int [of "int n"] assms(5) d by (simp add: url_port_def info str_of_int_def list_all_iff)
  moreover have "HTTPConnection h n (seconds 35) = Inr \<lparr>c_host = h, c_port = n, c_tmo = seconds 35, c_open = False\<rparr>"
    using h by (fastforce simp: HTTPConnection_def list_ex_iff)
  moreover have "rev (dropWhile (\<lambda>c. c = 47) (rev p)) = p"
    using assms(2) by (cases p rule: rev_cases) (auto simp: plain_path_def)
  ultimately show ?thesis using urlsplit_plain [OF assms(1-3)] assms(4) unfolding gateway_open_def by simp
qed

text \<open>Either every thread ends with the same error before the barrier, or every thread gets past it.\<close>

lemma gateway_rest:
  assumes "burst_start concurrency = Inr start" and "(gateway_step E X U gateway uuid ^^ k) start ps"
    and "\<nexists>qs. gateway_step E X U gateway uuid ps qs"
  shows "k \<le> 2 * nat concurrency \<and>
    (case gateway_open U gateway of
       Inl e \<Rightarrow> ps = replicate (nat concurrency) (Refused e) \<and> burst_status ps = Some 1
     | Inr c \<Rightarrow> list_all (\<lambda>p. is_finished p \<or> is_stuck p) ps \<and> (burst_status ps = None \<longleftrightarrow> list_ex is_stuck ps) \<and>
         (list_ex is_stuck ps \<longrightarrow> (\<exists>w c path tn. X w c path tn = None)))"
proof -
  have n: "0 < nat concurrency" using assms(1) by (auto simp: burst_start_def split: if_splits)
  have idle: "\<not> is_waiting p" if "is_finished p \<or> is_stuck p" for p :: "(http_conn \<times> pystr) phase"
    using that by (cases p) auto
  note ends = gw.ends [OF assms(1) assms(2,3) [unfolded gateway_step_def]]
  have why: "\<exists>w c path tn. X w c path tn = None" if st: "list_ex is_stuck ps"
  proof -
    obtain i cp w where "(case cp of (c, path) \<Rightarrow> on_conn c (gateway_get E X path (tenant uuid i))) w = None"
      using ends st by blast
    then show ?thesis by (cases cp) (auto dest!: gateway_get_stuck)
  qed
  have all: "case gateway_open U gateway of Inl e \<Rightarrow> ps = replicate (nat concurrency) (Refused e)
    | Inr c \<Rightarrow> list_all (\<lambda>p. is_finished p \<or> is_stuck p) ps"
    by (rule gw.uniform_end [OF assms(1) assms(2,3) [unfolded gateway_step_def]])
  show ?thesis
  proof (cases "gateway_open U gateway")
    case (Inl e)
    with all have "ps = replicate (nat concurrency) (Refused e)" by simp
    moreover from this n have "burst_status ps = Some 1" by (auto simp: burst_status_def list_ex_iff)
    ultimately show ?thesis using ends Inl by simp
  next
    case (Inr c)
    with all have a: "list_all (\<lambda>p. is_finished p \<or> is_stuck p) ps" by simp
    then have "\<not> list_ex is_waiting ps" using idle by (auto simp: list_all_iff list_ex_iff)
    with ends have "burst_status ps = None \<longleftrightarrow> list_ex is_stuck ps" by blast
    with a ends why Inr show ?thesis by simp
  qed
qed

text \<open>One thread through a gateway that answers at once.\<close>

definition answer_42 :: exchange where
  "answer_42 w c path tn = (if c_port c = 8080 \<and> path = lit ''/t/baseline11?a=25&b=17'' then Some (5, Inr (200, blit ''42'' @ [10])) else Some (0, Inl OSError))"

definition plain_lib :: url_lib where
  "plain_lib = \<lparr>lower_text = id, netloc_ok = \<lambda>_. True\<rparr>"

definition plain_url :: pystr where
  "plain_url = lit ''http://h'' @ 58 # str_of_nat 8080 @ lit ''/t''"

lemma plain_url_open:
  "gateway_open plain_lib plain_url =
     Inr (\<lparr>c_host = lit ''h'', c_port = 8080, c_tmo = seconds 35, c_open = False\<rparr>, lit ''/t/baseline11?a=25&b=17'')"
  using gateway_open_plain [of "lit ''h''" "lit ''/t''" plain_lib 8080]
  by (simp add: plain_url_def plain_lib_def plain_host_def plain_path_def is_digit_def lit_def)

lemma gateway_run:
  "(gateway_step burst_env answer_42 plain_lib plain_url (\<lambda>_. []) ^^ 2) [Starting] [Finished (Inr 5)]"
proof -
  let ?c = "(\<lparr>c_host = lit ''h'', c_port = 8080, c_tmo = seconds 35, c_open = False\<rparr>, lit ''/t/baseline11?a=25&b=17'')"
  let ?step = "gateway_step burst_env answer_42 plain_lib plain_url (\<lambda>_. [])"
  have "?step [Starting] (arrive 0 ?c [Starting])"
    unfolding gateway_step_def by (rule worker_step.reach [where w = "burst_world 0"]) (simp_all add: plain_url_open lift_def)
  moreover have "arrive 0 ?c [Starting] = [Released ?c]" by (simp add: arrive_def)
  moreover have "\<exists>w'. on_conn (fst ?c) (gateway_get burst_env answer_42 (snd ?c) (tenant (\<lambda>_. []) 0)) (burst_world 0) = Some (Inr 5, w')"
    by (simp add: on_conn_def gateway_get_def try_finally_def bind_def get_def request_def conn_close_def modify_def ret_def
        answer_42_def elapse_def burst_world_def burst_env_def strip_by_def is_space_byte_def blit_def lit_def)
  then obtain w' where f: "(case ?c of (c, path) \<Rightarrow> on_conn c (gateway_get burst_env answer_42 path (tenant (\<lambda>_. []) 0)))
      (burst_world 0) = Some (Inr 5, w')" by auto
  have "?step [Released ?c] ([Released ?c][0 := Finished (Inr 5)])"
    unfolding gateway_step_def by (rule worker_step.finish [where w = "burst_world 0" and w' = w' and s = ?c]) (use f in simp_all)
  ultimately show ?thesis by (auto simp: numeral_2_eq_2)
qed

lemma gateway_at_rest: "\<nexists>qs. gateway_step E X U g uuid [Finished r] qs"
  by (auto simp: gateway_step_def less_Suc_eq elim!: worker_step.cases)

text \<open>
  C32: with \<open>--gateway\<close> the script never hangs at its barrier.  It comes to rest after at most two steps of each
  thread, in whatever order the threads run and whatever the server answers: either the URL cannot be used and
  every thread ends with the same error, before the barrier, and the script with 1; or every thread gets past
  the barrier, and then the script has a status unless a thread is stuck, which takes a server with which the
  exchange of a request never ends.
\<close>

theorem gateway_ends:
  assumes "a_gateway args \<noteq> []" and "main_start args = Inr start" and "(main_step E X U uuid args ^^ k) start q"
    and "\<nexists>q'. main_step E X U uuid args q q'"
  shows "k \<le> 2 * nat (a_concurrency args) \<and>
    (case gateway_open U (a_gateway args) of
       Inl e \<Rightarrow> q = Through (replicate (nat (a_concurrency args)) (Refused e)) \<and> main_status q = Some 1
     | Inr c \<Rightarrow> \<exists>ps. q = Through ps \<and> list_all (\<lambda>p. is_finished p \<or> is_stuck p) ps \<and>
         (main_status q = None \<longleftrightarrow> list_ex is_stuck ps) \<and>
         (list_ex is_stuck ps \<longrightarrow> (\<exists>w c path tn. X w c path tn = None)))"
proof -
  obtain st where st: "start = Through st" "burst_start (a_concurrency args) = Inr st"
    using assms(1,2) by (auto simp: main_start_def ebind_eq_Inr)
  obtain ps where ps: "q = Through ps" "(gateway_step E X U (a_gateway args) uuid ^^ k) st ps"
    using assms(3) unfolding st(1) main_run_Through by blast
  have "\<nexists>qs. gateway_step E X U (a_gateway args) uuid ps qs" using assms(4) by (simp add: ps(1) main_step_Through)
  from gateway_rest [OF st(2) ps(2) this] ps(1) show ?thesis by (auto split: sum.splits)
qed

theorem gateway_ends_witness:
  "main_status (Through [Finished (Inr 5)]) \<noteq> None \<and>
   (\<exists>ps. Through [Finished (Inr 5)] = Through ps \<and> list_all (\<lambda>p. is_finished p \<or> is_stuck p) ps)"
proof -
  let ?args = "\<lparr>a_control = [], a_concurrency = 1, a_gateway = plain_url\<rparr>"
  have "plain_url \<noteq> []" by (simp add: plain_url_def lit_def)
  then have start: "a_gateway ?args \<noteq> []" "main_start ?args = Inr (Through [Starting])" by (simp_all add: main_start_def burst_start_def)
  have run: "(main_step burst_env answer_42 plain_lib (\<lambda>_. []) ?args ^^ 2) (Through [Starting]) (Through [Finished (Inr 5)])"
    using gateway_run by (simp add: main_run_Through)
  have "\<nexists>q'. main_step burst_env answer_42 plain_lib (\<lambda>_. []) ?args (Through [Finished (Inr 5)]) q'"
    using gateway_at_rest by (simp add: main_step_Through)
  from gateway_ends [OF start run this] show ?thesis by (simp add: plain_url_open)
qed

end
