(* ===== verification/Serve.thy ===== *)
theory Serve
  imports Harness
begin

text \<open>
  The serving proofs \<open>scripts/fork_serve.py\<close> and \<open>scripts/pool_serve.py\<close>: a base VM with a running
  HTTP server is snapshotted, forks of it are started and probed through their own sockets.  The
  scheduler's choice of the world each client thread of a burst sees (\<open>sched\<close>) is a parameter.  Failures are named after the check that adds them.
\<close>

section \<open>The reply of the server\<close>

definition parse_tok :: "pystr \<Rightarrow> pystr option \<times> int option \<Rightarrow> pystr option \<times> int option" where
  "parse_tok tok st =
     (let iid = (if prefix (lit ''IID='') tok then Some (drop 4 tok) else fst st);
          req = (if prefix (lit ''REQ='') tok
                 then (case py_int (drop 4 tok) of None \<Rightarrow> snd st | Some n \<Rightarrow> Some n) else snd st)
      in (iid, req))"

definition parse :: "pystr \<Rightarrow> pystr option \<times> int option" where
  "parse resp = fold parse_tok (words resp) (None, None)"

definition pool_parse :: "pystr option \<Rightarrow> pystr option" where
  "pool_parse resp =
     fold (\<lambda>tok iid. if prefix (lit ''IID='') tok then Some (drop 4 tok) else iid)
       (words (case resp of None \<Rightarrow> [] | Some r \<Rightarrow> r)) None"

section \<open>A burst of clients\<close>

type_synonym sched = "nat \<Rightarrow> world \<Rightarrow> fs \<times> nat \<times> sock list"

definition thread_world :: "sched \<Rightarrow> nat \<Rightarrow> world \<Rightarrow> world" where
  "thread_world sched i w = (let (f, t, ss) = sched i w in w\<lparr>fs := f, clock := clock w + t, socks := ss\<rparr>)"

text \<open>One client: at most two tries, an exception leaving an \<open>ERR:\<close> text as the result so far.\<close>

fun worker :: "env \<Rightarrow> (pystr \<Rightarrow> bool) \<Rightarrow> pystr \<Rightarrow> nat \<Rightarrow> pystr option \<Rightarrow> pystr option sys" where
  "worker E good path 0 res = ret res"
| "worker E good path (Suc n) res =
     bind (try_except (bind (hit E path (seconds 15)) (\<lambda>v. ret (if good v then Inr v else Inl res)))
             is_Exception (\<lambda>_. ret (Inl (Some (lit ''ERR:''))))) (\<lambda>r.
     case r of Inr v \<Rightarrow> ret (Some v) | Inl res \<Rightarrow> worker E good path n res)"

text \<open>Thread \<open>i\<close> probes the \<open>i\<close>-th path; the main thread joins them all and counts the good answers.\<close>

definition burst :: "env \<Rightarrow> sched \<Rightarrow> (pystr \<Rightarrow> bool) \<Rightarrow> pystr list \<Rightarrow> nat sys" where
  "burst E sched good paths w =
     (let outs = map (\<lambda>i. worker E good (paths ! i) 2 None (thread_world sched i w)) [0..<length paths] in
      if None \<in> set outs then None
      else Some (Inr (length (filter (\<lambda>out. case out of Some (Inr (Some v), _) \<Rightarrow> good v | _ \<Rightarrow> False) outs)),
                 thread_world sched (length paths) w))"

lemma calm_burst: "calm (burst E sched good paths)"
  by (auto simp: calm_def keeps_def burst_def Let_def thread_world_def split: if_splits prod.splits)

section \<open>The warm base\<close>

definition serve_cat :: "env \<Rightarrow> nat \<Rightarrow> pystr \<Rightarrow> pystr sys" where
  "serve_cat E s path =
     bind (on_sock E s (fork_serve_cmd (lit ''cat '' @ path @ lit '' 2>/dev/null; echo''))) (\<lambda>r. ret (strip r))"

text \<open>The guest's HTTP server, the same text in both scripts: an instance id drawn at boot, which a fork
  inherits, and a request counter.\<close>

definition SERVE_SRV :: pystr where
  "SERVE_SRV =
     lit ''python3 -c '' @ [34] @
     lit ''import socket as k,threading as t,random,itertools as z;ID=str(random.randint(10**8,10**9));open('' @ [39] @
     lit ''/tmp/iid'' @ [39] @ lit '','' @ [39] @ lit ''w'' @ [39] @
     lit '').write(ID);L=k.socket(k.AF_INET,k.SOCK_STREAM);L.setsockopt(k.SOL_SOCKET,k.SO_REUSEADDR,1);L.bind(('' @ [39] @
     lit ''127.0.0.1'' @ [39] @ lit '',8080));L.listen(32);cnt=z.count(1);mk=lambda n:('' @ [39] @ lit ''IID=%s REQ=%d'' @
     [92] @ lit ''n'' @ [39] @ lit ''%(ID,n)).encode();snd=lambda s,b:s.sendall(b'' @ [39] @ lit ''HTTP/1.1 200 OK'' @
     [92] @ lit ''r'' @ [92] @ lit ''nContent-Length: '' @ [39] @ lit ''+str(len(b)).encode()+b'' @ [39, 92] @ lit ''r'' @
     [92] @ lit ''nConnection: close'' @ [92] @ lit ''r'' @ [92] @ lit ''n'' @ [92] @ lit ''r'' @ [92] @ lit ''n'' @
     [39] @ lit ''+b);h=lambda s:(s.recv(4096),snd(s,mk(next(cnt))),s.close());open('' @ [39] @ lit ''/tmp/up'' @ [39] @
     lit '','' @ [39] @ lit ''w'' @ [39] @ lit '').write('' @ [39] @ lit ''UP'' @ [39] @
     lit '');[t.Thread(target=h,args=(L.accept()[0],),daemon=True).start() for _ in iter(int,1)]'' @ [34] @
     lit '' >/tmp/srv.log 2>&1 &''"

text \<open>Drive the base to a running server: the control socket, whether it is up, its instance id.\<close>

definition warm_base :: "env \<Rightarrow> pystr \<Rightarrow> (nat \<times> bool \<times> pystr) sys" where
  "warm_base E base =
     bind (uconn E (join base (lit ''base.sock'')) (seconds 20)) (\<lambda>s.
     seq (on_sock E s (fork_serve_cmd (lit ''__info__''))) (
     seq (retry E 120 (bind (on_sock E s (fork_serve_cmd (lit ''echo ready''))) (\<lambda>r. ret (contains (lit ''ready'') r)))) (
     seq (on_sock E s (fork_serve_cmd SERVE_SRV)) (
     bind (any_of E 40 (bind (serve_cat E s (lit ''/tmp/up'')) (\<lambda>r. ret (contains (lit ''UP'') r)))) (\<lambda>up.
     bind (serve_cat E s (lit ''/tmp/iid'')) (\<lambda>iid.
     ret (s, up, iid)))))))"

lemma calm_warm_base: "calm (warm_base E base)"
  unfolding warm_base_def serve_cat_def by (intro calm_forms calm_uconn calm_retry calm_any_of)

section \<open>\<open>fork_serve.py\<close>\<close>

text \<open>The base serves its own server, and is snapshotted.\<close>

definition check_base :: "env \<Rightarrow> nat \<Rightarrow> pystr \<Rightarrow> pystr \<Rightarrow> string list sys" where
  "check_base E s base iid =
     bind (hit E (join base (lit ''base.data'')) (seconds 15)) (\<lambda>r.
     bind (on_meta E s (lit ''__snapshot__ base.snap'') (seconds 60)) (\<lambda>rep.
     ret ((if fst (parse r) \<noteq> Some iid \<or> snd (parse r) = None then [''base did not serve''] else []) @
          (if \<not> contains (lit ''OK'') rep then [''snapshot failed''] else []))))"

definition drive_probe :: "env \<Rightarrow> pystr \<Rightarrow> pystr option sys" where
  "drive_probe E fctl =
     bind (path_exists E fctl) (\<lambda>x.
     if \<not> x then ret None
     else
       try_except
         (bind (uconn E fctl (seconds 10)) (\<lambda>cs.
          bind (on_sock E cs (fork_serve_cmd (lit ''__info__''))) (\<lambda>r.
          seq (on_sock E cs sock_close) (
          ret (if r \<noteq> [] \<and> \<not> contains (lit ''ERR'') r then Some r else None)))))
         is_Exception (\<lambda>_. ret None))"

definition serve_probe :: "env \<Rightarrow> pystr \<Rightarrow> pystr option sys" where
  "serve_probe E data =
     bind (path_exists E data) (\<lambda>x.
     if \<not> x then ret None
     else
       try_except (bind (hit E data (seconds 5)) (\<lambda>r. ret (if r \<noteq> [] then Some r else None)))
         is_Exception (\<lambda>_. ret None))"

text \<open>The fork answers, serves the inherited server, and counts apart from its parent.\<close>

definition check_fork :: "env \<Rightarrow> nat \<Rightarrow> pystr \<Rightarrow> pystr \<Rightarrow> pystr \<Rightarrow> string list sys" where
  "check_fork E t0 base fork iid =
     (let fctl = join fork (lit ''fork.sock''); fdata = join fork (lit ''fork.data''); bdata = join base (lit ''base.data'') in
      bind (poll E t0 (seconds 40) 300 (drive_probe E fctl)) (\<lambda>drive.
      bind (poll E t0 (seconds 40) 300 (serve_probe E fdata)) (\<lambda>first.
      seq (hit E fdata (seconds 15)) (
      seq (hit E fdata (seconds 15)) (
      bind (hit E fdata (seconds 15)) (\<lambda>rf.
      bind (hit E bdata (seconds 15)) (\<lambda>rb.
      bind (hit E bdata (seconds 15)) (\<lambda>rb2.
      let fiid = fst (parse (case first of None \<Rightarrow> [] | Some r \<Rightarrow> r)) in
      ret ((if drive = None then [''never driveable''] else []) @
           (if first = None then [''never served''] else []) @
           (if fiid \<noteq> Some iid then [''not the inherited server''] else []) @
           (case (snd (parse rf), snd (parse rb)) of
              (Some a, Some b) \<Rightarrow> if a \<le> b then [''counters did not diverge''] else []
            | _ \<Rightarrow> [''counters did not diverge'']) @
           (if fst (parse rb2) \<noteq> Some iid then [''base stopped serving''] else [])))))))))) "

text \<open>The fork under load does as well as its parent, and its log is clean.\<close>

definition check_load :: "env \<Rightarrow> sched \<Rightarrow> pystr \<Rightarrow> pystr \<Rightarrow> pystr \<Rightarrow> string list sys" where
  "check_load E sched base fork iid =
     (let good = (\<lambda>v. v \<noteq> [] \<and> fst (parse v) = Some iid) in
      bind (burst E sched good (replicate 16 (join base (lit ''base.data'')))) (\<lambda>bok.
      bind (burst E sched good (replicate 16 (join fork (lit ''fork.data'')))) (\<lambda>fok.
      bind (bind (read_file E (join fork (lit ''fork.log''))) (\<lambda>b. lift (decode_strict b))) (\<lambda>flog.
      ret ((if fok < bok then [''fork concurrency worse''] else []) @
           (if contains (lit ''dumpCurrentStackTrace'') flog \<or> contains (lit ''unexpected errno'') flog
            then [''stack trace''] else []))))))"

text \<open>The body of the \<open>try\<close>; \<open>None\<close> is the early \<open>return 1\<close>.\<close>

definition fork_serve_body :: "env \<Rightarrow> sched \<Rightarrow> pystr \<Rightarrow> pystr \<Rightarrow> string list option harness" where
  "fork_serve_body E sched base fork =
     seq (boot E base (lit ''boot.log'')) (
     bind (on_world (wait_sock E (join base (lit ''base.sock'')) (seconds 40))) (\<lambda>there.
     if \<not> there then ret None
     else
       bind (on_world (warm_base E base)) (\<lambda>(s, up, iid).
       bind (on_world (check_base E s base iid)) (\<lambda>f1.
       seq (on_world (write_text E (join fork (lit ''nether.conf''))
              (lit ''restore=1'' @ [10] @ lit ''restore_from='' @ join base (lit ''base.snap'') @ [10] @
               lit ''control_socket=fork.sock'' @ [10] @ lit ''data_socket=fork.data'' @ [10] @ lit ''app_port=8080'' @ [10]))) (
       bind (on_world time_time) (\<lambda>t0.
       seq (boot E fork (lit ''fork.log'')) (
       bind (on_world (check_fork E t0 base fork iid)) (\<lambda>f2.
       bind (on_world (check_load E sched base fork iid)) (\<lambda>f3.
       seq (on_world (swallow (on_meta E s (lit ''__shutdown__'') (seconds 5)))) (
       seq (on_world (swallow (bind (uconn E (join fork (lit ''fork.sock'')) (seconds 5)) (\<lambda>t.
              on_meta E t (lit ''__shutdown__'') (seconds 5))))) (
       ret (Some (f1 @ f2 @ f3)))))))))))))"

definition fork_serve_main :: "env \<Rightarrow> sched \<Rightarrow> int sys" where
  "fork_serve_main E sched =
     bind (path_exists E (BIN E)) (\<lambda>b.
     if \<not> b then ret 1
     else
       let WORK = or_default (environ E (lit ''NETHER_WORK'')) (lit ''/tmp/nfp'');
           base = join WORK (lit ''base''); fork = join WORK (lit ''fork'') in
       seq (rmtree E WORK) (
       seq (makedirs E base False) (
       seq (makedirs E fork False) (
       seq (symlink E (NB E @ lit ''/kernels'') (join base (lit ''kernels''))) (
       seq (write_text E (join base (lit ''nether.conf''))
              (lit ''control_socket=base.sock'' @ [10] @ lit ''data_socket=base.data'' @ [10] @ lit ''app_port=8080'' @ [10] @
               lit ''ram_mb=512'' @ [10] @ lit ''cpus=1'' @ [10])) (
       bind (with_procs E 500000 (fork_serve_body E sched base fork)) (\<lambda>fails.
       ret (if fails = Some [] then 0 else 1))))))))"

lemma calm_drive_probe: "calm (drive_probe E p)"
  unfolding drive_probe_def by (intro calm_forms calm_calls calm_uconn)

lemma calm_serve_probe: "calm (serve_probe E p)"
  unfolding serve_probe_def by (intro calm_forms calm_calls calm_hit)

lemma tracked_fork_serve_body: "keeps (tracked P) (fork_serve_body E sched base fork)"
  unfolding fork_serve_body_def check_base_def check_fork_def check_load_def Let_def
  by (intro tracked_forms calm_forms calm_calls calm_warm_base calm_hit calm_poll calm_drive_probe calm_serve_probe calm_burst calm_uconn)

section \<open>\<open>pool_serve.py\<close>\<close>

definition RAM_MB :: nat where "RAM_MB = 512"

definition vm_conf :: "pystr \<Rightarrow> pystr" where
  "vm_conf snap =
     lit ''restore=1'' @ [10] @ lit ''restore_from='' @ snap @ [10] @ lit ''control_socket=c.sock'' @ [10] @
     lit ''data_socket=d.sock'' @ [10] @ lit ''app_port=8080'' @ [10] @ lit ''ram_mb='' @ str_of_nat RAM_MB @ [10]"

definition fork_vm :: "env \<Rightarrow> pystr \<Rightarrow> pystr \<Rightarrow> nat \<Rightarrow> (pystr \<times> nat \<times> nat) sys" where
  "fork_vm E WORK snap idx =
     (let d = join WORK (lit ''vm'' @ str_of_nat idx) in
      seq (makedirs E d True) (
      seq (write_text E (join d (lit ''nether.conf'')) (vm_conf snap)) (
      bind time_time (\<lambda>t0.
      bind (launch E d (lit ''vm.log'')) (\<lambda>p.
      ret (d, p, t0))))))"

definition wait_serving :: "env \<Rightarrow> pystr \<Rightarrow> nat \<Rightarrow> (pystr option \<times> nat) sys" where
  "wait_serving E d t0 =
     bind (poll E t0 (seconds 40) 300 (serve_probe E (join d (lit ''d.sock'')))) (\<lambda>r.
     bind time_time (\<lambda>t. ret (r, t - t0)))"

definition info :: "env \<Rightarrow> pystr \<Rightarrow> pystr sys" where
  "info E path = bind (uconn E path (seconds 8)) (\<lambda>s.
     bind (on_sock E s (fork_serve_cmd (lit ''__info__''))) (\<lambda>r. seq (on_sock E s sock_close) (ret r)))"

text \<open>\<open>forks = [fork_vm(i, snap) for i in range(N)]\<close>, and only then \<open>procs += ...\<close>.\<close>

fun fork_all :: "env \<Rightarrow> pystr \<Rightarrow> pystr \<Rightarrow> nat list \<Rightarrow> (pystr \<times> nat \<times> nat) list sys" where
  "fork_all E WORK snap [] = ret []"
| "fork_all E WORK snap (i # is) =
     bind (fork_vm E WORK snap i) (\<lambda>f. bind (fork_all E WORK snap is) (\<lambda>fs. ret (f # fs)))"

definition prefork :: "env \<Rightarrow> pystr \<Rightarrow> pystr \<Rightarrow> nat \<Rightarrow> (pystr \<times> nat \<times> nat) list harness" where
  "prefork E WORK snap n =
     bind (on_world (fork_all E WORK snap [0..<n])) (\<lambda>forks.
     seq (modify (\<lambda>(w, ps). (w, ps @ map (\<lambda>(d, p, t). p) forks))) (ret forks))"

text \<open>\<open>cd, cp, ct = fork_vm(...); procs.append(cp)\<close>, then wait until it serves.\<close>

definition fork_one :: "env \<Rightarrow> pystr \<Rightarrow> pystr \<Rightarrow> nat \<Rightarrow> pystr option harness" where
  "fork_one E WORK snap i =
     bind (on_world (fork_vm E WORK snap i)) (\<lambda>(d, p, t).
     seq (modify (\<lambda>(w, ps). (w, ps @ [p]))) (
     bind (on_world (wait_serving E d t)) (\<lambda>(r, dt). ret r)))"

fun warm_all :: "env \<Rightarrow> pystr \<Rightarrow> (pystr \<times> nat \<times> nat) list \<Rightarrow> string list sys" where
  "warm_all E iid [] = ret []"
| "warm_all E iid ((d, p, t) # forks) =
     bind (wait_serving E d t) (\<lambda>(r, dt).
     bind (warm_all E iid forks) (\<lambda>fs.
     ret ((if r = None \<or> pool_parse r \<noteq> Some iid then [''pool VM never served''] else []) @ fs)))"

fun ready_count :: "env \<Rightarrow> pystr list \<Rightarrow> nat sys" where
  "ready_count E [] = ret 0"
| "ready_count E (d # ds) =
     bind (info E (join d (lit ''c.sock''))) (\<lambda>r.
     bind (ready_count E ds) (\<lambda>k. ret ((if contains (lit ''data_plane=on'') r then 1 else 0) + k)))"

definition pool_body :: "env \<Rightarrow> sched \<Rightarrow> nat \<Rightarrow> pystr \<Rightarrow> string list harness" where
  "pool_body E sched N WORK =
     (let base = join WORK (lit ''base''); snap = join base (lit ''base.snap'') in
      seq (boot E base (lit ''boot.log'')) (
      bind (on_world time_time) (\<lambda>t0.
      seq (on_world (wait_path E (join base (lit ''base.sock'')) t0 (seconds 40) 300)) (
      bind (on_world (warm_base E base)) (\<lambda>(s, up, iid).
      bind (on_world (on_meta E s (lit ''__snapshot__ base.snap'') (seconds 60))) (\<lambda>rep.
      bind (prefork E WORK snap N) (\<lambda>forks.
      let ds = map fst forks in
      bind (on_world (warm_all E iid forks)) (\<lambda>f2.
      bind (on_world (ready_count E ds)) (\<lambda>dp_on.
      bind (case ds of [] \<Rightarrow> raise IndexError | d # _ \<Rightarrow> on_world (hit E (join d (lit ''d.sock'')) (seconds 15))) (\<lambda>_.
      bind (fork_one E WORK snap N) (\<lambda>cr.
      bind (on_world (burst E sched (\<lambda>v. pool_parse (Some v) = Some iid) (map (\<lambda>d. join d (lit ''d.sock'')) ds))) (\<lambda>served.
      bind (fork_one E WORK snap (N + 1)) (\<lambda>rr.
      seq (on_world (swallow (on_meta E s (lit ''__shutdown__'') (seconds 5)))) (
      ret ((if \<not> contains (lit ''OK'') rep \<or> \<not> up then [''base bake failed''] else []) @ f2 @
           (if dp_on \<noteq> N then [''data plane off''] else []) @
           (if cr = None \<or> pool_parse cr \<noteq> Some iid then [''cold fork did not serve''] else []) @
           (if served \<noteq> N then [''concurrency''] else []) @
           (if rr = None \<or> pool_parse rr \<noteq> Some iid then [''refill fork did not serve''] else []))))))))))))))))"

text \<open>\<open>N = int(sys.argv[1]) if len(sys.argv) > 1 else 4\<close>: without a VM the checkout has nothing to hit.\<close>

definition pool_size :: "pystr list \<Rightarrow> exn + int" where
  "pool_size args =
     (case args of
        [] \<Rightarrow> Inr 4
      | a # _ \<Rightarrow> (case py_int a of None \<Rightarrow> Inl ValueError | Some n \<Rightarrow> Inr n))"

definition pool_main :: "env \<Rightarrow> sched \<Rightarrow> pystr list \<Rightarrow> int sys" where
  "pool_main E sched args =
     bind (lift (pool_size args)) (\<lambda>N.
     bind (path_exists E (BIN E)) (\<lambda>b.
     if \<not> b then ret 1
     else
       let WORK = or_default (environ E (lit ''NETHER_WORK'')) (lit ''/tmp/nvp''); base = join WORK (lit ''base'') in
       seq (rmtree E WORK) (
       seq (makedirs E base False) (
       seq (symlink E (NB E @ lit ''/kernels'') (join base (lit ''kernels''))) (
       seq (write_text E (join base (lit ''nether.conf''))
              (lit ''control_socket=base.sock'' @ [10] @ lit ''data_socket=base.data'' @ [10] @ lit ''app_port=8080'' @ [10] @
               lit ''ram_mb='' @ str_of_nat RAM_MB @ [10] @ lit ''cpus=1'' @ [10])) (
       bind (with_procs E 500000 (pool_body E sched (nat N) WORK)) (\<lambda>fails.
       ret (if fails = [] then 0 else 1))))))))"

section \<open>Properties\<close>

text \<open>
  C17: whenever \<open>fork_serve.py\<close> comes back, with whatever status or exception, \<open>terminate()\<close> and then \<open>kill()\<close> have
  been called on every VM it started, and it touched no other process.
\<close>

theorem fork_serve_stops_vms:
  assumes "fork_serve_main E sched w = Some (r, w')"
  shows "\<exists>ds. procs w' = procs w @ map stopped ds"
proof -
  have "stops (fork_serve_main E sched)"
    unfolding fork_serve_main_def Let_def by (intro stops_forms tracked_fork_serve_body)
  from leavesD [OF this assms] show ?thesis by (simp add: stopped_since_def)
qed

lemma fork_vm_run:
  assumes "fork_vm E WORK snap i w = Some (r, w')"
  shows "procs w' = procs w \<and> (\<exists>e. r = Inl e) \<or>
    (\<exists>t. r = Inr (join WORK (lit ''vm'' @ str_of_nat i), length (procs w), t)) \<and>
      procs w' = procs w @ [running (join WORK (lit ''vm'' @ str_of_nat i))]"
proof -
  let ?d = "join WORK (lit ''vm'' @ str_of_nat i)"
  let ?prep = "seq (makedirs E ?d True) (write_text E (join ?d (lit ''nether.conf'')) (vm_conf snap))"
  have calm: "calm ?prep" by (intro calm_forms calm_calls)
  have "fork_vm E WORK snap i = bind ?prep (\<lambda>_. bind time_time (\<lambda>t0. bind (launch E ?d (lit ''vm.log'')) (\<lambda>p. ret (?d, p, t0))))"
    unfolding fork_vm_def Let_def by (rule ext) (auto simp: seq_def bind_def split: option.splits sum.splits)
  then consider e where "?prep w = Some (Inl e, w')" "r = Inl e"
    | a w1 q where "?prep w = Some (Inr a, w1)" "launch E ?d (lit ''vm.log'') w1 = Some (q, w')"
        "r = (case q of Inl e \<Rightarrow> Inl e | Inr p \<Rightarrow> Inr (?d, p, clock w1))"
    using assms by (auto simp: bind_Some_iff time_time_def bind_get ret_def)
  then show ?thesis
  proof cases
    case 1
    then show ?thesis using calmD [OF calm] by blast
  next
    case 2
    then show ?thesis using calmD [OF calm 2(1)] launch_run [OF 2(2)] by auto
  qed
qed

lemma stop_all_first:
  assumes "procs w = P @ running d # Q"
  shows "\<exists>w'. stop_all E nap (w, [length P]) = Some (Inr (), (w', [length P])) \<and> procs w' = P @ stopped d # Q"
  using assms
  by (simp add: stop_all_def signal_all_def bind_def get_def seq_def ret_def on_world_def swallow_def try_except_def
      send_signal_def modify_def sleep_def elapse_def Let_def list_update_append stopped_def running_def)

text \<open>
  C30: \<open>pool_serve.py\<close> notes its forks only after the last one has started.  When the base has been booted,
  warmed and snapshotted and the first fork of the pool has started, but starting the second one fails, the
  script's body ends with that error: of the two VMs it started it calls \<open>terminate()\<close> and \<open>kill()\<close> on the base
  and on the first fork neither, which is left running.
\<close>

theorem pool_leaks_fork:
  assumes "launch E (join WORK (lit ''base'')) (lit ''boot.log'') w = Some (Inr p0, w1)"
    and "wait_path E (join (join WORK (lit ''base'')) (lit ''base.sock'')) (clock w1) (seconds 40) 300 w1 = Some (Inr (), w2)"
    and "warm_base E (join WORK (lit ''base'')) w2 = Some (Inr (s, up, iid), w3)"
    and "on_meta E s (lit ''__snapshot__ base.snap'') (seconds 60) w3 = Some (Inr rep, w4)"
    and "fork_vm E WORK (join (join WORK (lit ''base'')) (lit ''base.snap'')) 0 w4 = Some (Inr vm0, w5)"
    and "fork_vm E WORK (join (join WORK (lit ''base'')) (lit ''base.snap'')) 1 w5 = Some (Inl e, w6)"
    and "2 \<le> N"
  shows "\<exists>w'. with_procs E nap (pool_body E sched N WORK) w = Some (Inl e, w') \<and>
    procs w' = procs w @ [stopped (join WORK (lit ''base'')), running (join WORK (lit ''vm'' @ str_of_nat 0))]"
proof -
  let ?base = "join WORK (lit ''base'')" and ?snap = "join (join WORK (lit ''base'')) (lit ''base.snap'')"
  have p: "p0 = length (procs w)" "procs w1 = procs w @ [running ?base]" using launch_run [OF assms(1)] by auto
  have "procs w4 = procs w1"
    using calmD [OF calm_wait_path assms(2)] calmD [OF calm_warm_base assms(3)] calmD [OF calm_on_sock assms(4)] by simp
  then have procs: "procs w6 = procs w @ running ?base # [running (join WORK (lit ''vm'' @ str_of_nat 0))]"
    using fork_vm_run [OF assms(5)] fork_vm_run [OF assms(6)] p(2) by auto
  obtain n where "N = Suc (Suc n)" using assms(7) by (metis Suc_le_D numeral_2_eq_2 Suc_le_mono)
  then have "[0..<N] = 0 # 1 # [2..<N]" by (simp add: upt_rec [of 0] upt_rec [of "Suc 0"] numeral_2_eq_2 del: upt_Suc)
  then have "fork_all E WORK ?snap [0..<N] w4 = Some (Inl e, w6)"
    using assms(5,6) by (simp add: bind_ret bind_raise)
  then have pre: "prefork E WORK ?snap N (w4, [p0]) = Some (Inl e, (w6, [p0]))"
    by (simp add: prefork_def on_world_def bind_def)
  have boot: "boot E ?base (lit ''boot.log'') (w, []) = Some (Inr p0, (w1, [p0]))"
    using assms(1) by (simp add: boot_def on_world_def bind_def seq_def modify_def ret_def)
  have "pool_body E sched N WORK (w, []) = Some (Inl e, (w6, [p0]))"
    unfolding pool_body_def Let_def
    using boot assms(2-4) pre by (simp add: seq_ret bind_ret bind_raise on_world_def time_time_def get_def)
  moreover obtain w' where "stop_all E nap (w6, [p0]) = Some (Inr (), (w', [p0]))"
    "procs w' = procs w @ [stopped ?base, running (join WORK (lit ''vm'' @ str_of_nat 0))]"
    using stop_all_first [OF procs] p(1) by blast
  ultimately show ?thesis by (auto simp: with_procs_def try_finally_def)
qed

lemma words_aux_word: "list_all (\<lambda>c. \<not> is_space c) u \<Longrightarrow> words_aux w (u @ s) = words_aux (w @ u) s"
  by (induction u arbitrary: w) auto

text \<open>
  The server's line \<open>IID=<id> REQ=<n>\<close> is read back as the id and the number.
\<close>

lemma parse_reply:
  assumes "list_all (\<lambda>c. \<not> is_space c) iid" and "length (str_of_int n) \<le> 4300"
  shows "parse (lit ''IID='' @ iid @ lit '' REQ='' @ str_of_int n @ [10]) = (Some iid, Some n)"
proof -
  have sp: "is_space 32" "is_space 10" by (simp_all add: is_space_def)
  have d: "list_all (\<lambda>c. \<not> is_space c) (lit ''IID='' @ iid)" "list_all (\<lambda>c. \<not> is_space c) (lit ''REQ='' @ str_of_int n)"
    using assms(1) str_of_int_not_space by (auto simp: list_all_iff lit_def is_space_def)
  have "lit ''IID='' @ iid @ lit '' REQ='' @ str_of_int n @ [10] = (lit ''IID='' @ iid) @ 32 # ((lit ''REQ='' @ str_of_int n) @ [10])"
    by (simp add: lit_def)
  then have "words (lit ''IID='' @ iid @ lit '' REQ='' @ str_of_int n @ [10]) = [lit ''IID='' @ iid, lit ''REQ='' @ str_of_int n]"
    unfolding words_def using sp by (simp only: words_aux_word [OF d(1)] words_aux_word [OF d(2)] append_Nil words_aux.simps if_True)
      (simp add: lit_def)
  then show ?thesis
    using py_int_str_of_int [OF assms(2)] by (simp add: parse_def parse_tok_def Let_def lit_def)
qed

end
