(* ===== verification/Data_Plane.thy ===== *)
theory Data_Plane
  imports Serve Burst
begin

text \<open>
  The data-plane measurements \<open>scripts/data_plane_pacing.py\<close> (is a tenant held to its rate?) and
  \<open>scripts/data_plane_fairness.py\<close> (does one transfer starve another?).  Each starts one VM, sends small
  requests while a thread of the script downloads a large one, and stops the VM.  Whether the thread is
  still alive at the \<open>k\<close>-th look, the world it has left when it is joined and the time it has noted
  are parameters.  Times are microseconds and rates exact rationals (bytes per microsecond, which
  is megabytes per second); the rounding of Python's floats is not modelled.
\<close>

section \<open>One VM, stopped at the end\<close>

text \<open>\<open>finally: try: p.terminate(); time.sleep(0.5); p.kill()  except Exception: pass; rmtree(WORK)\<close>\<close>

definition stop_one :: "env \<Rightarrow> pystr \<Rightarrow> nat \<Rightarrow> unit sys" where
  "stop_one E WORK p =
     seq (swallow (seq (send_signal p SIGTERM) (seq (sleep E 500000) (send_signal p SIGKILL)))) (rmtree E WORK)"

definition with_vm :: "env \<Rightarrow> pystr \<Rightarrow> pystr \<Rightarrow> 'a sys \<Rightarrow> 'a sys" where
  "with_vm E WORK d body = bind (launch E d (lit ''boot.log'')) (\<lambda>p. try_finally body (stop_one E WORK p))"

lemma stop_one_run:
  assumes "procs w = P @ [running d]"
  shows "\<exists>w'. stop_one E WORK (length P) w = Some (Inr (), w') \<and> procs w' = P @ [stopped d]"
proof -
  obtain r w' where r: "stop_one E WORK (length P) w = Some (r, w')" "r = Inr ()"
    by (auto simp: stop_one_def seq_def bind_def swallow_def try_except_def send_signal_def sleep_def rmtree_def modify_def ret_def)
  then have "procs w' = P @ [stopped d]"
    using assms
    by (auto simp: stop_one_def seq_def bind_def swallow_def try_except_def send_signal_def sleep_def rmtree_def modify_def ret_def
        elapse_def Let_def running_def stopped_def split: option.splits node.splits)
  with r show ?thesis by blast
qed

lemma stops_with_vm:
  assumes "calm body"
  shows "stops (with_vm E WORK d body)"
proof (rule leavesI)
  fix w r w' assume run: "with_vm E WORK d body w = Some (r, w')"
  consider e where "launch E d (lit ''boot.log'') w = Some (Inl e, w')"
    | p w1 where "launch E d (lit ''boot.log'') w = Some (Inr p, w1)" "try_finally body (stop_one E WORK p) w1 = Some (r, w')"
    using run by (auto simp: with_vm_def bind_Some_iff)
  then show "stopped_since (procs w) (procs w')"
  proof cases
    case 1
    with launch_run [OF 1] show ?thesis using stopping.R_refl by auto
  next
    case (2 p w1)
    from launch_run [OF 2(1)] have p: "p = length (procs w)" "procs w1 = procs w @ [running d]" by auto
    from 2(2) obtain q w2 b where b: "body w1 = Some (q, w2)" "stop_one E WORK p w2 = Some (b, w')"
      by (elim try_finally_runs) force
    have "procs w2 = procs w @ [running d]" using calmD [OF assms b(1)] p(2) by simp
    from stop_one_run [OF this, of E WORK] b(2) p(1) have "procs w' = procs w @ map stopped [d]" by auto
    then show ?thesis unfolding stopped_since_def by blast
  qed
qed

section \<open>Requests\<close>

definition guest_cat :: "env \<Rightarrow> nat \<Rightarrow> pystr \<Rightarrow> pystr sys" where
  "guest_cat E s path =
     seq (on_sock E s (send_line (lit ''cat '' @ path @ lit '' 2>/dev/null; echo''))) (
     bind (on_sock E s (framed (seconds 5))) (\<lambda>(b, e). ret (strip (decode b))))"

text \<open>\<open>http\<close>: the number of bytes the peer sends until it closes, and the time that takes.\<close>

definition http :: "env \<Rightarrow> nat \<Rightarrow> pystr \<Rightarrow> string \<Rightarrow> nat \<Rightarrow> (nat \<times> nat) sys" where
  "http E n dsock path to =
     bind time_time (\<lambda>t.
     bind (uconn E dsock to) (\<lambda>d.
     seq (on_sock E d (sendall (blit (''GET '' @ path @ '' HTTP/1.0'') @ [13, 10, 13, 10]))) (
     bind (on_sock E d (drain n)) (\<lambda>b.
     seq (on_sock E d sock_close) (
     bind time_time (\<lambda>t'. ret (length b, t' - t)))))))"

lemma quiet_http: "settles (patient E) quiet (http E n dsock path to)"
  unfolding http_def uconn_def by (intro quiet.forms quiet_calls quiet_on_sock returning_drain returning_sendall returning_sock_close)

text \<open>\<open>__info__\<close>: the advertised rate, read from its line.\<close>

definition rate_line :: "pystr list \<Rightarrow> exn + int option" where
  "rate_line lns =
     (case find (prefix (lit ''data_rate_kbps='')) lns of
        None \<Rightarrow> Inr None
      | Some l \<Rightarrow> (case py_int (drop 15 l) of None \<Rightarrow> Inl ValueError | Some n \<Rightarrow> Inr (Some n)))"

text \<open>\<open>str.splitlines()\<close>: a carriage return and a newline end one line together.\<close>

definition is_break :: "nat \<Rightarrow> bool" where
  "is_break c \<longleftrightarrow> c \<in> {10, 11, 12, 13, 28, 29, 30, 133, 8232, 8233}"

fun lines_from :: "pystr \<Rightarrow> pystr \<Rightarrow> pystr list" where
  "lines_from cur [] = (if cur = [] then [] else [cur])"
| "lines_from cur [c] = (if is_break c then [cur] else [cur @ [c]])"
| "lines_from cur (c # d # cs) =
     (if c = 13 \<and> d = 10 then cur # lines_from [] cs
      else if is_break c then cur # lines_from [] (d # cs)
      else lines_from (cur @ [c]) (d # cs))"

definition splitlines :: "pystr \<Rightarrow> pystr list" where
  "splitlines s = lines_from [] s"

definition info_rate :: "env \<Rightarrow> nat \<Rightarrow> int option sys" where
  "info_rate E s =
     seq (on_sock E s (send_line (lit ''__info__''))) (
     bind (on_sock E s (framed (seconds 5))) (\<lambda>(b, e). lift (rate_line (splitlines (decode b)))))"

text \<open>Boot: the control socket, a guest that answers, its server.\<close>

definition guest_ready :: "env \<Rightarrow> nat \<Rightarrow> bool sys" where
  "guest_ready E s =
     seq (on_sock E s (send_line (lit ''echo ready''))) (
     bind (on_sock E s (framed (seconds 5))) (\<lambda>(b, e). ret (contains (blit ''ready'') b)))"

definition reach_guest :: "env \<Rightarrow> pystr \<Rightarrow> nat sys" where
  "reach_guest E csk =
     bind time_time (\<lambda>t0.
     seq (wait_path E csk t0 (seconds 40) 100000) (
     bind (uconn E csk (seconds 30)) (\<lambda>s.
     seq (retry E 120 (guest_ready E s)) (ret s))))"

definition start_server :: "env \<Rightarrow> pystr \<Rightarrow> nat \<Rightarrow> unit sys" where
  "start_server E srv s =
     seq (on_sock E s (send_line srv)) (
     seq (on_sock E s (framed (seconds 5))) (
     seq (any_of E 40 (bind (guest_cat E s (lit ''/tmp/up'')) (\<lambda>r. ret (contains (lit ''UP'') r)))) (ret ())))"

text \<open>\<open>while th.is_alive() and len(lat) < n: _, l = http(dsk, "/small"); lat.append(l); time.sleep(0.02)\<close>\<close>

fun flood :: "env \<Rightarrow> (nat \<Rightarrow> world \<Rightarrow> bool) \<Rightarrow> nat \<Rightarrow> nat \<Rightarrow> pystr \<Rightarrow> nat \<Rightarrow> nat \<Rightarrow> nat list sys" where
  "flood E alive n to dsk k 0 = ret []"
| "flood E alive n to dsk k (Suc m) =
     bind (get (alive k)) (\<lambda>a.
     if \<not> a then ret []
     else
       bind (http E n dsk ''/small'' to) (\<lambda>(_, l).
       seq (sleep E 20000) (
       bind (flood E alive n to dsk (Suc k) m) (\<lambda>ls. ret (l # ls)))))"

definition bye :: "env \<Rightarrow> nat \<Rightarrow> unit sys" where
  "bye E s = swallow (seq (on_sock E s (send_line (lit ''__shutdown__''))) (on_sock E s (recv 64)))"

lemmas calm_http = quiet_http [THEN calm_quiet]

lemma calm_flood: "calm (flood E alive n to dsk k m)"
proof (induction m arbitrary: k)
  case (Suc m)
  show ?case by (auto intro!: calm_forms calm_calls calm_http Suc split: prod.splits)
qed (auto intro: calm_forms)

text \<open>\<open>th.join()\<close>: the world the downloading thread and the other processes have left.\<close>

definition join_thread :: "sched \<Rightarrow> unit sys" where
  "join_thread sched = modify (thread_world sched 0)"

lemma calm_join_thread: "calm (join_thread sched)"
  by (auto simp: calm_def keeps_def join_thread_def modify_def thread_world_def Let_def split: prod.splits)

lemma calm_guest_cat: "calm (guest_cat E s path)"
  unfolding guest_cat_def by (auto intro!: calm_forms split: prod.splits)

lemma calm_info_rate: "calm (info_rate E s)"
  unfolding info_rate_def by (auto intro!: calm_forms split: prod.splits)

lemma calm_reach_guest: "calm (reach_guest E csk)"
  unfolding reach_guest_def guest_ready_def
  by (auto intro!: calm_forms calm_calls calm_wait_path calm_uconn calm_retry split: prod.splits)

lemma calm_start_server: "calm (start_server E srv s)"
  unfolding start_server_def by (intro calm_forms calm_any_of calm_guest_cat)

lemma calm_bye: "calm (bye E s)"
  unfolding bye_def by (intro calm_forms)

lemmas calm_guest = calm_guest_cat calm_info_rate calm_reach_guest calm_start_server calm_bye calm_http calm_flood calm_join_thread

section \<open>\<open>data_plane_pacing.py\<close>\<close>

definition CAP_KBPS :: int where "CAP_KBPS = 8000"

definition CAP_MBps :: rat where "CAP_MBps = of_int CAP_KBPS * 125 / 10 ^ 6"

definition BIG_MIB :: nat where "BIG_MIB = 8"

text \<open>The guest's HTTP server: \<open>/big\<close> is \<open>BIG_MIB\<close> sends of a mebibyte, everything else two bytes.\<close>

definition PACING_SRV :: pystr where
  "PACING_SRV =
     lit ''python3 -c '' @ [34] @ lit ''import socket as k,threading as t;buf=b'' @ [39] @ lit ''X'' @ [39] @
     lit ''*(1024*1024);HB=b'' @ [39] @ lit ''HTTP/1.1 200 OK'' @ [92] @ lit ''r'' @ [92] @ lit ''nConnection: close'' @
     [92] @ lit ''r'' @ [92] @ lit ''n'' @ [92] @ lit ''r'' @ [92] @ lit ''n'' @ [39] @ lit '';SM=b'' @ [39] @
     lit ''HTTP/1.1 200 OK'' @ [92] @ lit ''r'' @ [92] @ lit ''nContent-Length: 2'' @ [92] @ lit ''r'' @ [92] @
     lit ''nConnection: close'' @ [92] @ lit ''r'' @ [92] @ lit ''n'' @ [92] @ lit ''r'' @ [92] @ lit ''nok'' @ [39] @
     lit '';big=lambda c:(c.sendall(HB),[c.sendall(buf) for _ in range('' @ str_of_nat BIG_MIB @
     lit '')],c.close());sml=lambda c:(c.sendall(SM),c.close());h=lambda c:(big if b'' @ [39] @ lit ''/big'' @ [39] @
     lit '' in c.recv(4096) else sml)(c);L=k.socket(k.AF_INET,k.SOCK_STREAM);L.setsockopt(k.SOL_SOCKET,k.SO_REUSEADDR,1);L.bind(('' @
     [39] @ lit ''127.0.0.1'' @ [39] @ lit '',8080));L.listen(32);open('' @ [39] @ lit ''/tmp/up'' @ [39] @ lit '','' @
     [39] @ lit ''w'' @ [39] @ lit '').write('' @ [39] @ lit ''UP'' @ [39] @
     lit '');[t.Thread(target=h,args=(L.accept()[0],),daemon=True).start() for _ in iter(int,1)]'' @ [34] @
     lit '' >/tmp/srv.log 2>&1 &''"

record pacing_out =
  adv :: "int option"
  big_bytes :: nat
  big_MBps :: rat
  small_max :: "nat option"       \<comment> \<open>microseconds; only the capped run has it\<close>

definition big_rate :: "nat \<Rightarrow> nat \<Rightarrow> rat" where
  "big_rate nb lb = (if lb = 0 then 0 else of_nat nb / of_nat lb)"

definition pacing_conf :: "int \<Rightarrow> pystr" where
  "pacing_conf cap_kbps =
     lit ''control_socket=c.sock'' @ [10] @ lit ''data_socket=d.sock'' @ [10] @ lit ''app_port=8080'' @ [10] @
     lit ''ram_mb=768'' @ [10] @ lit ''cpus=4'' @ [10] @
     (if cap_kbps \<noteq> 0 then lit ''data_rate_kbps='' @ str_of_int cap_kbps @ [10] else [])"

definition worst :: "nat list \<Rightarrow> nat" where
  "worst lat = (if lat = [] then 0 else Max (set lat))"

definition small_under_flood :: "env \<Rightarrow> (nat \<Rightarrow> world \<Rightarrow> bool) \<Rightarrow> sched \<Rightarrow> pystr \<Rightarrow> nat sys" where
  "small_under_flood E alive sched dsk =
     seq (sleep E 50000) (
     bind (flood E alive 262144 (seconds 60) dsk 0 40) (\<lambda>lat.
     seq (join_thread sched) (ret (worst lat))))"

definition pacing_measure ::
    "env \<Rightarrow> (nat \<Rightarrow> world \<Rightarrow> bool) \<Rightarrow> sched \<Rightarrow> int \<Rightarrow> pystr \<Rightarrow> pacing_out sys" where
  "pacing_measure E alive sched cap_kbps base =
     (let dsk = join base (lit ''d.sock'') in
      bind (reach_guest E (join base (lit ''c.sock''))) (\<lambda>s.
      bind (info_rate E s) (\<lambda>a.
      seq (start_server E PACING_SRV s) (
      seq (http E 262144 dsk ''/small'' (seconds 60)) (
      bind (http E 262144 dsk ''/big'' (seconds 60)) (\<lambda>(nb, lb).
      bind (if cap_kbps \<noteq> 0 then bind (small_under_flood E alive sched dsk) (\<lambda>m. ret (Some m)) else ret None) (\<lambda>sm.
      seq (bye E s) (
      ret \<lparr>adv = a, big_bytes = nb, big_MBps = big_rate nb lb, small_max = sm\<rparr>))))))))"

definition pacing_run :: "env \<Rightarrow> (nat \<Rightarrow> world \<Rightarrow> bool) \<Rightarrow> sched \<Rightarrow> int \<Rightarrow> pacing_out sys" where
  "pacing_run E alive sched cap_kbps =
     (let WORK = or_default (environ E (lit ''NETHER_WORK'')) (lit ''/tmp/npace''); base = join WORK (lit ''b'') in
      seq (rmtree E WORK) (
      seq (makedirs E base False) (
      seq (symlink E (NB E @ lit ''/kernels'') (join base (lit ''kernels''))) (
      seq (write_text E (join base (lit ''nether.conf'')) (pacing_conf cap_kbps)) (
      with_vm E WORK base (pacing_measure E alive sched cap_kbps base))))))"

text \<open>The verdict; a missing worst time counts as 99 seconds.\<close>

definition pacing_fails :: "pacing_out \<Rightarrow> pacing_out \<Rightarrow> string list" where
  "pacing_fails unc cap =
     (let cm = big_MBps cap; um = big_MBps unc;
          sm = (case small_max cap of None \<Rightarrow> seconds 99 | Some m \<Rightarrow> m) in
      (if big_bytes unc = big_bytes cap \<and> BIG_MIB * 1024 * 1024 \<le> big_bytes unc then [] else [''bytes lost'']) @
      (if adv cap = Some CAP_KBPS then [] else [''cap not advertised'']) @
      (if adv unc = Some 0 then [] else [''no cap not advertised'']) @
      (if CAP_MBps * 3 / 4 \<le> cm \<and> cm \<le> CAP_MBps * 3 / 2 then [] else [''off the cap'']) @
      (if cm * 3 < um then [] else [''no throttle'']) @
      (if sm < seconds 3 then [] else [''starved'']))"

definition pacing_main :: "env \<Rightarrow> (nat \<Rightarrow> world \<Rightarrow> bool) \<Rightarrow> sched \<Rightarrow> int sys" where
  "pacing_main E alive sched =
     bind (pacing_run E alive sched 0) (\<lambda>unc.
     bind (pacing_run E alive sched CAP_KBPS) (\<lambda>cap.
     ret (if pacing_fails unc cap = [] then 0 else 1)))"

section \<open>\<open>data_plane_fairness.py\<close>\<close>

text \<open>The second component of the result is whether head-of-line blocking is reported.\<close>

definition hol_blocking :: "nat list \<Rightarrow> nat list \<Rightarrow> bool" where
  "hol_blocking base_lat load_lat \<longleftrightarrow> max 200000 (worst base_lat * 10) < worst load_lat"

text \<open>The guest's HTTP server: \<open>/big\<close> is 300 sends of 4 MiB.\<close>

definition FAIRNESS_SRV :: pystr where
  "FAIRNESS_SRV =
     lit ''python3 -c '' @ [34] @ lit ''import socket as k,threading as t;buf=b'' @ [39] @ lit ''X'' @ [39] @
     lit ''*(4*1024*1024);HB=b'' @ [39] @ lit ''HTTP/1.1 200 OK'' @ [92] @ lit ''r'' @ [92] @ lit ''nConnection: close'' @
     [92] @ lit ''r'' @ [92] @ lit ''n'' @ [92] @ lit ''r'' @ [92] @ lit ''n'' @ [39] @ lit '';SM=b'' @ [39] @
     lit ''HTTP/1.1 200 OK'' @ [92] @ lit ''r'' @ [92] @ lit ''nContent-Length: 2'' @ [92] @ lit ''r'' @ [92] @
     lit ''nConnection: close'' @ [92] @ lit ''r'' @ [92] @ lit ''n'' @ [92] @ lit ''r'' @ [92] @ lit ''nok'' @ [39] @
     lit '';big=lambda c:(c.sendall(HB),[c.sendall(buf) for _ in range(300)],c.close());sml=lambda c:(c.sendall(SM),c.close());h=lambda c:(big if b'' @
     [39] @ lit ''/big'' @ [39] @
     lit '' in c.recv(4096) else sml)(c);L=k.socket(k.AF_INET,k.SOCK_STREAM);L.setsockopt(k.SOL_SOCKET,k.SO_REUSEADDR,1);L.bind(('' @
     [39] @ lit ''127.0.0.1'' @ [39] @ lit '',8080));L.listen(32);open('' @ [39] @ lit ''/tmp/up'' @ [39] @ lit '','' @
     [39] @ lit ''w'' @ [39] @ lit '').write('' @ [39] @ lit ''UP'' @ [39] @
     lit '');[t.Thread(target=h,args=(L.accept()[0],),daemon=True).start() for _ in iter(int,1)]'' @ [34] @
     lit '' >/tmp/srv.log 2>&1 &''"

fun small_idle :: "env \<Rightarrow> pystr \<Rightarrow> nat \<Rightarrow> nat list sys" where
  "small_idle E dsk 0 = ret []"
| "small_idle E dsk (Suc n) =
     bind (http E 65536 dsk ''/small'' (seconds 30)) (\<lambda>(_, l).
     seq (sleep E 20000) (bind (small_idle E dsk n) (\<lambda>ls. ret (l # ls))))"

text \<open>The line about the large download divides by its time, \<open>big_done.get("l", 1)\<close>; \<open>took\<close> is what the
  downloading thread has put there, if it came that far.\<close>

definition big_summary :: "(world \<Rightarrow> nat option) \<Rightarrow> unit sys" where
  "big_summary took = bind (get took) (\<lambda>l. if l = Some 0 then raise ZeroDivisionError else ret ())"

definition fairness_measure :: "env \<Rightarrow> (nat \<Rightarrow> world \<Rightarrow> bool) \<Rightarrow> sched \<Rightarrow> (world \<Rightarrow> nat option) \<Rightarrow> pystr \<Rightarrow> bool sys" where
  "fairness_measure E alive sched took base =
     (let dsk = join base (lit ''d.sock'') in
      bind (reach_guest E (join base (lit ''c.sock''))) (\<lambda>s.
      seq (start_server E FAIRNESS_SRV s) (
      seq (http E 65536 dsk ''/small'' (seconds 30)) (
      bind (small_idle E dsk 20) (\<lambda>base_lat.
      seq (sleep E 50000) (
      bind (flood E alive 65536 (seconds 30) dsk 0 60) (\<lambda>load_lat.
      seq (join_thread sched) (
      seq (big_summary took) (
      seq (bye E s) (
      ret (hol_blocking base_lat load_lat)))))))))))"

definition fairness_main :: "env \<Rightarrow> (nat \<Rightarrow> world \<Rightarrow> bool) \<Rightarrow> sched \<Rightarrow> (world \<Rightarrow> nat option) \<Rightarrow> (int \<times> bool) sys" where
  "fairness_main E alive sched took =
     (let WORK = or_default (environ E (lit ''NETHER_WORK'')) (lit ''/tmp/nfair''); base = join WORK (lit ''b'') in
      seq (rmtree E WORK) (
      seq (makedirs E base False) (
      seq (symlink E (NB E @ lit ''/kernels'') (join base (lit ''kernels''))) (
      seq (write_text E (join base (lit ''nether.conf'')) (pacing_conf 0)) (
      bind (with_vm E WORK base (fairness_measure E alive sched took base)) (\<lambda>blocked.
      ret (0, blocked)))))))"

lemma calm_pacing_measure: "calm (pacing_measure E alive sched cap base)"
  unfolding pacing_measure_def small_under_flood_def Let_def
  by (auto intro!: calm_forms calm_calls calm_guest split: prod.splits)

lemma calm_small_idle: "calm (small_idle E dsk n)"
  by (induction n) (auto intro!: calm_forms calm_calls calm_http split: prod.splits)

lemma calm_fairness_measure: "calm (fairness_measure E alive sched took base)"
  unfolding fairness_measure_def big_summary_def Let_def
  by (intro calm_forms calm_calls calm_guest calm_small_idle)

lemma stops_pacing: "stops (pacing_main E alive sched)"
  unfolding pacing_main_def pacing_run_def Let_def
  by (intro stops_forms stops_with_vm calm_pacing_measure)

lemma stops_fairness: "stops (fairness_main E alive sched took)"
  unfolding fairness_main_def Let_def
  by (intro stops_forms stops_with_vm calm_fairness_measure)

section \<open>A run without a sample\<close>

text \<open>When the large download has ended by the time the loop first looks, no small request is measured.  The
  worst time is then 0: the capped run of the pacing proof never counts as starved, and the fairness proof
  never reports head-of-line blocking.\<close>

lemma no_sample_no_verdict:
  assumes "\<And>u. \<not> alive 0 u"
  shows "pacing_measure E alive sched CAP_KBPS base w = Some (Inr out, w') \<Longrightarrow>
      small_max out = Some 0 \<and> ''starved'' \<notin> set (pacing_fails unc out)"
    and "fairness_measure E alive sched took base w \<noteq> Some (Inr True, w')"
proof -
  have f: "flood E alive n to d 0 m u = Some (Inr [], u)" for n to d m u
    using assms by (cases m) (simp_all add: bind_get ret_def)
  then have b: "bind (flood E alive n to d 0 m) g = g []" for n to d m and g :: "nat list \<Rightarrow> 'a sys"
    by (auto simp: bind_def)
  have small: "small_under_flood E alive sched dsk u = Some (r, u') \<Longrightarrow> r = Inr 0" for dsk u r u'
    by (auto simp: small_under_flood_def b seq_def bind_def sleep_def join_thread_def modify_def ret_def worst_def)
  show "small_max out = Some 0 \<and> ''starved'' \<notin> set (pacing_fails unc out)"
    if "pacing_measure E alive sched CAP_KBPS base w = Some (Inr out, w')"
  proof -
    have "small_max out = Some 0"
      using that by (auto simp: pacing_measure_def Let_def CAP_KBPS_def bind_Some_iff seq_Some_iff ret_def dest!: small split: prod.splits)
    then show ?thesis by (simp add: pacing_fails_def Let_def)
  qed
  show "fairness_measure E alive sched took base w \<noteq> Some (Inr True, w')"
    by (auto simp: fairness_measure_def big_summary_def b Let_def bind_Some_iff seq_Some_iff ret_def hol_blocking_def worst_def split: prod.splits)
qed

end
