(* ===== verification/Noting.thy ===== *)
theory Noting
  imports Harness
begin

text \<open>
  How a script keeps track of the VMs it starts.  \<open>noted\<close> is the invariant that the \<open>finally\<close> block needs:
  every VM since the start is in \<open>procs\<close>.  A script that notes a VM as it starts it keeps this whatever
  happens, and ends every VM (\<open>ends\<close>); one that notes a VM only after a helper has talked to it keeps it
  unless it raises (\<open>ends_ok\<close>).
\<close>

section \<open>Scripts that also kill\<close>

text \<open>Every VM since the start is noted, once, except those started in the directories \<open>X\<close>; a script may have
  signalled some of them already.\<close>

definition noted :: "pystr set \<Rightarrow> proc list \<Rightarrow> world \<times> nat list \<Rightarrow> bool" where
  "noted X P s \<longleftrightarrow> (\<exists>Q. procs (fst s) = P @ Q \<and> distinct (snd s) \<and>
     set (snd s) \<subseteq> {length P ..< length P + length Q} \<and>
     (\<forall>i < length Q. p_cwd (Q ! i) \<notin> X \<longrightarrow> length P + i \<in> set (snd s)))"

definition ended :: "proc \<Rightarrow> bool" where
  "ended p \<longleftrightarrow> suffix [SIGTERM, SIGKILL] (p_signals p)"

lemma noted_calm: "calm m \<Longrightarrow> keeps (noted X P) (on_world m)"
proof (rule keepsI)
  fix s r s' assume "calm m" and tr: "noted X P s" and run: "on_world m s = Some (r, s')"
  obtain w ps where s: "s = (w, ps)" by (cases s)
  from run s obtain w' where "m w = Some (r, w')" "s' = (w', ps)" by (auto simp: on_world_def split: option.splits)
  with \<open>calm m\<close> tr s show "noted X P s'" by (simp add: noted_def calmD)
qed

lemma noted_start: "noted X (procs w) (w, [])"
  by (simp add: noted_def)

lemma noted_new:
  assumes "noted X P (w, ps)" and "procs w' = procs w @ [q]"
  shows "noted X P (w', ps @ [length (procs w)])" and "p_cwd q \<in> X \<Longrightarrow> noted X P (w', ps)"
proof -
  obtain Q where Q: "procs w = P @ Q" "distinct ps" "set ps \<subseteq> {length P ..< length P + length Q}"
    "\<forall>i < length Q. p_cwd (Q ! i) \<notin> X \<longrightarrow> length P + i \<in> set ps"
    using assms(1) by (auto simp: noted_def)
  show "noted X P (w', ps @ [length (procs w)])"
    unfolding noted_def using Q assms(2) by (intro exI [of _ "Q @ [q]"]) (auto simp: nth_append less_Suc_eq)
  show "noted X P (w', ps)" if "p_cwd q \<in> X"
    unfolding noted_def using Q assms(2) that by (intro exI [of _ "Q @ [q]"]) (auto simp: nth_append less_Suc_eq)
qed

lemma noted_length: "noted X P (w, ps) \<Longrightarrow> length P \<le> length (procs w)"
  by (auto simp: noted_def)

lemma boot_Some:
  assumes "boot E d l (w, ps) = Some (r, s')"
  obtains e w' where "r = Inl e" "s' = (w', ps)" "procs w' = procs w"
  | w' where "r = Inr (length (procs w))" "s' = (w', ps @ [length (procs w)])" "procs w' = procs w @ [running d]"
proof -
  obtain q w' where q: "launch E d l w = Some (q, w')"
    using assms by (auto simp: boot_def on_world_def bind_def split: option.splits)
  show thesis
    using launch_run [OF q] q assms that
    by (auto simp: boot_def on_world_def bind_def seq_def modify_def ret_def)
qed

lemma noted_boot_bind:
  assumes "\<And>p. length P \<le> p \<Longrightarrow> keeps (noted X P) (f p)"
  shows "keeps (noted X P) (bind (boot E d l) f)"
proof (rule keepsI)
  fix s r s' assume n: "noted X P s" and run: "bind (boot E d l) f s = Some (r, s')"
  obtain w ps where s: "s = (w, ps)" by (cases s)
  consider e where "boot E d l (w, ps) = Some (Inl e, s')"
    | p t where "boot E d l (w, ps) = Some (Inr p, t)" "f p t = Some (r, s')"
    using run s by (auto simp: bind_Some_iff)
  then show "noted X P s'"
  proof cases
    case (1 e)
    then show ?thesis by (rule boot_Some) (use n s in \<open>auto simp: noted_def\<close>)
  next
    case (2 p t)
    from 2(1) have "noted X P t \<and> length P \<le> p"
      by (rule boot_Some) (use n s in \<open>auto intro: noted_new noted_length\<close>)
    with assms 2(2) show ?thesis by (auto dest: keepsD)
  qed
qed

lemma noted_boot: "keeps (noted X P) (boot E d l)"
  using noted_boot_bind [of P X ret E d l] by (simp add: bind_ret_right keeps_ret)

lemma noted_kill: "length P \<le> p \<Longrightarrow> keeps (noted X P) (on_world (send_signal p g))"
proof (rule keepsI)
  fix s r s' assume p: "length P \<le> p" and n: "noted X P s" and run: "on_world (send_signal p g) s = Some (r, s')"
  obtain w ps where s: "s = (w, ps)" by (cases s)
  obtain Q where Q: "procs w = P @ Q" "distinct ps" "set ps \<subseteq> {length P ..< length P + length Q}"
    "\<forall>i < length Q. p_cwd (Q ! i) \<notin> X \<longrightarrow> length P + i \<in> set ps"
    using n s by (auto simp: noted_def)
  let ?Q = "Q[p - length P := add_signal g (Q ! (p - length P))]"
  have c: "p_cwd (?Q ! i) = p_cwd (Q ! i)" for i
    by (cases "p - length P < length Q") (auto simp: nth_list_update add_signal_def list_update_beyond)
  have "procs (fst s') = P @ (if p < length (procs w) then ?Q else Q) \<and> snd s' = ps"
    using run s p Q(1) by (auto simp: on_world_def send_signal_def modify_def list_update_append nth_append add_signal_def)
  then show "noted X P s'" unfolding noted_def
    by (intro exI [of _ "if p < length (procs w) then ?Q else Q"]) (use Q c in auto)
qed

text \<open>The \<open>finally\<close> block signals the noted VMs, each once with each signal, and no other.\<close>

lemma signal_all_run:
  assumes "distinct ps" and "set ps \<subseteq> {..< length (procs w)}"
  shows "\<exists>w'. for_each ps (\<lambda>p. on_world (swallow (send_signal p g))) (w, qs) = Some (Inr (), (w', qs)) \<and>
    procs w' = map (\<lambda>i. if i \<in> set ps then add_signal g (procs w ! i) else procs w ! i) [0 ..< length (procs w)]"
  using assms
proof (induction ps arbitrary: w)
  case Nil
  then show ?case by (simp add: ret_def map_nth)
next
  case (Cons p ps)
  let ?w = "w\<lparr>procs := (procs w)[p := add_signal g (procs w ! p)]\<rparr>"
  have "on_world (swallow (send_signal p g)) (w, qs) = Some (Inr (), (?w, qs))"
    using Cons.prems by (simp add: on_world_def swallow_def try_except_def send_signal_def seq_def bind_def modify_def ret_def
        add_signal_def)
  moreover obtain w' where "for_each ps (\<lambda>p. on_world (swallow (send_signal p g))) (?w, qs) = Some (Inr (), (w', qs))"
    "procs w' = map (\<lambda>i. if i \<in> set ps then add_signal g (procs ?w ! i) else procs ?w ! i) [0 ..< length (procs ?w)]"
    using Cons.IH [of ?w] Cons.prems by auto
  moreover from this(2) have "procs w' =
      map (\<lambda>i. if i \<in> set (p # ps) then add_signal g (procs w ! i) else procs w ! i) [0 ..< length (procs w)]"
    using Cons.prems by (auto simp: nth_list_update)
  ultimately show ?case by (auto simp: seq_ret)
qed

lemma stop_all_procs:
  assumes "distinct ps" and "set ps \<subseteq> {..< length (procs w)}"
  shows "\<exists>w'. stop_all E nap (w, ps) = Some (Inr (), (w', ps)) \<and>
    procs w' = map (\<lambda>i. if i \<in> set ps then add_signal SIGKILL (add_signal SIGTERM (procs w ! i)) else procs w ! i)
      [0 ..< length (procs w)]"
proof -
  obtain w1 where 1: "signal_all SIGTERM (w, ps) = Some (Inr (), (w1, ps))"
    "procs w1 = map (\<lambda>i. if i \<in> set ps then add_signal SIGTERM (procs w ! i) else procs w ! i) [0 ..< length (procs w)]"
    using signal_all_run [OF assms, of SIGTERM ps] by (auto simp: signal_all_def bind_def get_def)
  let ?w2 = "elapse E (nap + oversleep E w1) w1"
  have 2: "on_world (sleep E nap) (w1, ps) = Some (Inr (), (?w2, ps))"
    by (simp add: on_world_def sleep_def modify_def)
  have "procs ?w2 = procs w1" by (simp add: elapse_def Let_def)
  then obtain w3 where 3: "signal_all SIGKILL (?w2, ps) = Some (Inr (), (w3, ps))"
    "procs w3 = map (\<lambda>i. if i \<in> set ps then add_signal SIGKILL (procs w1 ! i) else procs w1 ! i) [0 ..< length (procs w1)]"
    using signal_all_run [of ps ?w2 SIGKILL ps] assms 1(2) by (auto simp: signal_all_def bind_def get_def)
  then have "procs w3 = map (\<lambda>i. if i \<in> set ps then add_signal SIGKILL (add_signal SIGTERM (procs w ! i)) else procs w ! i)
      [0 ..< length (procs w)]" using 1(2) by auto
  then show ?thesis using 1(1) 2 3(1) by (auto simp: stop_all_def seq_def bind_def)
qed

lemma stop_all_noted:
  assumes "noted X P (w, ps)"
  shows "\<exists>w' Q. stop_all E nap (w, ps) = Some (Inr (), (w', ps)) \<and> procs w' = P @ Q \<and> (\<forall>p \<in> set Q. p_cwd p \<notin> X \<longrightarrow> ended p)"
proof -
  let ?f = "\<lambda>p. add_signal SIGKILL (add_signal SIGTERM p)"
  obtain Q where Q: "procs w = P @ Q" "distinct ps" "set ps \<subseteq> {length P ..< length P + length Q}"
    "\<forall>i < length Q. p_cwd (Q ! i) \<notin> X \<longrightarrow> length P + i \<in> set ps"
    using assms by (auto simp: noted_def)
  obtain w' where run: "stop_all E nap (w, ps) = Some (Inr (), (w', ps))"
    "procs w' = map (\<lambda>i. if i \<in> set ps then ?f (procs w ! i) else procs w ! i) [0 ..< length (procs w)]"
    using stop_all_procs [OF Q(2), of w E nap] Q(1,3) by force
  let ?Q = "map (\<lambda>i. if length P + i \<in> set ps then ?f (Q ! i) else Q ! i) [0 ..< length Q]"
  have "procs w' = P @ ?Q" by (rule nth_equalityI) (use run(2) Q(1,3) in \<open>auto simp: nth_append\<close>)
  moreover have "ended p" if "p \<in> set ?Q" "p_cwd p \<notin> X" for p
    using that Q(4) by (auto simp: ended_def add_signal_def suffix_def split: if_splits)
  ultimately show ?thesis using run(1) by blast
qed

text \<open>Every VM started since has been terminated and killed in the end, except those in the directories \<open>X\<close>.\<close>

definition ended_since :: "pystr set \<Rightarrow> proc list \<Rightarrow> proc list \<Rightarrow> bool" where
  "ended_since X P P' \<longleftrightarrow> (\<exists>Q. P' = P @ Q \<and> (\<forall>p \<in> set Q. p_cwd p \<notin> X \<longrightarrow> ended p))"

abbreviation ends :: "'a sys \<Rightarrow> bool" where
  "ends \<equiv> leaves (ended_since {})"

abbreviation ends_ok :: "'a sys \<Rightarrow> bool" where
  "ends_ok \<equiv> leaves_ok (ended_since {})"

interpretation ending: tally "ended_since X"
proof
  show "ended_since X P P" for P unfolding ended_since_def by (intro exI [of _ "[]"]) simp
  show "ended_since X P S" if "ended_since X P Q" "ended_since X Q S" for P Q S
  proof -
    obtain A B where "Q = P @ A" "S = Q @ B" "\<forall>p \<in> set A. p_cwd p \<notin> X \<longrightarrow> ended p" "\<forall>p \<in> set B. p_cwd p \<notin> X \<longrightarrow> ended p"
      using \<open>ended_since X P Q\<close> \<open>ended_since X Q S\<close> unfolding ended_since_def by blast
    then show ?thesis unfolding ended_since_def by (intro exI [of _ "A @ B"]) auto
  qed
qed

lemma with_procs_Some:
  assumes "with_procs E nap body w = Some (r, w')"
  obtains q w1 ps1 b ps where "body (w, []) = Some (q, (w1, ps1))" "stop_all E nap (w1, ps1) = Some (b, (w', ps))"
proof -
  obtain ps where "try_finally body (stop_all E nap) (w, []) = Some (r, (w', ps))"
    using assms by (auto simp: with_procs_def split: option.splits)
  then show thesis by (elim try_finally_runs) (metis prod.exhaust that)
qed

lemma stop_all_ends:
  assumes "noted X (procs w) (w1, ps1)" and "stop_all E nap (w1, ps1) = Some (b, (w', ps))"
  shows "ended_since X (procs w) (procs w')"
  using stop_all_noted [OF assms(1), of E nap] assms(2) unfolding ended_since_def by auto

lemma ends_with_procs: "(\<And>P. keeps (noted X P) body) \<Longrightarrow> leaves (ended_since X) (with_procs E nap body)"
  by (rule leavesI, erule with_procs_Some) (blast intro: stop_all_ends keepsD noted_start)

lemmas ends_forms = ending.forms ends_with_procs

section \<open>Scripts that note a VM late\<close>

text \<open>The same for scripts that note a VM only after a helper has talked to it: what is kept unless the
  script raises.\<close>

definition keeps_ok :: "('s \<Rightarrow> bool) \<Rightarrow> ('s, 'a) io \<Rightarrow> bool" where
  "keeps_ok I m \<longleftrightarrow> (\<forall>s a s'. I s \<longrightarrow> m s = Some (Inr a, s') \<longrightarrow> I s')"

lemma keeps_okD: "keeps_ok I m \<Longrightarrow> I s \<Longrightarrow> m s = Some (Inr a, s') \<Longrightarrow> I s'"
  by (auto simp: keeps_ok_def)

lemma keeps_ok_keeps: "keeps I m \<Longrightarrow> keeps_ok I m"
  by (auto simp: keeps_def keeps_ok_def)

lemma keeps_ok_bind: "keeps_ok I m \<Longrightarrow> (\<And>a. keeps_ok I (f a)) \<Longrightarrow> keeps_ok I (bind m f)"
  unfolding keeps_ok_def bind_Some_iff by blast

lemma keeps_ok_if: "(b \<Longrightarrow> keeps_ok I m) \<Longrightarrow> (\<not> b \<Longrightarrow> keeps_ok I n) \<Longrightarrow> keeps_ok I (if b then m else n)"
  by simp

lemma keeps_ok_prod: "(\<And>a b. keeps_ok I (f a b)) \<Longrightarrow> keeps_ok I (case v of (a, b) \<Rightarrow> f a b)"
  by (cases v) simp

lemma keeps_ok_option: "keeps_ok I m \<Longrightarrow> (\<And>a. keeps_ok I (f a)) \<Longrightarrow> keeps_ok I (case v of None \<Rightarrow> m | Some a \<Rightarrow> f a)"
  by (cases v) auto

text \<open>\<open>x = helper(...); procs.append(x.pid)\<close>\<close>

definition then_note :: "('v \<Rightarrow> nat) \<Rightarrow> 'v sys \<Rightarrow> 'v harness" where
  "then_note pid m = bind (on_world m) (\<lambda>v. seq (modify (\<lambda>(w, ps). (w, ps @ [pid v]))) (ret v))"

text \<open>A helper that starts one VM and, if it returns, says which.\<close>

definition starts_one :: "('v \<Rightarrow> nat) \<Rightarrow> 'v sys \<Rightarrow> bool" where
  "starts_one pid m \<longleftrightarrow> (\<forall>w v w'. m w = Some (Inr v, w') \<longrightarrow>
     pid v = length (procs w) \<and> (\<exists>d. procs w' = procs w @ [running d]))"

lemma noted_then_note:
  assumes "starts_one pid m"
  shows "keeps_ok (noted X P) (then_note pid m)"
  unfolding keeps_ok_def
proof (intro allI impI)
  fix s v s' assume n: "noted X P s" and run: "then_note pid m s = Some (Inr v, s')"
  obtain w ps where s: "s = (w, ps)" by (cases s)
  obtain w' where w': "m w = Some (Inr v, w')" "s' = (w', ps @ [pid v])"
    using run s by (auto simp: then_note_def on_world_def bind_Some_iff seq_Some_iff modify_def ret_def split: option.splits)
  with assms obtain d where "pid v = length (procs w)" "procs w' = procs w @ [running d]" unfolding starts_one_def by blast
  with n s w' show "noted X P s'" by (auto intro: noted_new)
qed

lemma starts_one_launch:
  assumes "calm m" and "\<And>p. calm (f p)" and "\<And>p w v w'. f p w = Some (Inr v, w') \<Longrightarrow> pid v = p"
  shows "starts_one pid (seq m (bind (launch E d l) f))"
  unfolding starts_one_def
proof (intro allI impI)
  fix w v w' assume "seq m (bind (launch E d l) f) w = Some (Inr v, w')"
  then obtain a t p u where r: "m w = Some (Inr a, t)" "launch E d l t = Some (Inr p, u)" "f p u = Some (Inr v, w')"
    by (auto simp: seq_Some_iff bind_Some_iff)
  have "procs t = procs w" "procs w' = procs u" using calmD [OF assms(1) r(1)] calmD [OF assms(2) r(3)] by auto
  then show "pid v = length (procs w) \<and> (\<exists>d. procs w' = procs w @ [running d])"
    using launch_run [OF r(2)] assms(3) [OF r(3)] by auto
qed

lemmas noted_ok_forms = keeps_ok_bind keeps_ok_if keeps_ok_prod keeps_ok_option keeps_ok_keeps [OF keeps_ret]
  keeps_ok_keeps [OF noted_boot] keeps_ok_keeps [OF noted_calm]
  noted_then_note

lemma ends_ok_with_procs:
  assumes "\<And>P. keeps_ok (noted X P) body"
  shows "leaves_ok (ended_since X) (with_procs E nap body)"
proof (rule leaves_okI)
  fix w a w' assume run: "with_procs E nap body w = Some (Inr a, w')"
  then obtain w1 ps1 b ps where b: "body (w, []) = Some (Inr a, (w1, ps1))" "stop_all E nap (w1, ps1) = Some (b, (w', ps))"
    by (auto simp: with_procs_def try_finally_def split: option.splits sum.splits)
  show "ended_since X (procs w) (procs w')"
    by (rule stop_all_ends [OF keeps_okD [OF assms noted_start b(1)] b(2)])
qed

lemmas ends_ok_forms = ending.ok_forms ends_ok_with_procs

end
