(* ===== verification/Live.thy ===== *)
theory Live
  imports Data_Plane Noting
begin

text \<open>
  The live runs of \<open>scripts/proto_v2.py\<close> (every reply of the control protocol is framed) and of
  \<open>scripts/relay_proof.py\<close> (a client that disconnects or stops reading harms nobody else).  The C compiler
  and the reference client it builds are programs the first script runs: how they end is a parameter.
  Failures are named after the check that adds them.
\<close>

section \<open>\<open>proto_v2.py\<close>\<close>

text \<open>\<open>subprocess.run([CTL, sk, *args], timeout=20)\<close>: the time it takes, the files it leaves, and its status
  and output, or why it has none.\<close>

type_synonym client = "pystr list \<Rightarrow> world \<Rightarrow> nat \<times> fs \<times> (exn + int \<times> pystr)"

definition run_ctl :: "client \<Rightarrow> string list \<Rightarrow> (int \<times> pystr) sys" where
  "run_ctl client args w =
     (let (dt, f, r) = client (map lit args) w; w' = w\<lparr>clock := clock w + dt, fs := f\<rparr>
      in case r of Inl e \<Rightarrow> Some (Inl e, w') | Inr (rc, out) \<Rightarrow> Some (Inr (rc, strip out), w'))"

definition run_cc :: "(world \<Rightarrow> nat \<times> fs \<times> int option) \<Rightarrow> int sys" where
  "run_cc cc w =
     (let (dt, f, r) = cc w; w' = w\<lparr>clock := clock w + dt, fs := f\<rparr>
      in case r of None \<Rightarrow> Some (Inl OSError, w') | Some rc \<Rightarrow> Some (Inr rc, w'))"

definition ask :: "env \<Rightarrow> nat \<Rightarrow> pystr \<Rightarrow> (bytes \<times> int option) sys" where
  "ask E s line = on_sock E s (seq (send_line line) (read_framed (seconds 15)))"

text \<open>\<open>next((l.split(b"=")[1] for l in body.split(b"\n") if l.startswith(b"proto_version=")), b"?")\<close>\<close>

definition version_of :: "bytes \<Rightarrow> bytes" where
  "version_of body =
     (case find (prefix (blit ''proto_version='')) (split_all 10 body) of
        None \<Rightarrow> blit ''?''
      | Some l \<Rightarrow> split_all 61 l ! 1)"

definition DELAYED :: pystr where
  "DELAYED = lit ''printf '' @ [39] @ lit ''OK first'' @ [92] @ lit ''n'' @ [39] @ lit ''; sleep 1; printf '' @ [39] @
     lit ''second'' @ [92] @ lit ''nthird'' @ [92] @ lit ''n'' @ [39] @ lit ''; exit 3''"

definition delayed_body :: bytes where
  "delayed_body = blit ''OK first'' @ [10] @ blit ''second'' @ [10] @ blit ''third'' @ [10]"

text \<open>Checks 1 to 4a, on the first connection.\<close>

definition check_frames :: "env \<Rightarrow> nat \<Rightarrow> string list sys" where
  "check_frames E s =
     bind (ask E s (lit ''__info__'')) (\<lambda>(body, ex).
     bind (lift (decode_strict (version_of body))) (\<lambda>_.
     let f1 = (if version_of body \<noteq> blit ''2'' \<or> ex \<noteq> Some 0 then [''__info__ not v2/framed''] else []) in
     seq (retry E 120 (bind (ask E s (lit ''echo ready'')) (\<lambda>(b, e). ret (contains (blit ''ready'') b)))) (
     bind (ask E s (lit ''ls '' @ [0x1e] @ lit '' forged'')) (\<lambda>(b, e).
     let f2 = (if e \<noteq> Some (- 1) \<or> \<not> contains (blit ''control byte'') b then [''control-byte guard not framed''] else []) in
     bind (ask E s (lit ''__nope__'')) (\<lambda>(b, e).
     let f3 = (if e \<noteq> Some (- 1) \<or> \<not> contains (blit ''unknown command'') b then [''unknown verb not framed''] else []) in
     bind (ask E s DELAYED) (\<lambda>(body, ex).
     ret (f1 @ f2 @ f3 @ (if body \<noteq> delayed_body \<or> ex \<noteq> Some 3 then [''delayed reply cut''] else []))))))))"

text \<open>Check 4b: the same reply through the settle reader; what it sees is only printed.\<close>

definition settle_demo :: "env \<Rightarrow> pystr \<Rightarrow> unit sys" where
  "settle_demo E sk =
     bind (uconn E sk (seconds 20)) (\<lambda>s2.
     seq (ask E s2 (lit ''__info__'')) (
     seq (on_sock E s2 (send_line DELAYED)) (
     seq (on_sock E s2 (read_v1_settle 500000 (seconds 12))) (
     seq (on_sock E s2 (read_framed (seconds 15))) (
     seq (sleep E 300000) (
     seq (on_sock E s2 sock_close) (sleep E 300000)))))))"

text \<open>Check 5: the reference client, then the shutdown.\<close>

definition check_client :: "client \<Rightarrow> string list sys" where
  "check_client client =
     bind (run_ctl client [''__info__'']) (\<lambda>(_, a).
     bind (run_ctl client [''echo'', ''hi'']) (\<lambda>(rcb, b).
     bind (run_ctl client [''exit'', ''7'']) (\<lambda>(rcc, _).
     bind (run_ctl client [''__nope__'']) (\<lambda>(rcd, _).
     seq (run_ctl client [''__shutdown__'']) (
     ret ((if contains (lit ''proto_version=2'') a then [] else [''handshake not v2'']) @
          (if rcb \<noteq> 0 \<or> b \<noteq> lit ''hi'' then [''echo failed''] else []) @
          (if rcc \<noteq> 7 then [''exit 7 not propagated''] else []) @
          (if rcd \<noteq> 1 then [''control error not rc 1''] else [])))))))"

definition proto_body :: "env \<Rightarrow> client \<Rightarrow> pystr \<Rightarrow> string list sys" where
  "proto_body E client sk =
     bind time_time (\<lambda>t0.
     seq (wait_path E sk t0 (seconds 40) 100000) (
     bind (uconn E sk (seconds 20)) (\<lambda>s.
     bind (check_frames E s) (\<lambda>f.
     seq (on_sock E s sock_close) (
     seq (sleep E 300000) (
     seq (settle_demo E sk) (
     bind (check_client client) (\<lambda>g. ret (f @ g)))))))))"

definition proto_main :: "env \<Rightarrow> (world \<Rightarrow> nat \<times> fs \<times> int option) \<Rightarrow> client \<Rightarrow> int sys" where
  "proto_main E cc client =
     (let WORK = or_default (environ E (lit ''NETHER_WORK'')) (lit ''/tmp/nv2'') in
      seq (rmtree E WORK) (
      seq (makedirs E WORK False) (
      bind (run_cc cc) (\<lambda>rc.
      if rc \<noteq> 0 then ret 1
      else
        seq (symlink E (NB E @ lit ''/kernels'') (join WORK (lit ''kernels''))) (
        seq (write_text E (join WORK (lit ''nether.conf''))
               (lit ''control_socket=c.sock'' @ [10] @ lit ''ram_mb=512'' @ [10] @ lit ''cpus=1'' @ [10])) (
        bind (with_vm E WORK WORK (proto_body E client (join WORK (lit ''c.sock'')))) (\<lambda>fails.
        ret (if fails = [] then 0 else 1))))))))"

lemma calm_run_ctl: "calm (run_ctl client args)"
  by (auto simp: calm_def keeps_def run_ctl_def Let_def split: prod.splits sum.splits)

lemma calm_run_cc: "calm (run_cc cc)"
  by (auto simp: calm_def keeps_def run_cc_def Let_def split: prod.splits option.splits)

lemma calm_ask: "calm (ask E s line)"
  unfolding ask_def by (rule calm_on_sock)

lemma calm_check_frames: "calm (check_frames E s)"
  unfolding check_frames_def Let_def by (auto intro!: calm_forms calm_ask calm_retry split: prod.splits)

lemma calm_check_client: "calm (check_client client)"
  unfolding check_client_def by (auto intro!: calm_forms calm_run_ctl split: prod.splits)

lemma calm_proto_body: "calm (proto_body E client sk)"
  unfolding proto_body_def settle_demo_def
  by (intro calm_forms calm_calls calm_wait_path calm_uconn calm_check_frames calm_ask calm_check_client)

lemma stops_proto: "stops (proto_main E cc client)"
  unfolding proto_main_def Let_def
  by (intro stops_forms stops_with_vm calm_proto_body stopping.t_calm [OF calm_run_cc])

section \<open>\<open>relay_proof.py\<close>\<close>

definition relay_meta :: "pystr \<Rightarrow> nat \<Rightarrow> (sock, pystr) io" where
  "relay_meta line to =
     seq (settimeout to) (
     seq (send_line line) (
     bind (iterate (read_body (recv 256) (\<lambda>b. 10 \<in> set b) (\<lambda>b. ret (Inr b)) id) []) (\<lambda>b.
     ret (strip (decode b)))))"

definition relay_ask :: "env \<Rightarrow> nat \<Rightarrow> pystr \<Rightarrow> nat \<Rightarrow> (bytes \<times> relay_exit) sys" where
  "relay_ask E s line to = on_sock E s (seq (send_line line) (relay_framed to))"

definition relay_cat :: "env \<Rightarrow> nat \<Rightarrow> pystr \<Rightarrow> pystr sys" where
  "relay_cat E s path =
     bind (relay_ask E s (lit ''cat '' @ path @ lit '' 2>/dev/null; echo'') (seconds 5)) (\<lambda>(b, e). ret (strip (decode b)))"

definition curl :: "env \<Rightarrow> pystr \<Rightarrow> nat \<Rightarrow> (bool \<times> nat) sys" where
  "curl E dsock to =
     bind time_time (\<lambda>t.
     bind (uconn E dsock to) (\<lambda>d.
     seq (on_sock E d (sendall http_get)) (
     bind (on_sock E d (drain 1024)) (\<lambda>r.
     seq (on_sock E d sock_close) (
     bind time_time (\<lambda>t'. ret (contains (blit ''200 OK'') r, t' - t)))))))"

text \<open>\<open>boot\<close>: the VM is started here, but only the caller notes it in \<open>procs\<close>.\<close>

definition relay_conf :: "pystr \<Rightarrow> pystr" where
  "relay_conf extra =
     lit ''control_socket=c.sock'' @ [10] @ lit ''data_socket=d.sock'' @ [10] @ lit ''app_port=8080'' @ [10] @
     lit ''ram_mb=512'' @ [10] @ lit ''cpus=1'' @ [10] @ extra"

definition relay_reach :: "env \<Rightarrow> pystr \<Rightarrow> nat sys" where
  "relay_reach E csk =
     bind time_time (\<lambda>t0.
     seq (wait_path E csk t0 (seconds 40) 100000) (
     bind (uconn E csk (seconds 15)) (\<lambda>s.
     seq (retry E 120 (bind (relay_ask E s (lit ''echo ready'') (seconds 5)) (\<lambda>(b, e). ret (contains (blit ''ready'') b)))) (
     ret s))))"

definition relay_boot :: "env \<Rightarrow> pystr \<Rightarrow> string \<Rightarrow> pystr \<Rightarrow> (nat \<times> pystr \<times> pystr \<times> nat) sys" where
  "relay_boot E WORK name extra =
     (let d = join WORK (lit name); csk = join d (lit ''c.sock'') in
      seq (makedirs E d False) (
      seq (symlink E (NB E @ lit ''/kernels'') (join d (lit ''kernels''))) (
      seq (write_text E (join d (lit ''nether.conf'')) (relay_conf extra)) (
      bind (launch E d (lit ''boot.log'')) (\<lambda>p.
      bind (relay_reach E csk) (\<lambda>s.
      ret (p, csk, join d (lit ''d.sock''), s)))))))"

text \<open>Part 1: a primary that disconnects in the middle of a command.\<close>

definition check_disconnect :: "env \<Rightarrow> pystr \<Rightarrow> nat \<Rightarrow> string list sys" where
  "check_disconnect E csk s =
     seq (on_sock E s (send_line (lit ''for i in 1 2 3 4 5 6; do echo OLD-$i; sleep 0.3; done; echo OLD-END''))) (
     seq (sleep E 500000) (
     seq (on_sock E s (recv 4096)) (
     seq (on_sock E s sock_close) (
     seq (sleep E 200000) (
     bind (uconn E csk (seconds 15)) (\<lambda>B.
     seq (relay_ask E B (lit ''__info__'') (seconds 8)) (
     bind (relay_ask E B (lit ''echo NEWCMD'') (seconds 10)) (\<lambda>(body, ex).
     seq (on_sock E B sock_close) (
     seq (swallow (bind (uconn E csk (seconds 5)) (\<lambda>t. on_sock E t (relay_meta (lit ''__shutdown__'') (seconds 5))))) (
     seq (sleep E 500000) (
     ret (if body \<noteq> blit ''NEWCMD'' @ [10] \<or> ex \<noteq> Exit 0 \<or> contains (blit ''OLD'') body
          then [''relay leak''] else []))))))))))))"

text \<open>\<open>while time.time() - t0 < 3.0\<close>: one request after the other; a failed one counts as 6 seconds.\<close>

definition curl_loop :: "env \<Rightarrow> pystr \<Rightarrow> nat \<Rightarrow> nat list sys" where
  "curl_loop E dsk t0 =
     iterate (\<lambda>lats.
       bind time_time (\<lambda>t.
       if \<not> t - t0 < seconds 3 then ret (Inr lats)
       else
         bind (try_except (bind (curl E dsk (seconds 6)) (\<lambda>(_, l). ret l)) is_Exception (\<lambda>_. ret (seconds 6))) (\<lambda>l.
         seq (sleep E 100000) (ret (Inl (lats @ [l])))))) []"

text \<open>Part 3: a client that floods and stops reading.\<close>

text \<open>The guest's HTTP server, which answers every request with two bytes.\<close>

definition RELAY_SRV :: pystr where
  "RELAY_SRV =
     lit ''python3 -c '' @ [34] @
     lit ''import socket as k,threading as t;L=k.socket(k.AF_INET,k.SOCK_STREAM);L.setsockopt(k.SOL_SOCKET,k.SO_REUSEADDR,1);L.bind(('' @
     [39] @ lit ''127.0.0.1'' @ [39] @ lit '',8080));L.listen(16);open('' @ [39] @ lit ''/tmp/up'' @ [39] @ lit '','' @
     [39] @ lit ''w'' @ [39] @ lit '').write('' @ [39] @ lit ''UP'' @ [39] @
     lit '');h=lambda c:(c.recv(4096),c.sendall(b'' @ [39] @ lit ''HTTP/1.1 200 OK'' @ [92] @ lit ''r'' @ [92] @
     lit ''nContent-Length: 2'' @ [92] @ lit ''r'' @ [92] @ lit ''n'' @ [92] @ lit ''r'' @ [92] @ lit ''nOK'' @ [39] @
     lit ''),c.close());[t.Thread(target=h,args=(L.accept()[0],),daemon=True).start() for _ in iter(int,1)]'' @ [34] @
     lit '' >/tmp/s.log 2>&1 &''"

definition check_wedge :: "env \<Rightarrow> pystr \<Rightarrow> pystr \<Rightarrow> nat \<Rightarrow> string list sys" where
  "check_wedge E csk dsk s =
     seq (relay_ask E s RELAY_SRV (seconds 5)) (
     seq (any_of E 40 (bind (relay_cat E s (lit ''/tmp/up'')) (\<lambda>r. ret (contains (lit ''UP'') r)))) (
     seq (curl E dsk (seconds 6)) (
     seq (on_sock E s sock_close) (
     seq (sleep E 300000) (
     bind (uconn E csk (seconds 15)) (\<lambda>A.
     seq (relay_ask E A (lit ''__info__'') (seconds 8)) (
     seq (on_sock E A (send_line (lit ''head -c 800000 /dev/zero''))) (
     seq (sleep E 200000) (
     bind time_time (\<lambda>t0.
     bind (curl_loop E dsk t0) (\<lambda>lats.
     if lats = [] then raise ValueError
     else
       seq (swallow (on_sock E A sock_close)) (
       seq (sleep E 300000) (
       bind (uconn E csk (seconds 15)) (\<lambda>C.
       seq (relay_ask E C (lit ''__info__'') (seconds 8)) (
       bind (relay_ask E C (lit ''echo AFTER'') (seconds 8)) (\<lambda>(ab, ae).
       ret ((if 500000 \<le> worst lats then [''vCPU stalled''] else []) @
            (if ab \<noteq> blit ''AFTER'' @ [10] then [''flooder not dropped''] else []))))))))))))))))))"

definition relay_body :: "env \<Rightarrow> pystr \<Rightarrow> string list harness" where
  "relay_body E WORK =
     bind (then_note fst (relay_boot E WORK ''v1'' [])) (\<lambda>(p, csk, dsk, s).
     bind (on_world (check_disconnect E csk s)) (\<lambda>f1.
     bind (then_note fst (relay_boot E WORK ''v3'' (lit ''max_output_bytes=0'' @ [10]))) (\<lambda>(p3, csk3, dsk3, s3).
     bind (on_world (check_wedge E csk3 dsk3 s3)) (\<lambda>f3. ret (f1 @ f3)))))"

definition relay_main :: "env \<Rightarrow> int sys" where
  "relay_main E =
     (let WORK = or_default (environ E (lit ''NETHER_WORK'')) (lit ''/tmp/nrelay'') in
      seq (rmtree E WORK) (
      seq (makedirs E WORK False) (
      bind (try_finally (with_procs E 500000 (relay_body E WORK)) (rmtree E WORK)) (\<lambda>fails.
      ret (if fails = [] then 0 else 1)))))"

section \<open>Properties\<close>

lemma stop_all_none: "\<exists>w'. stop_all E nap (w, []) = Some (Inr (), (w', [])) \<and> procs w' = procs w"
  by (simp add: stop_all_def signal_all_def bind_def get_def seq_def ret_def on_world_def sleep_def modify_def elapse_def Let_def)

lemma with_procs_unnoted:
  assumes "body (w, []) = Some (Inl e, (w1, []))"
  shows "\<exists>w'. with_procs E nap body w = Some (Inl e, w') \<and> procs w' = procs w1"
  using stop_all_none [of E nap w1] assms by (auto simp: with_procs_def try_finally_def)

lemma wait_path_returns:
  assumes "0 < nap"
  shows "\<exists>w'. wait_path E p t0 timeout nap w = Some (Inr (), w') \<and> procs w' = procs w"
proof -
  let ?probe = "bind (path_exists E p) (\<lambda>x. ret (if x then Some () else None))"
  have "settles (\<lambda>_. True) quiet ?probe" by (simp add: settles_def quiet_def bind_path_exists ret_def)
  from settlesD [OF settles_poll [OF this assms]]
  obtain r w' where r: "poll E t0 timeout nap ?probe w = Some (r, w')" "procs w' = procs w"
    unfolding quiet_def by blast
  have "\<exists>a. r = Inr a"
    by (rule iterate_inv [OF r(1) [unfolded poll_def], where I = "\<lambda>_ _. True" and Q = "\<lambda>r _. \<exists>a. r = Inr a"])
       (auto simp: poll_body_def path_exists_def time_time_def sleep_def bind_def seq_def get_def ret_def modify_def split: if_splits)
  with r show ?thesis by (auto simp: wait_path_def seq_def bind_def ret_def)
qed

lemma relay_unreachable:
  assumes "\<And>w p. snd (dial E w p) = None"
  shows "\<exists>w'. relay_reach E csk w = Some (Inl OSError, w') \<and> procs w' = procs w"
proof -
  obtain w1 where p: "wait_path E csk (clock w) (seconds 40) 100000 w = Some (Inr (), w1)" "procs w1 = procs w"
    using wait_path_returns [of 100000] by fastforce
  have "\<exists>w2. uconn E csk to w1 = Some (Inl OSError, w2) \<and> procs w2 = procs w1" for to
    using assms [of w1 csk] by (cases "dial E w1 csk") (auto simp: uconn_def connect_def elapse_def Let_def)
  then obtain w2 where u: "uconn E csk (seconds 15) w1 = Some (Inl OSError, w2)" "procs w2 = procs w1" by blast
  have "relay_reach E csk w = Some (Inl OSError, w2)"
    unfolding relay_reach_def time_time_def bind_get using p(1) u(1) by (simp add: seq_ret bind_raise)
  then show ?thesis using p(2) u(2) by simp
qed

text \<open>
  C31: \<open>relay_proof.py\<close> notes a VM only after \<open>boot\<close> has talked to it: when the VM starts but
  its control socket cannot be reached, the script ends with that error and leaves the VM running,
  with neither \<open>terminate()\<close> nor \<open>kill()\<close> called on it, while the directory it runs in is removed.
\<close>

theorem relay_boot_leaks:
  assumes "makedirs E (join WORK (lit ''v1'')) False w = Some (Inr (), w1)"
    and "symlink E (NB E @ lit ''/kernels'') (join (join WORK (lit ''v1'')) (lit ''kernels'')) w1 = Some (Inr (), w2)"
    and "write_text E (join (join WORK (lit ''v1'')) (lit ''nether.conf'')) (relay_conf []) w2 = Some (Inr (), w3)"
    and "launch E (join WORK (lit ''v1'')) (lit ''boot.log'') w3 = Some (Inr p, w4)"
    and "\<And>w p. snd (dial E w p) = None"
  shows "\<exists>w'. with_procs E nap (relay_body E WORK) w = Some (Inl OSError, w') \<and>
    procs w' = procs w @ [running (join WORK (lit ''v1''))]"
proof -
  obtain w5 where r: "relay_reach E (join (join WORK (lit ''v1'')) (lit ''c.sock'')) w4 = Some (Inl OSError, w5)" "procs w5 = procs w4"
    using relay_unreachable [OF assms(5)] by blast
  have "procs w3 = procs w"
    using calmD [OF calm_quiet [OF quiet_makedirs] assms(1)] calmD [OF calm_quiet [OF quiet_symlink] assms(2)]
      calmD [OF calm_quiet [OF quiet_write_text] assms(3)] by simp
  then have "procs w5 = procs w @ [running (join WORK (lit ''v1''))]"
    using launch_run [OF assms(4)] r(2) by simp
  moreover have "relay_boot E WORK ''v1'' [] w = Some (Inl OSError, w5)"
    using assms(1-4) r(1) by (simp add: relay_boot_def Let_def seq_ret bind_ret bind_raise)
  then have "relay_body E WORK (w, []) = Some (Inl OSError, (w5, []))"
    by (simp add: relay_body_def then_note_def on_world_def bind_def)
  ultimately show ?thesis using with_procs_unnoted [of "relay_body E WORK" w OSError w5 E nap] by auto
qed

end
