(* ===== verification/Forks.thy ===== *)
theory Forks
  imports Live
begin

text \<open>
  The proofs about snapshots and forks of one base: \<open>scripts/fork_entropy_proof.py\<close> and
  \<open>scripts/vmgenid_proof.py\<close> (two forks must not draw the same random numbers) and
  \<open>scripts/snapshot_quiesce_proof.py\<close> (a busy guest is not snapshotted).  \<open>Popen.wait\<close> is a parameter: for a
  process, how long it takes and the exit status, if it has one in time.  Failures are named after the
  check that adds them.
\<close>

section \<open>Waiting for a process\<close>

type_synonym reaper = "world \<Rightarrow> nat \<Rightarrow> nat \<times> int option"

definition wait_exit :: "env \<Rightarrow> reaper \<Rightarrow> nat \<Rightarrow> int sys" where
  "wait_exit E reaper p w =
     (let (dt, rc) = reaper w p; w' = elapse E dt w in
      case rc of None \<Rightarrow> Some (Inl TimeoutExpired, w') | Some c \<Rightarrow> Some (Inr c, w'))"

text \<open>\<open>try: p.wait(timeout=...)  except subprocess.TimeoutExpired: p.kill(); <failed>\<close>\<close>

definition exits_or_kill :: "env \<Rightarrow> reaper \<Rightarrow> nat \<Rightarrow> bool sys" where
  "exits_or_kill E reaper p =
     try_except (seq (wait_exit E reaper p) (ret True)) (\<lambda>e. e = TimeoutExpired)
       (\<lambda>_. seq (send_signal p SIGKILL) (ret False))"

lemma calm_wait_exit: "calm (wait_exit E reaper p)"
  by (auto simp: calm_def keeps_def wait_exit_def elapse_def Let_def split: prod.splits option.splits)

lemma on_world_try: "on_world (try_except m p h) = try_except (on_world m) p (\<lambda>e. on_world (h e))"
  by (rule ext) (auto simp: on_world_def try_except_def split: option.splits sum.splits prod.splits)

lemma on_world_seq: "on_world (seq m n) = seq (on_world m) (on_world n)"
  by (rule ext) (auto simp: on_world_def seq_def bind_def split: option.splits sum.splits prod.splits)

lemma noted_exits_or_kill: "length P \<le> p \<Longrightarrow> keeps (noted X P) (on_world (exits_or_kill E reaper p))"
  unfolding exits_or_kill_def on_world_try on_world_seq
  by (intro keeps_try keeps_seq noted_kill noted_calm calm_wait_exit calm_forms)

text \<open>A log as text.\<close>

definition read_log :: "env \<Rightarrow> pystr \<Rightarrow> pystr sys" where
  "read_log E p = bind (read_file E p) (\<lambda>b. lift (decode_strict b))"

section \<open>\<open>fork_entropy_proof.py\<close>\<close>

definition RESEED_LINE :: pystr where
  "RESEED_LINE = lit ''[nether] fork crng reseeded (64B via agent)''"

definition READ16 :: pystr where
  "READ16 = lit ''head -c16 /dev/urandom | od -An -tx1 | tr -d '' @ [39, 32, 92, 110, 39]"

definition entropy_cmd :: "env \<Rightarrow> nat \<Rightarrow> pystr \<Rightarrow> nat \<Rightarrow> (pystr \<times> int option) sys" where
  "entropy_cmd E s line to =
     on_sock E s (seq (send_line line) (bind (framed to) (\<lambda>(b, e). ret (decode b, e))))"

text \<open>\<open>bake_base\<close>: its failures and the path of the base.\<close>

definition entropy_ready :: "env \<Rightarrow> nat \<Rightarrow> bool sys" where
  "entropy_ready E s =
     try_except (bind (entropy_cmd E s (lit ''echo ready'') (seconds 5)) (\<lambda>(r, e). ret (contains (lit ''ready'') r)))
       is_Exception (\<lambda>_. ret False)"

definition entropy_freeze :: "env \<Rightarrow> pystr \<Rightarrow> string list sys" where
  "entropy_freeze E sk =
     bind time_time (\<lambda>t0.
     seq (wait_path E sk t0 (seconds 40) 100000) (
     bind (uconn E sk (seconds 30)) (\<lambda>s.
     seq (retry E 120 (entropy_ready E s)) (
     bind (entropy_cmd E s (lit ''__snapshot__ base.snap'') (seconds 60)) (\<lambda>(r, e).
     seq (entropy_cmd E s (lit ''__shutdown__'') (seconds 10)) (
     ret (if prefix (lit ''OK'') r then [] else [''snapshot failed''])))))))"

definition entropy_base :: "env \<Rightarrow> reaper \<Rightarrow> pystr \<Rightarrow> string \<Rightarrow> pystr \<Rightarrow> (string list \<times> pystr) harness" where
  "entropy_base E reaper WORK tag kernels =
     (let d = join WORK (lit tag) in
      seq (on_world (makedirs E d False)) (
      seq (on_world (symlink E kernels (join d (lit ''kernels'')))) (
      seq (on_world (write_text E (join d (lit ''nether.conf''))
             (lit ''control_socket=c.sock'' @ [10] @ lit ''ram_mb=512'' @ [10] @ lit ''cpus=2'' @ [10]))) (
      bind (boot E d (lit ''boot.log'')) (\<lambda>p.
      bind (on_world (entropy_freeze E (join d (lit ''c.sock'')))) (\<lambda>f.
      bind (on_world (exits_or_kill E reaper p)) (\<lambda>ok.
      ret (f @ (if ok then [] else [''base did not exit'']), join d (lit ''base.snap'')))))))))"

text \<open>\<open>fork\<close>: the directory, and the control socket when a client is to be attached.\<close>

definition entropy_fork :: "env \<Rightarrow> pystr \<Rightarrow> string \<Rightarrow> pystr \<Rightarrow> pystr \<Rightarrow> bool \<Rightarrow> (nat option \<times> pystr) harness" where
  "entropy_fork E WORK tag base_snap extra attach =
     (let d = join WORK (lit tag); sk = join d (lit ''c.sock'') in
      seq (on_world (makedirs E d False)) (
      seq (on_world (write_text E (join d (lit ''nether.conf''))
             (lit ''restore=1'' @ [10] @ lit ''restore_from='' @ base_snap @ [10] @ lit ''control_socket=c.sock'' @ [10] @ extra))) (
      bind (on_world time_time) (\<lambda>t0.
      bind (boot E d (lit ''fork.log'')) (\<lambda>p.
      seq (on_world (wait_path E sk t0 (seconds 30) 20000)) (
      if attach then bind (on_world (uconn E sk (seconds 30))) (\<lambda>s. ret (Some s, d)) else ret (None, d)))))))"

definition entropy_bye :: "env \<Rightarrow> nat \<Rightarrow> unit sys" where
  "entropy_bye E s = swallow (entropy_cmd E s (lit ''__shutdown__'') (seconds 5))"

text \<open>The first read of two siblings, and what their logs say.\<close>

definition first_reads :: "env \<Rightarrow> nat \<Rightarrow> nat \<Rightarrow> ((pystr \<times> int option) \<times> (pystr \<times> int option)) sys" where
  "first_reads E s1 s2 =
     bind (entropy_cmd E s1 READ16 (seconds 60)) (\<lambda>(r1, e1).
     bind (entropy_cmd E s2 READ16 (seconds 60)) (\<lambda>(r2, e2).
     ret ((strip r1, e1), (strip r2, e2))))"

definition reads_verdict :: "bool \<Rightarrow> pystr \<times> int option \<Rightarrow> pystr \<times> int option \<Rightarrow> string list" where
  "reads_verdict reseed a b =
     (if snd a \<noteq> Some 0 \<or> snd b \<noteq> Some 0 \<or> length (fst a) \<noteq> 32 then [''read failed'']
      else if reseed then (if fst a = fst b then [''identical with reseed on''] else [])
      else (if fst a \<noteq> fst b then [''flaw not reproduced''] else []))"

definition sibling_checks :: "env \<Rightarrow> bool \<Rightarrow> nat \<Rightarrow> pystr \<Rightarrow> nat \<Rightarrow> pystr \<Rightarrow> string list sys" where
  "sibling_checks E reseed s1 d1 s2 d2 =
     bind (first_reads E s1 s2) (\<lambda>(a, b).
     bind (read_log E (join d1 (lit ''fork.log''))) (\<lambda>l1.
     bind (read_log E (join d2 (lit ''fork.log''))) (\<lambda>l2.
     seq (entropy_bye E s1) (
     seq (entropy_bye E s2) (
     ret (reads_verdict reseed a b @
          (if contains RESEED_LINE l1 = reseed then [] else [''reseed line'']) @
          (if contains RESEED_LINE l2 = reseed then [] else [''reseed line''])))))))"

definition siblings :: "env \<Rightarrow> pystr \<Rightarrow> string \<Rightarrow> string \<Rightarrow> pystr \<Rightarrow> bool \<Rightarrow> string list harness" where
  "siblings E WORK t1 t2 base_snap reseed =
     (let extra = (if reseed then [] else lit ''fork_reseed=0'' @ [10]) in
      bind (entropy_fork E WORK t1 base_snap extra True) (\<lambda>(o1, d1).
      bind (entropy_fork E WORK t2 base_snap extra True) (\<lambda>(o2, d2).
      case (o1, o2) of
        (Some s1, Some s2) \<Rightarrow> on_world (sibling_checks E reseed s1 d1 s2 d2)
      | _ \<Rightarrow> raise AttributeError)))"

text \<open>An image whose agent does not know \<open>__reseed__\<close>: the kernels directory with the old initramfs.\<close>

definition list_dir :: "env \<Rightarrow> pystr \<Rightarrow> pystr list sys" where
  "list_dir E p w =
     (case resolve 41 (fs w) (full E p) of
        None \<Rightarrow> Some (Inl OSError, w)
      | Some q \<Rightarrow>
          (case node_at (fs w) q of
             Some (Dir _) \<Rightarrow>
               Some (Inr (map (basename \<circ> fst) (filter (\<lambda>(k, _). basename k \<noteq> [] \<and> k = join q (basename k)) (fs w))), w)
           | _ \<Rightarrow> Some (Inl OSError, w)))"

definition old_initramfs :: "env \<Rightarrow> pystr" where
  "old_initramfs E = NB E @ lit ''/kernels/initramfs.cpio.gz.bak''"

definition old_kernels :: "env \<Rightarrow> pystr \<Rightarrow> unit sys" where
  "old_kernels E oldk =
     (let src = NB E @ lit ''/kernels'' in
      seq (makedirs E oldk False) (
      bind (list_dir E src) (\<lambda>names.
      seq (for_each names (\<lambda>f.
             when_io (f \<noteq> lit ''initramfs.cpio.gz'' \<and> f \<noteq> lit ''rootfs'') (symlink E (join src f) (join oldk f)))) (
      symlink E (old_initramfs E) (join oldk (lit ''initramfs.cpio.gz''))))))"

definition early_attach :: "env \<Rightarrow> nat \<Rightarrow> pystr \<Rightarrow> string list sys" where
  "early_attach E s d =
     bind (entropy_cmd E s (lit ''echo sync-check'') (seconds 20)) (\<lambda>(r, e).
     bind (if contains (lit ''sync-check'') r \<and> e = Some 0 then ret []
           else if contains (lit ''not found'') r \<or> e = Some 127 then
             bind (on_sock E s (framed (seconds 20))) (\<lambda>(b, e).
             ret (if contains (lit ''sync-check'') (decode b) \<and> e = Some 0 then [] else [''did not recover'']))
           else ret [''unexpected first frame'']) (\<lambda>f.
     bind (read_log E (join d (lit ''fork.log''))) (\<lambda>l.
     seq (entropy_bye E s) (
     ret (f @ (if contains RESEED_LINE l then [] else [''no reseed send reported'']))))))"

definition late_attach :: "env \<Rightarrow> pystr \<Rightarrow> string list sys" where
  "late_attach E d =
     seq (sleep E (seconds 2)) (
     bind (uconn E (join d (lit ''c.sock'')) (seconds 30)) (\<lambda>s.
     bind (entropy_cmd E s (lit ''echo sync-check'') (seconds 20)) (\<lambda>(r, e).
     bind (entropy_cmd E s (lit ''echo second'') (seconds 20)) (\<lambda>(r2, e2).
     seq (entropy_bye E s) (
     ret (if contains (lit ''sync-check'') r \<and> e = Some 0 \<and> contains (lit ''second'') r2 \<and> e2 = Some 0
          then [] else [''late attach framing corrupt'']))))))"

definition old_image :: "env \<Rightarrow> reaper \<Rightarrow> pystr \<Rightarrow> string list harness" where
  "old_image E reaper WORK =
     (let oldk = join WORK (lit ''oldk'') in
      seq (on_world (old_kernels E oldk)) (
      bind (entropy_base E reaper WORK ''ob'' oldk) (\<lambda>(f, obase).
      bind (entropy_fork E WORK ''o1'' obase [] True) (\<lambda>(o1, d1).
      bind (case o1 of Some s1 \<Rightarrow> on_world (early_attach E s1 d1) | None \<Rightarrow> raise AttributeError) (\<lambda>g.
      bind (entropy_fork E WORK ''o2'' obase [] False) (\<lambda>(o2, d2).
      bind (on_world (late_attach E d2)) (\<lambda>h. ret (f @ g @ h))))))))"

definition entropy_body :: "env \<Rightarrow> reaper \<Rightarrow> pystr \<Rightarrow> string list harness" where
  "entropy_body E reaper WORK =
     bind (entropy_base E reaper WORK ''b'' (NB E @ lit ''/kernels'')) (\<lambda>(f0, base).
     if f0 \<noteq> [] then ret f0
     else
       bind (siblings E WORK ''v1'' ''v2'' base False) (\<lambda>f1.
       bind (siblings E WORK ''f1'' ''f2'' base True) (\<lambda>f2.
       bind (on_world (path_exists E (old_initramfs E))) (\<lambda>x.
       bind (if x then old_image E reaper WORK else ret []) (\<lambda>f3.
       ret (f1 @ f2 @ f3))))))"

definition entropy_main :: "env \<Rightarrow> reaper \<Rightarrow> int sys" where
  "entropy_main E reaper =
     bind (path_exists E (BIN E)) (\<lambda>b.
     if \<not> b then ret 1
     else
       let WORK = or_default (environ E (lit ''NETHER_WORK'')) (lit ''/tmp/nfe'') in
       seq (rmtree E WORK) (
       seq (makedirs E WORK False) (
       bind (with_procs E 400000 (entropy_body E reaper WORK)) (\<lambda>fails.
       ret (if fails = [] then 0 else 1)))))"

lemma calm_entropy_cmd: "calm (entropy_cmd E s line to)"
  unfolding entropy_cmd_def by (rule calm_on_sock)

lemma calm_read_log: "calm (read_log E p)"
  unfolding read_log_def by (intro calm_forms calm_calls)

lemma calm_prod: "(\<And>a b. calm (f a b)) \<Longrightarrow> calm (case v of (a, b) \<Rightarrow> f a b)"
  by (cases v) simp

lemma calm_when: "calm m \<Longrightarrow> calm (when_io b m)"
  by (simp add: when_io_def calm_forms)

lemma calm_list_dir: "calm (list_dir E p)"
  by (auto simp: calm_def keeps_def list_dir_def split: option.splits node.splits)

lemmas calm_entropy = calm_forms calm_prod calm_when calm_calls calm_entropy_cmd calm_read_log calm_list_dir calm_wait_path calm_uconn

lemma calm_entropy_freeze: "calm (entropy_freeze E sk)"
  unfolding entropy_freeze_def entropy_ready_def by (intro calm_entropy calm_retry)

lemma calm_sibling_checks: "calm (sibling_checks E reseed s1 d1 s2 d2)"
  unfolding sibling_checks_def first_reads_def entropy_bye_def by (intro calm_entropy)

lemma calm_attach: "calm (early_attach E s d)" "calm (late_attach E d)"
  unfolding early_attach_def late_attach_def entropy_bye_def by (intro calm_entropy)+

lemma calm_old_kernels: "calm (old_kernels E oldk)"
  unfolding old_kernels_def Let_def by (intro calm_entropy)

lemma noted_entropy_base: "keeps (noted X P) (entropy_base E reaper WORK tag kernels)"
  unfolding entropy_base_def Let_def
  by (intro keeps_seq noted_boot_bind keeps_bind noted_exits_or_kill noted_calm calm_entropy calm_entropy_freeze keeps_ret)

lemma noted_entropy_fork: "keeps (noted X P) (entropy_fork E WORK tag base_snap extra attach)"
  unfolding entropy_fork_def Let_def
  by (intro keeps_seq noted_boot_bind keeps_bind keeps_if noted_calm calm_entropy keeps_ret)

lemma noted_siblings: "keeps (noted X P) (siblings E WORK t1 t2 base_snap reseed)"
  unfolding siblings_def Let_def
  by (auto intro!: keeps_bind keeps_raise noted_calm noted_entropy_fork calm_sibling_checks split: option.splits)

lemma noted_old_image: "keeps (noted X P) (old_image E reaper WORK)"
  unfolding old_image_def Let_def
  by (intro keeps_seq keeps_bind keeps_prod keeps_option keeps_raise keeps_ret noted_calm noted_entropy_base noted_entropy_fork
      calm_attach calm_old_kernels)

lemma noted_entropy_body: "keeps (noted X P) (entropy_body E reaper WORK)"
  unfolding entropy_body_def
  by (intro keeps_bind keeps_prod keeps_if keeps_ret noted_calm noted_entropy_base noted_siblings noted_old_image calm_entropy)

lemma ends_entropy: "ends (entropy_main E reaper)"
  unfolding entropy_main_def Let_def by (intro ends_forms noted_entropy_body)

section \<open>\<open>vmgenid_proof.py\<close>\<close>

text \<open>\<open>wait_sock\<close>: the path is looked at before the clock.\<close>

definition await_sock :: "env \<Rightarrow> nat \<Rightarrow> pystr \<Rightarrow> nat \<Rightarrow> bool sys" where
  "await_sock E nap p to =
     bind time_time (\<lambda>t0.
     iterate (\<lambda>_.
       bind (path_exists E p) (\<lambda>x.
       if x then ret (Inr True)
       else
         bind time_time (\<lambda>t.
         if to < t - t0 then ret (Inr False)
         else seq (sleep E nap) (ret (Inl ()))))) ())"

definition guest_cmd :: "env \<Rightarrow> nat \<Rightarrow> pystr \<Rightarrow> nat \<Rightarrow> pystr sys" where
  "guest_cmd E s line to = on_sock E s (park_cmd line to)"

definition genid_ready :: "env \<Rightarrow> nat \<Rightarrow> bool sys" where
  "genid_ready E s = any_of E 120 (bind (guest_cmd E s (lit ''echo ready'') (seconds 5)) (\<lambda>r. ret (contains (lit ''ready'') r)))"

definition IRQC :: pystr where
  "IRQC = lit ''awk '' @ [39] @ lit ''/vmgenid/{print $2}'' @ [39] @ lit '' /proc/interrupts''"

definition BOUND :: pystr where
  "BOUND = lit ''ls /sys/bus/platform/drivers/vmgenid/ 2>/dev/null | grep '' @ [39, 92] @ lit ''.vmgenid'' @ [39] @ lit '' || echo none''"

text \<open>\<open>fork_read\<close>: the process, the first read, the interrupt count and the log of a fork.\<close>

definition genid_conf :: "pystr \<Rightarrow> bool \<Rightarrow> pystr" where
  "genid_conf base_snap reseed =
     lit ''restore=1'' @ [10] @ lit ''restore_from='' @ base_snap @ [10] @ lit ''control_socket=v.sock'' @ [10] @
     (if reseed then [] else lit ''fork_reseed=0'' @ [10])"

definition fork_probe_reads :: "env \<Rightarrow> pystr \<Rightarrow> (pystr option \<times> pystr option \<times> pystr) sys" where
  "fork_probe_reads E d =
     bind (await_sock E 50000 (join d (lit ''v.sock'')) (seconds 30)) (\<lambda>there.
     if \<not> there then ret (None, None, [])
     else
       bind (uconn E (join d (lit ''v.sock'')) (seconds 30)) (\<lambda>vs.
       bind (guest_cmd E vs READ16 (seconds 10)) (\<lambda>r.
       bind (guest_cmd E vs IRQC (seconds 5)) (\<lambda>irq.
       seq (swallow (guest_cmd E vs (lit ''__shutdown__'') (seconds 5))) (
       bind (read_log E (join d (lit ''run.log''))) (\<lambda>lg.
       ret (Some (strip r), Some (strip irq), lg)))))))"

definition fork_read :: "env \<Rightarrow> pystr \<Rightarrow> string \<Rightarrow> pystr \<Rightarrow> bool \<Rightarrow> (nat \<times> pystr option \<times> pystr option \<times> pystr) sys" where
  "fork_read E WORK tag base_snap reseed =
     (let d = join WORK (lit tag) in
      seq (seq (makedirs E d False) (write_text E (join d (lit ''nether.conf'')) (genid_conf base_snap reseed))) (
      bind (launch E d (lit ''run.log'')) (\<lambda>p.
      bind (fork_probe_reads E d) (\<lambda>q. ret (p, q)))))"

text \<open>The base; \<open>None\<close> is the early \<open>return 1\<close>.\<close>

definition genid_freeze :: "env \<Rightarrow> reaper \<Rightarrow> pystr \<Rightarrow> nat \<Rightarrow> string list option sys" where
  "genid_freeze E reaper csk p =
     bind (await_sock E 50000 csk (seconds 40)) (\<lambda>there.
     if \<not> there then ret None
     else
       bind (uconn E csk (seconds 30)) (\<lambda>s.
       bind (genid_ready E s) (\<lambda>ok.
       if \<not> ok then ret None
       else
         bind (guest_cmd E s BOUND (seconds 5)) (\<lambda>b.
         bind (guest_cmd E s (lit ''__snapshot__ base.snap'') (seconds 90)) (\<lambda>rep.
         seq (guest_cmd E s (lit ''__shutdown__'') (seconds 5)) (
         seq (wait_exit E reaper p) (
         ret (Some ((if contains (lit ''.vmgenid'') (strip b) then [] else [''driver did not bind'']) @
                    (if contains (lit ''OK'') rep then [] else [''base bake failed''])))))))))) "

definition genid_verdict ::
    "pystr option \<Rightarrow> pystr option \<Rightarrow> pystr option \<times> pystr option \<times> pystr \<Rightarrow> pystr option \<times> pystr option \<times> pystr \<Rightarrow> string list" where
  "genid_verdict v1 v2 a b =
     (case (a, b) of ((f1, fi1, fl1), (f2, fi2, fl2)) \<Rightarrow>
        let some = (\<lambda>v. v \<noteq> None \<and> v \<noteq> Some []) in
        (if some v1 \<and> v1 = v2 then [] else [''expected identical streams'']) @
        (if some f1 \<and> some f2 \<and> f1 \<noteq> f2 then [] else [''expected divergent streams'']) @
        (if f1 = v1 \<or> f2 = v1 then [''reseed had no effect''] else []) @
        (if fi1 = Some (lit ''1'') \<and> fi2 = Some (lit ''1'') then [] else [''interrupt count'']) @
        (if contains (lit ''vmgenid generation change'') fl1 \<and> contains (lit ''vmgenid generation change'') fl2
         then [] else [''no reseed line'']) @
        (if contains (lit ''via agent'') fl1 \<or> contains (lit ''via agent'') fl2 then [''agent reseed''] else []))"

definition genid_body :: "env \<Rightarrow> reaper \<Rightarrow> pystr \<Rightarrow> pystr \<Rightarrow> string list option harness" where
  "genid_body E reaper WORK base =
     bind (boot E base (lit ''boot.log'')) (\<lambda>p.
     bind (on_world (genid_freeze E reaper (join base (lit ''c.sock'')) p)) (\<lambda>o0.
     case o0 of
       None \<Rightarrow> ret None
     | Some f0 \<Rightarrow>
         let snap = join base (lit ''base.snap'') in
         bind (then_note fst (fork_read E WORK ''vuln-a'' snap False)) (\<lambda>(_, v1, _).
         bind (then_note fst (fork_read E WORK ''vuln-b'' snap False)) (\<lambda>(_, v2, _).
         bind (then_note fst (fork_read E WORK ''fix-a'' snap True)) (\<lambda>(_, a).
         bind (then_note fst (fork_read E WORK ''fix-b'' snap True)) (\<lambda>(_, b).
         ret (Some (f0 @ genid_verdict v1 v2 a b))))))))"

definition genid_main :: "env \<Rightarrow> reaper \<Rightarrow> int sys" where
  "genid_main E reaper =
     bind (path_exists E (BIN E)) (\<lambda>b.
     if \<not> b then ret 1
     else
       let WORK = or_default (environ E (lit ''NETHER_WORK'')) (lit ''/tmp/nvmp''); base = join WORK (lit ''base'') in
       seq (rmtree E WORK) (
       seq (makedirs E WORK False) (
       seq (makedirs E base False) (
       seq (symlink E (NB E @ lit ''/kernels'') (join base (lit ''kernels''))) (
       seq (write_text E (join base (lit ''nether.conf''))
              (lit ''control_socket=c.sock'' @ [10] @ lit ''ram_mb=512'' @ [10] @ lit ''cpus=2'' @ [10])) (
       bind (try_finally (with_procs E 400000 (genid_body E reaper WORK base)) (rmtree E WORK)) (\<lambda>fails.
       ret (if fails = Some [] then 0 else 1))))))))"

section \<open>\<open>snapshot_quiesce_proof.py\<close>\<close>

definition quiesce_boot :: "env \<Rightarrow> pystr \<Rightarrow> string \<Rightarrow> pystr \<Rightarrow> (nat \<times> nat) sys" where
  "quiesce_boot E WORK name extra =
     (let d = join WORK (lit name); sk = join d (lit ''c.sock'') in
      seq (seq (makedirs E d False) (seq (symlink E (NB E @ lit ''/kernels'') (join d (lit ''kernels'')))
             (write_text E (join d (lit ''nether.conf''))
                (lit ''control_socket=c.sock'' @ [10] @ lit ''ram_mb=512'' @ [10] @ lit ''cpus=2'' @ [10] @ extra)))) (
      bind (launch E d (lit ''boot.log'')) (\<lambda>p.
      bind (bind time_time (\<lambda>t0.
            seq (wait_path E sk t0 (seconds 40) 100000) (
            bind (uconn E sk (seconds 15)) (\<lambda>s.
            seq (retry E 120 (guest_ready E s)) (ret s))))) (\<lambda>s.
      ret (p, s)))))"

text \<open>\<open>spin\<close>: a busy process in the guest, and its number there.\<close>

definition spin :: "env \<Rightarrow> nat \<Rightarrow> pystr sys" where
  "spin E s =
     bind (on_sock E s (seq (send_line (lit ''yes >/dev/null 2>&1 & echo $!'')) (framed (seconds 10)))) (\<lambda>(b, e).
     lift (decode_strict (strip_by is_space_byte b)))"

definition quiesce_default :: "env \<Rightarrow> nat \<Rightarrow> string list sys" where
  "quiesce_default E s =
     bind (spin E s) (\<lambda>pid.
     seq (sleep E 700000) (
     bind (on_sock E s (relay_meta (lit ''__snapshot__ b1.snap'') (seconds 30))) (\<lambda>r1.
     seq (on_sock E s (seq (send_line (lit ''kill '' @ pid @ lit '' 2>/dev/null; echo k'')) (framed (seconds 10)))) (
     seq (sleep E 900000) (
     bind (on_sock E s (relay_meta (lit ''__snapshot__ b2.snap'') (seconds 30))) (\<lambda>r2.
     ret ((if contains (lit ''OK'') r1 then [''busy guest captured''] else []) @
          (if contains (lit ''OK'') r2 then [] else [''idle guest refused'']))))))))"

definition quiesce_dirty :: "env \<Rightarrow> nat \<Rightarrow> string list sys" where
  "quiesce_dirty E s =
     seq (spin E s) (
     seq (sleep E 700000) (
     bind (on_sock E s (relay_meta (lit ''__snapshot__ b3.snap'') (seconds 30))) (\<lambda>r3.
     ret (if contains (lit ''OK'') r3 then [] else [''override refused'']))))"

definition quiesce_body :: "env \<Rightarrow> pystr \<Rightarrow> string list harness" where
  "quiesce_body E WORK =
     bind (then_note fst (quiesce_boot E WORK ''v1'' [])) (\<lambda>(p, s).
     bind (on_world (quiesce_default E s)) (\<lambda>f1.
     bind (then_note fst (quiesce_boot E WORK ''v2'' (lit ''snapshot_allow_dirty=1'' @ [10]))) (\<lambda>(p2, s2).
     bind (on_world (quiesce_dirty E s2)) (\<lambda>f2. ret (f1 @ f2)))))"

text \<open>The script prints its verdict and has no exit status of its own.\<close>

definition quiesce_script :: "env \<Rightarrow> string list sys" where
  "quiesce_script E =
     (let WORK = lit ''/tmp/nsnap'' in
      seq (rmtree E WORK) (
      seq (makedirs E WORK False) (
      try_finally (with_procs E 500000 (quiesce_body E WORK)) (rmtree E WORK))))"

section \<open>What they leave running\<close>

lemma calm_await_sock: "calm (await_sock E nap p to)"
  unfolding await_sock_def by (intro calm_entropy)

lemma calm_guest_cmd: "calm (guest_cmd E s line to)"
  unfolding guest_cmd_def by (rule calm_on_sock)

lemma calm_genid_freeze: "calm (genid_freeze E reaper csk p)"
  unfolding genid_freeze_def genid_ready_def
  by (intro calm_entropy calm_await_sock calm_guest_cmd calm_any_of calm_wait_exit)

lemma calm_fork_probe_reads: "calm (fork_probe_reads E d)"
  unfolding fork_probe_reads_def by (intro calm_entropy calm_await_sock calm_guest_cmd)

lemma bind_tag_fst: "bind m (\<lambda>q. ret (p, q)) w = Some (Inr v, w') \<Longrightarrow> fst v = p"
  by (auto simp: bind_Some_iff ret_def)

lemma starts_fork_read: "starts_one fst (fork_read E WORK tag base_snap reseed)"
  unfolding fork_read_def Let_def
  by (rule starts_one_launch) (intro calm_entropy calm_fork_probe_reads | erule bind_tag_fst)+

lemma starts_quiesce_boot: "starts_one fst (quiesce_boot E WORK name extra)"
  unfolding quiesce_boot_def guest_ready_def Let_def
  by (rule starts_one_launch) (intro calm_entropy calm_retry | erule bind_tag_fst)+

lemma calm_quiesce: "calm (quiesce_default E s)" "calm (quiesce_dirty E s)"
  unfolding quiesce_default_def quiesce_dirty_def spin_def by (intro calm_entropy)+

lemma noted_genid_body: "keeps_ok (noted X P) (genid_body E reaper WORK base)"
  unfolding genid_body_def Let_def
  by (intro noted_ok_forms starts_fork_read calm_genid_freeze)

lemma noted_quiesce_body: "keeps_ok (noted X P) (quiesce_body E WORK)"
  unfolding quiesce_body_def
  by (intro noted_ok_forms starts_quiesce_boot calm_quiesce)

lemma ends_ok_genid: "ends_ok (genid_main E reaper)"
  unfolding genid_main_def Let_def
  by (intro ends_ok_forms noted_genid_body)

lemma ends_ok_quiesce: "ends_ok (quiesce_script E)"
  unfolding quiesce_script_def Let_def
  by (intro ends_ok_forms noted_quiesce_body)

lemma starts_relay_boot: "starts_one fst (relay_boot E WORK name extra)"
proof -
  have r: "calm (relay_reach E csk)" for csk
    unfolding relay_reach_def relay_ask_def by (intro calm_entropy calm_retry)
  have "relay_boot E WORK name extra = (let d = join WORK (lit name); csk = join d (lit ''c.sock'') in
      seq (seq (makedirs E d False) (seq (symlink E (NB E @ lit ''/kernels'') (join d (lit ''kernels'')))
             (write_text E (join d (lit ''nether.conf'')) (relay_conf extra)))) (
      bind (launch E d (lit ''boot.log'')) (\<lambda>p.
      bind (bind (relay_reach E csk) (\<lambda>s. ret (csk, join d (lit ''d.sock''), s))) (\<lambda>q. ret (p, q)))))"
    by (simp add: relay_boot_def Let_def seq_assoc bind_assoc bind_ret_left)
  then show ?thesis unfolding Let_def
    by (simp only:) (rule starts_one_launch, (intro calm_entropy r | erule bind_tag_fst)+)
qed

lemma calm_relay_checks: "calm (check_disconnect E csk s)" "calm (check_wedge E csk dsk s)"
  unfolding check_disconnect_def check_wedge_def relay_ask_def relay_cat_def curl_loop_def curl_def
  by (intro calm_entropy calm_any_of)+

lemma noted_relay_body: "keeps_ok (noted X P) (relay_body E WORK)"
  unfolding relay_body_def by (intro noted_ok_forms starts_relay_boot calm_relay_checks)

lemma ends_ok_relay: "ends_ok (relay_main E)"
  unfolding relay_main_def Let_def by (intro ends_ok_forms noted_relay_body)

end
