(* ===== verification/Broker.thy ===== *)
theory Broker
  imports Host "HOL-Library.AList"
begin

text \<open>
  The upstream brokers of the park proofs: \<open>EgressBroker\<close> of \<open>scripts/park_await_proof.py\<close> and
  \<open>Broker\<close> of \<open>scripts/park_multi_proof.py\<close>.  A broker runs one thread per accepted connection; a
  thread reads the VM's preamble (\<open>conn=<id> resume=<0|1>\<close>) and either parks the request of a fresh
  connection under its id, or answers a resumed connection from what is parked.  The state is what the
  threads share (the dictionaries, the error list), where each thread is, and the log of requests
  received and replies sent.  A step is one thread's progress from one lock or socket call to the
  next, with any bytes and any interleaving; in the broker of \<open>scripts/park_density_proof.py\<close>, at the end of
  this theory, receiving a request and noting it (\<open>parked.set()\<close>, \<open>errors.append\<close>) are one step.  The locale \<open>desk\<close> states what keeps replies apart and
  proves it for every reachable state; both brokers are instances.
\<close>

section \<open>The preamble\<close>

text \<open>\<open>_line\<close> / \<open>_readline\<close>: one byte at a time, so that nothing of the request is read.\<close>

definition read_line :: "(sock, bytes) io" where
  "read_line = iterate (read_body (recv 1) (\<lambda>b. suffix [10] b) (\<lambda>b. ret (Inr b)) (\<lambda>b. b)) []"

lemma read_line_loop:
  assumes "prompt s" and "pending s = l @ 10 # rest" and "10 \<notin> set l" and "10 \<notin> set b"
  shows "\<exists>s'. iterate (read_body (recv 1) (\<lambda>b. suffix [10] b) (\<lambda>b. ret (Inr b)) (\<lambda>b. b)) b s = Some (Inr (b @ l @ [10]), s') \<and>
    pending s' = rest"
  using assms
proof (induction l arbitrary: b s)
  case Nil
  obtain c s' where c: "recv 1 s = Some (Inr c, s')" "c \<noteq> []" "length c \<le> 1" "pending s = c @ pending s'"
    using recv_prompt [OF Nil.prems(1), of 1] Nil.prems(2) by auto
  then have e: "c = [10]" "pending s' = rest" using Nil.prems(2) by (cases c; simp)+
  have ns: "\<not> suffix [10] b" using Nil.prems(4) by (auto simp: suffix_def)
  have "read_body (recv 1) (\<lambda>b. suffix [10] b) (\<lambda>b. ret (Inr b)) (\<lambda>b. b) b s = Some (Inr (Inl (b @ [10])), s')"
    using ns c(1,2) e(1) by (simp add: read_body_def bind_def ret_def)
  moreover have "suffix [10] (b @ [10])" by (rule suffixI) simp
  ultimately show ?case using e(2) iterate_step read_body_stop [of "\<lambda>b. suffix [10] b" "b @ [10]"] by fastforce
next
  case (Cons x l)
  obtain c s' where c: "recv 1 s = Some (Inr c, s')" "c \<noteq> []" "length c \<le> 1" "pending s = c @ pending s'" "prompt s'"
    using recv_prompt [OF Cons.prems(1), of 1] Cons.prems(2) by auto
  then have e: "c = [x]" "pending s' = l @ 10 # rest" using Cons.prems(2) by (cases c; simp)+
  have ns: "\<not> suffix [10] b" using Cons.prems(4) by (auto simp: suffix_def)
  have "read_body (recv 1) (\<lambda>b. suffix [10] b) (\<lambda>b. ret (Inr b)) (\<lambda>b. b) b s = Some (Inr (Inl (b @ [x])), s')"
    using ns c(1,2) e(1) by (simp add: read_body_def bind_def ret_def)
  then have "iterate (read_body (recv 1) (\<lambda>b. suffix [10] b) (\<lambda>b. ret (Inr b)) (\<lambda>b. b)) b s =
      iterate (read_body (recv 1) (\<lambda>b. suffix [10] b) (\<lambda>b. ret (Inr b)) (\<lambda>b. b)) (b @ [x]) s'" by (rule iterate_step)
  moreover have "10 \<notin> set l" "10 \<notin> set (b @ [x])" using Cons.prems(3,4) by auto
  ultimately show ?case using Cons.IH [OF c(5) e(2), of "b @ [x]"] by auto
qed

text \<open>\<open>kv = dict(t.split("=", 1) for t in pre.split() if "=" in t)\<close>\<close>

definition kv_of :: "pystr \<Rightarrow> pystr \<Rightarrow> pystr option" where
  "kv_of pre =
     fold (\<lambda>t m. case split_once 61 t of (k, Some v) \<Rightarrow> m(k \<mapsto> v) | (k, None) \<Rightarrow> m) (words pre) (\<lambda>_. None)"

text \<open>The stripped line, \<open>int(kv.get("conn", -1))\<close> and \<open>kv.get("resume") == "1"\<close>.\<close>

definition parse_preamble :: "bytes \<Rightarrow> exn + pystr \<times> int \<times> bool" where
  "parse_preamble line =
     (let pre = strip (decode line); kv = kv_of pre in
      case kv (lit ''conn'') of
        None \<Rightarrow> Inr (pre, -1, kv (lit ''resume'') = Some (lit ''1''))
      | Some v \<Rightarrow>
          (case py_int v of
             None \<Rightarrow> Inl ValueError
           | Some cid \<Rightarrow> Inr (pre, cid, kv (lit ''resume'') = Some (lit ''1''))))"

section \<open>The interface: replies that belong to their connection\<close>

datatype event =
    Asked nat int bytes       \<comment> \<open>socket, connection id of its preamble, the request received\<close>
  | Answered nat int bytes    \<comment> \<open>socket, connection id of its preamble, the reply sent\<close>

locale desk =
  fixes init :: 'b
    and step :: "'b \<Rightarrow> 'b \<Rightarrow> bool"
    and events :: "'b \<Rightarrow> event list"
    and inv :: "'b \<Rightarrow> bool"
    and reply_for :: "bytes \<Rightarrow> bytes option"
  assumes events_init: "events init = []"
    and inv_init: "inv init"
    and inv_step: "inv b \<Longrightarrow> step b b' \<Longrightarrow> inv b'"
    and events_step: "inv b \<Longrightarrow> step b b' \<Longrightarrow> events b' = events b \<or>
      (\<exists>c cid q. events b' = events b @ [Asked c cid q]) \<or>
      (\<exists>c cid p c' q. events b' = events b @ [Answered c cid p] \<and> reply_for q = Some p \<and>
         Asked c' cid q \<in> set (events b))"
begin

lemma reach_inv: "rtranclp step init b \<Longrightarrow> inv b"
  by (induction rule: rtranclp_induct) (auto intro: inv_init inv_step)

text \<open>Every reply was asked for before it was sent, by a connection with the same id.\<close>

lemma answered_asked:
  assumes "rtranclp step init b" and "events b = l1 @ Answered c cid p # l2"
  shows "\<exists>c' q. Asked c' cid q \<in> set l1 \<and> reply_for q = Some p"
  using assms
proof (induction arbitrary: l2 rule: rtranclp_induct)
  case base
  then show ?case by (simp add: events_init)
next
  case (step b b')
  have "inv b" using step.hyps(1) by (rule reach_inv)
  from events_step [OF this step.hyps(2)]
  consider "events b' = events b" | ev where "events b' = events b @ [ev]" "\<forall>c cid p. ev \<noteq> Answered c cid p"
    | c1 cid1 p1 c' q where "events b' = events b @ [Answered c1 cid1 p1]" "reply_for q = Some p1" "Asked c' cid1 q \<in> set (events b)"
    by fastforce
  then show ?case
  proof cases
    case 1
    with step show ?thesis by simp
  next
    case 2
    then obtain l3 where "events b = l1 @ Answered c cid p # l3"
      using step.prems by (cases l2 rule: rev_cases) (auto dest: sym)
    then show ?thesis by (rule step.IH)
  next
    case 3
    show ?thesis
    proof (cases l2 rule: rev_cases)
      case Nil
      with 3 step.prems have "events b = l1" "c1 = c" "cid1 = cid" "p1 = p" by simp_all
      with 3 show ?thesis by blast
    next
      case (snoc l3 x)
      with 3 step.prems have "events b = l1 @ Answered c cid p # l3" by simp
      then show ?thesis by (rule step.IH)
    qed
  qed
qed

text \<open>When no connection id asks twice, the reply is the one its own request deserves.\<close>

lemma own_reply:
  assumes "rtranclp step init b" and "Answered c cid p \<in> set (events b)"
    and "Asked c1 cid q1 \<in> set (events b)"
    and once: "\<forall>c2 q2. Asked c2 cid q2 \<in> set (events b) \<longrightarrow> q2 = q1"
  shows "reply_for q1 = Some p"
proof -
  obtain l1 l2 where l: "events b = l1 @ Answered c cid p # l2" using assms(2) by (auto simp: in_set_conv_decomp)
  then obtain c' q where "Asked c' cid q \<in> set l1" "reply_for q = Some p" using answered_asked [OF assms(1)] by blast
  moreover from this l once have "q = q1" by auto
  ultimately show ?thesis by simp
qed

end

section \<open>\<open>park_multi_proof.py\<close>\<close>

definition TAGS :: "pystr list" where
  "TAGS = [lit ''alpha'', lit ''bravo'', lit ''charlie'', lit ''delta'']"

text \<open>\<open>next((t for t in TAGS if t in req), None)\<close>\<close>

definition tag_of :: "bytes \<Rightarrow> pystr option" where
  "tag_of req = List.find (\<lambda>t. contains t (decode req)) TAGS"

text \<open>The characters of a tag are ASCII, so \<open>.encode()\<close> keeps their codes.\<close>

definition tag_reply :: "pystr \<Rightarrow> bytes" where
  "tag_reply tag = map word_of_nat (lit ''REPLY-FOR-'' @ tag @ [10])"

datatype thread =
    Greet                     \<comment> \<open>reading the preamble\<close>
  | Fresh int                 \<comment> \<open>waiting for the request\<close>
  | Tagged int pystr          \<comment> \<open>about to park, before the lock\<close>
  | Resume int                \<comment> \<open>about to look up, before the lock\<close>
  | Found int pystr           \<comment> \<open>looked up, before the second lock\<close>
  | Answer int pystr          \<comment> \<open>about to reply\<close>
  | Hold                      \<comment> \<open>blocked in the last \<open>recv\<close>\<close>
  | Finished

datatype broker_error = UnknownConn int | NoTag bytes | BadPreamble pystr | Raised exn

record multi_broker =
  parked :: "(int \<times> pystr) list"   \<comment> \<open>a dictionary, in insertion order\<close>
  resumed :: "pystr list"
  errors :: "broker_error list"
  threads :: "nat \<Rightarrow> thread option"
  events :: "event list"

definition multi_init :: multi_broker where
  "multi_init = \<lparr>parked = [], resumed = [], errors = [], threads = \<lambda>_. None, events = []\<rparr>"

definition set_thread :: "nat \<Rightarrow> thread \<Rightarrow> multi_broker \<Rightarrow> multi_broker" where
  "set_thread c t b = b\<lparr>threads := (threads b)(c \<mapsto> t)\<rparr>"

text \<open>\<open>except Exception as ex: self.errors.append(...)\<close>\<close>

definition multi_fail :: "nat \<Rightarrow> broker_error \<Rightarrow> multi_broker \<Rightarrow> multi_broker" where
  "multi_fail c e b = set_thread c Finished (b\<lparr>errors := errors b @ [e]\<rparr>)"

definition multi_preamble :: "nat \<Rightarrow> bytes \<Rightarrow> multi_broker \<Rightarrow> multi_broker" where
  "multi_preamble c line b =
     (case parse_preamble line of
        Inl e \<Rightarrow> multi_fail c (Raised e) b
      | Inr (pre, cid, res) \<Rightarrow> set_thread c (if res then Resume cid else Fresh cid) b)"

definition multi_lookup :: "nat \<Rightarrow> int \<Rightarrow> multi_broker \<Rightarrow> multi_broker" where
  "multi_lookup c cid b =
     (case map_of (parked b) cid of
        None \<Rightarrow> multi_fail c (UnknownConn cid) b
      | Some tag \<Rightarrow> set_thread c (Found cid tag) b)"

definition multi_record :: "nat \<Rightarrow> int \<Rightarrow> pystr \<Rightarrow> multi_broker \<Rightarrow> multi_broker" where
  "multi_record c cid tag b = set_thread c (Answer cid tag) (b\<lparr>resumed := resumed b @ [tag]\<rparr>)"

definition multi_answer :: "nat \<Rightarrow> int \<Rightarrow> pystr \<Rightarrow> multi_broker \<Rightarrow> multi_broker" where
  "multi_answer c cid tag b = set_thread c Hold (b\<lparr>events := events b @ [Answered c cid (tag_reply tag)]\<rparr>)"

definition multi_request :: "nat \<Rightarrow> int \<Rightarrow> bytes \<Rightarrow> multi_broker \<Rightarrow> multi_broker" where
  "multi_request c cid req b =
     (let b1 = b\<lparr>events := events b @ [Asked c cid req]\<rparr> in
      case tag_of req of
        None \<Rightarrow> multi_fail c (NoTag req) b1
      | Some tag \<Rightarrow> set_thread c (Tagged cid tag) b1)"

definition multi_park :: "nat \<Rightarrow> int \<Rightarrow> pystr \<Rightarrow> multi_broker \<Rightarrow> multi_broker" where
  "multi_park c cid tag b = set_thread c Hold (b\<lparr>parked := AList.update cid tag (parked b)\<rparr>)"

text \<open>\<open>_loop\<close> and \<open>_serve\<close>: any thread may go on; \<open>e\<close> is what a socket call raises.\<close>

inductive multi_step :: "multi_broker \<Rightarrow> multi_broker \<Rightarrow> bool" where
  accept: "threads b c = None \<Longrightarrow> multi_step b (set_thread c Greet b)"
| preamble: "threads b c = Some Greet \<Longrightarrow> multi_step b (multi_preamble c line b)"
| look_up: "threads b c = Some (Resume cid) \<Longrightarrow> multi_step b (multi_lookup c cid b)"
| record_tag: "threads b c = Some (Found cid tag) \<Longrightarrow> multi_step b (multi_record c cid tag b)"
| answer: "threads b c = Some (Answer cid tag) \<Longrightarrow> multi_step b (multi_answer c cid tag b)"
| request: "threads b c = Some (Fresh cid) \<Longrightarrow> multi_step b (multi_request c cid req b)"
| park: "threads b c = Some (Tagged cid tag) \<Longrightarrow> multi_step b (multi_park c cid tag b)"
| hang_up: "threads b c = Some Hold \<Longrightarrow> multi_step b (set_thread c Finished b)"
| fault: "threads b c \<in> {Some Greet, Some (Fresh cid), Some (Answer cid tag)} \<Longrightarrow>
    multi_step b (multi_fail c (Raised e) b)"

text \<open>A tag that is parked, or that a thread holds, is the tag of a request with that id.\<close>

definition asked_tag :: "multi_broker \<Rightarrow> int \<Rightarrow> pystr \<Rightarrow> bool" where
  "asked_tag b cid tag \<longleftrightarrow> (\<exists>c req. Asked c cid req \<in> set (events b) \<and> tag_of req = Some tag)"

definition multi_inv :: "multi_broker \<Rightarrow> bool" where
  "multi_inv b \<longleftrightarrow>
     (\<forall>cid tag. map_of (parked b) cid = Some tag \<longrightarrow> asked_tag b cid tag) \<and>
     (\<forall>c cid tag. threads b c \<in> {Some (Tagged cid tag), Some (Found cid tag), Some (Answer cid tag)} \<longrightarrow>
        asked_tag b cid tag)"

lemmas multi_defs = update_conv set_thread_def multi_fail_def multi_preamble_def multi_lookup_def multi_record_def
  multi_answer_def multi_request_def multi_park_def

lemma asked_tag_same: "events b' = events b \<Longrightarrow> asked_tag b' = asked_tag b"
  by (simp add: asked_tag_def fun_eq_iff)

lemma asked_tag_more: "asked_tag b cid tag \<Longrightarrow> events b' = events b @ ev \<Longrightarrow> asked_tag b' cid tag"
  by (auto simp: asked_tag_def)

lemma multi_inv_keep:
  assumes "multi_inv b" and "events b' = events b @ ev"
    and "\<And>cid tag. map_of (parked b') cid = Some tag \<Longrightarrow> map_of (parked b) cid \<noteq> Some tag \<Longrightarrow> asked_tag b' cid tag"
    and "\<And>c cid tag. threads b' c \<in> {Some (Tagged cid tag), Some (Found cid tag), Some (Answer cid tag)} \<Longrightarrow>
      threads b c \<noteq> threads b' c \<Longrightarrow> asked_tag b' cid tag"
  shows "multi_inv b'"
proof -
  note old = asked_tag_more [OF _ assms(2)]
  have "asked_tag b' cid tag" if "map_of (parked b') cid = Some tag" for cid tag
    using assms(1,3) that old [of cid tag] unfolding multi_inv_def by blast
  moreover have "asked_tag b' cid tag"
    if "threads b' c \<in> {Some (Tagged cid tag), Some (Found cid tag), Some (Answer cid tag)}" for c cid tag
  proof (cases "threads b c = threads b' c")
    case True
    then show ?thesis using assms(1) that old [of cid tag] unfolding multi_inv_def by metis
  qed (rule assms(4) [OF that])
  ultimately show ?thesis unfolding multi_inv_def by blast
qed

lemma multi_inv_step:
  assumes "multi_inv b" and "multi_step b b'"
  shows "multi_inv b'"
  using assms(2)
proof cases
  case (look_up c cid)
  then have "asked_tag b cid tag" if "map_of (parked b) cid = Some tag" for tag using assms(1) that by (simp add: multi_inv_def)
  then show ?thesis using look_up
    by (intro multi_inv_keep [OF assms(1), where ev = "[]"])
       (auto simp: multi_defs asked_tag_def split: option.splits if_splits)
next
  case (record_tag c cid tag)
  then have "asked_tag b cid tag" using assms(1) by (auto simp: multi_inv_def)
  then show ?thesis using record_tag
    by (intro multi_inv_keep [OF assms(1), where ev = "[]"]) (auto simp: multi_defs asked_tag_def split: if_splits)
next
  case (request c cid req)
  then show ?thesis
    by (intro multi_inv_keep [OF assms(1), where ev = "[Asked c cid req]"])
       (auto simp: multi_defs Let_def asked_tag_def split: option.splits if_splits)
next
  case (park c cid tag)
  then have "asked_tag b cid tag" using assms(1) by (auto simp: multi_inv_def)
  then show ?thesis using park
    by (intro multi_inv_keep [OF assms(1), where ev = "[]"]) (auto simp: multi_defs asked_tag_def split: if_splits)
next
  case (answer c cid tag)
  then show ?thesis
    by (intro multi_inv_keep [OF assms(1), where ev = "[Answered c cid (tag_reply tag)]"])
       (auto simp: multi_defs split: if_splits)
qed (intro multi_inv_keep [OF assms(1), where ev = "[]"],
     auto simp: multi_defs split: option.splits sum.splits if_splits)+

lemma multi_events_step:
  assumes "multi_inv b" and "multi_step b b'"
  shows "events b' = events b \<or> (\<exists>c cid q. events b' = events b @ [Asked c cid q]) \<or>
    (\<exists>c cid p c' q. events b' = events b @ [Answered c cid p] \<and> map_option tag_reply (tag_of q) = Some p \<and>
       Asked c' cid q \<in> set (events b))"
  using assms(2)
proof cases
  case (answer c cid tag)
  then have "asked_tag b cid tag" using assms(1) by (auto simp: multi_inv_def)
  then show ?thesis using answer by (auto simp: multi_defs asked_tag_def)
qed (auto simp: multi_defs Let_def split: option.splits sum.splits)

interpretation multi: desk multi_init multi_step events multi_inv "\<lambda>q. map_option tag_reply (tag_of q)"
proof unfold_locales
  show "events multi_init = []" "multi_inv multi_init" by (simp_all add: multi_init_def multi_inv_def)
qed (fact multi_inv_step, fact multi_events_step)

section \<open>\<open>park_await_proof.py\<close>\<close>

definition NONCE :: bytes where "NONCE = blit ''PARKED-REPLY-7f3a9c''"
definition NONCE2 :: bytes where "NONCE2 = blit ''PARKED-REPLY-GEN2-b41d''"

definition resume_reply :: "bytes \<Rightarrow> bytes" where
  "resume_reply req = blit ''REPLY '' @ (if contains (blit ''/slow2'') req then NONCE2 else NONCE) @ [10]"

definition quick_reply :: bytes where
  "quick_reply = blit ''REPLY quick-ok'' @ [10]"

definition is_quick :: "bytes \<Rightarrow> bool" where
  "is_quick req \<longleftrightarrow> contains (blit ''/quick'') req"

datatype await_thread =
    ReadPreamble
  | ReadRequest int
  | SendQuick int bytes       \<comment> \<open>a \<open>/quick\<close> request, about to be answered\<close>
  | ParkRequest int bytes     \<comment> \<open>a slow request, before the lock\<close>
  | LookUp int                \<comment> \<open>a resumed connection, before the lock\<close>
  | SendReply int bytes       \<comment> \<open>the parked request it found, about to be answered\<close>
  | WaitPeer
  | Closed

record await_broker =
  fresh :: "(int \<times> bytes) list"
  resumed_ids :: "int set"
  await_errors :: "broker_error list"
  await_threads :: "nat \<Rightarrow> await_thread option"
  await_events :: "event list"

definition await_init :: await_broker where
  "await_init = \<lparr>fresh = [], resumed_ids = {}, await_errors = [], await_threads = \<lambda>_. None, await_events = []\<rparr>"

definition goto :: "nat \<Rightarrow> await_thread \<Rightarrow> await_broker \<Rightarrow> await_broker" where
  "goto c t b = b\<lparr>await_threads := (await_threads b)(c \<mapsto> t)\<rparr>"

definition await_fail :: "nat \<Rightarrow> broker_error \<Rightarrow> await_broker \<Rightarrow> await_broker" where
  "await_fail c e b = goto c Closed (b\<lparr>await_errors := await_errors b @ [e]\<rparr>)"

definition await_preamble :: "nat \<Rightarrow> bytes \<Rightarrow> await_broker \<Rightarrow> await_broker" where
  "await_preamble c line b =
     (case parse_preamble line of
        Inl e \<Rightarrow> await_fail c (Raised e) b
      | Inr (pre, cid, res) \<Rightarrow>
          if \<not> prefix (lit ''NETHER-EGRESS v1'') pre \<or> cid < 0 then await_fail c (BadPreamble pre) b
          else goto c (if res then LookUp cid else ReadRequest cid) b)"

definition await_lookup :: "nat \<Rightarrow> int \<Rightarrow> await_broker \<Rightarrow> await_broker" where
  "await_lookup c cid b =
     (let b1 = b\<lparr>resumed_ids := insert cid (resumed_ids b)\<rparr> in
      case map_of (fresh b) cid of
        None \<Rightarrow> await_fail c (UnknownConn cid) b1
      | Some req \<Rightarrow> goto c (SendReply cid req) b1)"

definition await_reply :: "nat \<Rightarrow> int \<Rightarrow> bytes \<Rightarrow> await_broker \<Rightarrow> await_broker" where
  "await_reply c cid p b = goto c WaitPeer (b\<lparr>await_events := await_events b @ [Answered c cid p]\<rparr>)"

definition await_request :: "nat \<Rightarrow> int \<Rightarrow> bytes \<Rightarrow> await_broker \<Rightarrow> await_broker" where
  "await_request c cid req b =
     goto c (if is_quick req then SendQuick cid req else ParkRequest cid req)
       (b\<lparr>await_events := await_events b @ [Asked c cid req]\<rparr>)"

definition await_park :: "nat \<Rightarrow> int \<Rightarrow> bytes \<Rightarrow> await_broker \<Rightarrow> await_broker" where
  "await_park c cid req b = goto c WaitPeer (b\<lparr>fresh := AList.update cid req (fresh b)\<rparr>)"

inductive await_step :: "await_broker \<Rightarrow> await_broker \<Rightarrow> bool" where
  accept: "await_threads b c = None \<Longrightarrow> await_step b (goto c ReadPreamble b)"
| preamble: "await_threads b c = Some ReadPreamble \<Longrightarrow> await_step b (await_preamble c line b)"
| look_up: "await_threads b c = Some (LookUp cid) \<Longrightarrow> await_step b (await_lookup c cid b)"
| send_reply: "await_threads b c = Some (SendReply cid req) \<Longrightarrow> await_step b (await_reply c cid (resume_reply req) b)"
| request: "await_threads b c = Some (ReadRequest cid) \<Longrightarrow> await_step b (await_request c cid req b)"
| send_quick: "await_threads b c = Some (SendQuick cid req) \<Longrightarrow> await_step b (await_reply c cid quick_reply b)"
| park: "await_threads b c = Some (ParkRequest cid req) \<Longrightarrow> await_step b (await_park c cid req b)"
| hang_up: "await_threads b c = Some WaitPeer \<Longrightarrow> await_step b (goto c Closed b)"
| fault: "await_threads b c \<in> {Some ReadPreamble, Some (ReadRequest cid), Some (SendQuick cid req), Some (SendReply cid req)} \<Longrightarrow>
    await_step b (await_fail c (Raised e) b)"

text \<open>What the broker holds under a connection id was asked under that id, and is slow; what it
  is about to answer at once was asked, and is quick.\<close>

definition asked_as :: "await_broker \<Rightarrow> int \<Rightarrow> bytes \<Rightarrow> bool \<Rightarrow> bool" where
  "asked_as b cid req q \<longleftrightarrow> is_quick req = q \<and> (\<exists>c. Asked c cid req \<in> set (await_events b))"

definition await_inv :: "await_broker \<Rightarrow> bool" where
  "await_inv b \<longleftrightarrow>
     (\<forall>cid req. map_of (fresh b) cid = Some req \<longrightarrow> asked_as b cid req False) \<and>
     (\<forall>c cid req. await_threads b c \<in> {Some (ParkRequest cid req), Some (SendReply cid req)} \<longrightarrow> asked_as b cid req False) \<and>
     (\<forall>c cid req. await_threads b c = Some (SendQuick cid req) \<longrightarrow> asked_as b cid req True)"

definition await_answer :: "bytes \<Rightarrow> bytes option" where
  "await_answer req = Some (if is_quick req then quick_reply else resume_reply req)"

lemmas await_defs = update_conv goto_def await_fail_def await_preamble_def await_lookup_def await_reply_def await_request_def
  await_park_def

lemma asked_as_more: "asked_as b cid req q \<Longrightarrow> await_events b' = await_events b @ ev \<Longrightarrow> asked_as b' cid req q"
  by (auto simp: asked_as_def)

lemma await_inv_keep:
  assumes inv: "await_inv b" and ev: "await_events b' = await_events b @ ev"
    and f: "\<And>cid req. map_of (fresh b') cid = Some req \<Longrightarrow> map_of (fresh b) cid \<noteq> Some req \<Longrightarrow> asked_as b' cid req False"
    and s: "\<And>c cid req. await_threads b' c \<in> {Some (ParkRequest cid req), Some (SendReply cid req)} \<Longrightarrow>
      await_threads b c \<noteq> await_threads b' c \<Longrightarrow> asked_as b' cid req False"
    and q: "\<And>c cid req. await_threads b' c = Some (SendQuick cid req) \<Longrightarrow>
      await_threads b c \<noteq> await_threads b' c \<Longrightarrow> asked_as b' cid req True"
  shows "await_inv b'"
proof -
  note old = asked_as_more [OF _ ev]
  have "asked_as b' cid req False" if "map_of (fresh b') cid = Some req" for cid req
    using inv f [OF that] that old unfolding await_inv_def by blast
  moreover have "asked_as b' cid req False"
    if "await_threads b' c \<in> {Some (ParkRequest cid req), Some (SendReply cid req)}" for c cid req
  proof (cases "await_threads b c = await_threads b' c")
    case True
    then have "asked_as b cid req False" using inv that unfolding await_inv_def by metis
    then show ?thesis by (rule old)
  qed (rule s [OF that])
  moreover have "asked_as b' cid req True" if "await_threads b' c = Some (SendQuick cid req)" for c cid req
  proof (cases "await_threads b c = await_threads b' c")
    case True
    then have "asked_as b cid req True" using inv that unfolding await_inv_def by metis
    then show ?thesis by (rule old)
  qed (rule q [OF that])
  ultimately show ?thesis unfolding await_inv_def by blast
qed

lemma await_inv_step:
  assumes "await_inv b" and "await_step b b'"
  shows "await_inv b'"
  using assms(2)
proof cases
  case (look_up c cid)
  then have "asked_as b cid req False" if "map_of (fresh b) cid = Some req" for req using assms(1) that by (simp add: await_inv_def)
  then show ?thesis using look_up
    by (intro await_inv_keep [OF assms(1), where ev = "[]"])
       (auto simp: await_defs asked_as_def Let_def split: option.splits if_splits)
next
  case (request c cid req)
  then show ?thesis
    by (intro await_inv_keep [OF assms(1), where ev = "[Asked c cid req]"])
       (auto simp: await_defs asked_as_def split: if_splits)
next
  case (park c cid req)
  then have "asked_as b cid req False" using assms(1) by (auto simp: await_inv_def)
  then show ?thesis using park
    by (intro await_inv_keep [OF assms(1), where ev = "[]"]) (auto simp: await_defs asked_as_def split: if_splits)
next
  case (send_reply c cid req)
  then show ?thesis
    by (intro await_inv_keep [OF assms(1), where ev = "[Answered c cid (resume_reply req)]"])
       (auto simp: await_defs split: if_splits)
next
  case (send_quick c cid req)
  then show ?thesis
    by (intro await_inv_keep [OF assms(1), where ev = "[Answered c cid quick_reply]"])
       (auto simp: await_defs split: if_splits)
qed (intro await_inv_keep [OF assms(1), where ev = "[]"],
     auto simp: await_defs split: option.splits sum.splits if_splits)+

lemma await_events_step:
  assumes "await_inv b" and "await_step b b'"
  shows "await_events b' = await_events b \<or> (\<exists>c cid q. await_events b' = await_events b @ [Asked c cid q]) \<or>
    (\<exists>c cid p c' q. await_events b' = await_events b @ [Answered c cid p] \<and> await_answer q = Some p \<and>
       Asked c' cid q \<in> set (await_events b))"
  using assms(2)
proof cases
  case (send_reply c cid req)
  then have "asked_as b cid req False" using assms(1) by (auto simp: await_inv_def)
  then show ?thesis using send_reply by (auto simp: await_defs asked_as_def await_answer_def)
next
  case (send_quick c cid req)
  then have "asked_as b cid req True" using assms(1) by (auto simp: await_inv_def)
  then show ?thesis using send_quick by (auto simp: await_defs asked_as_def await_answer_def)
qed (auto simp: await_defs Let_def split: option.splits sum.splits)

interpretation await: desk await_init await_step await_events await_inv await_answer
proof unfold_locales
  show "await_events await_init = []" "await_inv await_init" by (simp_all add: await_init_def await_inv_def)
qed (fact await_inv_step, fact await_events_step)

section \<open>\<open>park_density_proof.py\<close>: one broker per VM\<close>

datatype density_thread = DPreamble | DRequest | DResumed | DHold | DClosed

datatype density_error = WrongTag bytes | DRaised exn

record density_broker =
  tag :: pystr
  was_parked :: bool                \<comment> \<open>\<open>self.parked.is_set()\<close>\<close>
  was_resumed :: bool
  density_errors :: "density_error list"
  density_threads :: "nat \<Rightarrow> density_thread option"
  requests :: "bytes list"          \<comment> \<open>the requests received so far\<close>
  replies :: "bytes list"           \<comment> \<open>the replies sent so far\<close>

definition density_init :: "pystr \<Rightarrow> density_broker" where
  "density_init g = \<lparr>tag = g, was_parked = False, was_resumed = False, density_errors = [],
     density_threads = \<lambda>_. None, requests = [], replies = []\<rparr>"

definition density_goto :: "nat \<Rightarrow> density_thread \<Rightarrow> density_broker \<Rightarrow> density_broker" where
  "density_goto c t b = b\<lparr>density_threads := (density_threads b)(c \<mapsto> t)\<rparr>"

definition density_fail :: "nat \<Rightarrow> density_error \<Rightarrow> density_broker \<Rightarrow> density_broker" where
  "density_fail c e b = density_goto c DClosed (b\<lparr>density_errors := density_errors b @ [e]\<rparr>)"

definition density_preamble :: "nat \<Rightarrow> bytes \<Rightarrow> density_broker \<Rightarrow> density_broker" where
  "density_preamble c line b =
     (if contains (lit ''resume=1'') (strip (decode line))
      then density_goto c DResumed (b\<lparr>was_resumed := True\<rparr>) else density_goto c DRequest b)"

definition density_reply :: "nat \<Rightarrow> density_broker \<Rightarrow> density_broker" where
  "density_reply c b =
     (case encode (lit ''REPLY-FOR-'' @ tag b @ [10]) of
        Inl e \<Rightarrow> density_fail c (DRaised e) b
      | Inr p \<Rightarrow> density_goto c DHold (b\<lparr>replies := replies b @ [p]\<rparr>))"

definition density_request :: "nat \<Rightarrow> bytes \<Rightarrow> density_broker \<Rightarrow> density_broker" where
  "density_request c req b =
     (let b1 = b\<lparr>requests := requests b @ [req]\<rparr> in
      case encode (tag b) of
        Inl e \<Rightarrow> density_fail c (DRaised e) b1
      | Inr g \<Rightarrow>
          if \<not> contains g req then density_fail c (WrongTag req) b1
          else density_goto c DHold (b1\<lparr>was_parked := True\<rparr>))"

inductive density_step :: "density_broker \<Rightarrow> density_broker \<Rightarrow> bool" where
  accept: "density_threads b c = None \<Longrightarrow> density_step b (density_goto c DPreamble b)"
| preamble: "density_threads b c = Some DPreamble \<Longrightarrow> density_step b (density_preamble c line b)"
| reply: "density_threads b c = Some DResumed \<Longrightarrow> density_step b (density_reply c b)"
| request: "density_threads b c = Some DRequest \<Longrightarrow> density_step b (density_request c req b)"
| hang_up: "density_threads b c = Some DHold \<Longrightarrow> density_step b (density_goto c DClosed b)"
| fault: "density_threads b c \<in> {Some DPreamble, Some DResumed, Some DRequest} \<Longrightarrow>
    density_step b (density_fail c (DRaised e) b)"

definition density_inv :: "pystr \<Rightarrow> bytes \<Rightarrow> density_broker \<Rightarrow> bool" where
  "density_inv g gb b \<longleftrightarrow> tag b = g \<and>
     (was_parked b \<longleftrightarrow> list_ex (contains gb) (requests b)) \<and>
     list_all (\<lambda>q. contains gb q \<or> WrongTag q \<in> set (density_errors b)) (requests b) \<and>
     list_all (\<lambda>p. encode (lit ''REPLY-FOR-'' @ g @ [10]) = Inr p) (replies b)"

lemmas density_defs = density_goto_def density_fail_def density_preamble_def density_reply_def density_request_def

lemma density_inv_step:
  assumes "density_inv g gb b" and "encode g = Inr gb" and "density_step b b'"
  shows "density_inv g gb b'"
  using assms(3,1,2)
  by cases (auto simp: density_defs density_inv_def Let_def list_all_iff list_ex_iff split: sum.splits)

lemma density_reach:
  assumes "encode g = Inr gb" and "rtranclp density_step (density_init g) b"
  shows "density_inv g gb b"
  using assms(2)
proof (induction rule: rtranclp_induct)
  case base
  then show ?case by (simp add: density_inv_def density_init_def)
next
  case (step b b')
  then show ?case using density_inv_step assms(1) by blast
qed

section \<open>Properties\<close>

text \<open>
  The brokers read the preamble of a connection up to its newline, in whatever chunks it
  arrives, and leave the request behind it unread.
\<close>

lemma read_line_exact:
  assumes "prompt s" and "pending s = l @ 10 # rest" and "10 \<notin> set l"
  shows "\<exists>s'. read_line s = Some (Inr (l @ [10]), s') \<and> pending s' = rest"
  using read_line_loop [OF assms, of "[]"] by (simp add: read_line_def)

text \<open>A broker that served one request: connection 0 parks it, connection 1 resumes it.\<close>

lemma decode_blit: "\<forall>c \<in> set s. of_char c < (128 :: nat) \<Longrightarrow> decode (blit s) = lit s"
  by (induction s) (simp_all add: blit_def lit_def decode_ascii_Cons unat_byte)

lemma sample_preambles:
  "parse_preamble (blit ''NETHER-EGRESS v1 conn=1 resume=0'') = Inr (lit ''NETHER-EGRESS v1 conn=1 resume=0'', 1, False)"
  "parse_preamble (blit ''NETHER-EGRESS v1 conn=1 resume=1'') = Inr (lit ''NETHER-EGRESS v1 conn=1 resume=1'', 1, True)"
  by (simp_all add: parse_preamble_def decode_blit Let_def kv_of_def words_def strip_by_def is_space_def lit_def py_int_def
      digit_val_def digit_zeros_def)

lemma tag_of_sample: "tag_of (blit ''GET /alpha'') = Some (lit ''alpha'')"
  by (simp add: tag_of_def decode_blit TAGS_def lit_def)

lemma request_quick: "\<not> is_quick (blit ''GET /slow2'')"
  by (simp add: is_quick_def blit_def lit_def)

lemmas multi_eval = multi_defs multi_init_def sample_preambles tag_of_sample Let_def

definition multi_sample :: multi_broker where
  "multi_sample = multi_answer 1 1 (lit ''alpha'') (multi_record 1 1 (lit ''alpha'') (multi_lookup 1 1
     (multi_preamble 1 (blit ''NETHER-EGRESS v1 conn=1 resume=1'') (set_thread 1 Greet
     (multi_park 0 1 (lit ''alpha'') (multi_request 0 1 (blit ''GET /alpha'')
     (multi_preamble 0 (blit ''NETHER-EGRESS v1 conn=1 resume=0'') (set_thread 0 Greet multi_init))))))))"

lemma multi_sample_reach: "multi_step\<^sup>*\<^sup>* multi_init multi_sample"
proof -
  note step = rtranclp.rtrancl_into_rtrancl [where r = multi_step]
  let ?b1 = "set_thread 0 Greet multi_init"
  let ?b2 = "multi_preamble 0 (blit ''NETHER-EGRESS v1 conn=1 resume=0'') ?b1"
  let ?b3 = "multi_request 0 1 (blit ''GET /alpha'') ?b2"
  let ?b4 = "multi_park 0 1 (lit ''alpha'') ?b3"
  let ?b5 = "set_thread 1 Greet ?b4"
  let ?b6 = "multi_preamble 1 (blit ''NETHER-EGRESS v1 conn=1 resume=1'') ?b5"
  let ?b7 = "multi_lookup 1 1 ?b6"
  have 1: "multi_step\<^sup>*\<^sup>* multi_init ?b1" by (rule r_into_rtranclp, rule multi_step.accept) (simp add: multi_eval)
  have 2: "multi_step\<^sup>*\<^sup>* multi_init ?b2" by (rule step [OF 1 multi_step.preamble]) (simp add: multi_eval)
  have 3: "multi_step\<^sup>*\<^sup>* multi_init ?b3" by (rule step [OF 2 multi_step.request]) (simp add: multi_eval)
  have 4: "multi_step\<^sup>*\<^sup>* multi_init ?b4" by (rule step [OF 3 multi_step.park]) (simp add: multi_eval)
  have 5: "multi_step\<^sup>*\<^sup>* multi_init ?b5" by (rule step [OF 4 multi_step.accept]) (simp add: multi_eval)
  have 6: "multi_step\<^sup>*\<^sup>* multi_init ?b6" by (rule step [OF 5 multi_step.preamble]) (simp add: multi_eval)
  have 7: "multi_step\<^sup>*\<^sup>* multi_init ?b7" by (rule step [OF 6 multi_step.look_up]) (simp add: multi_eval)
  have 8: "multi_step\<^sup>*\<^sup>* multi_init (multi_record 1 1 (lit ''alpha'') ?b7)"
    by (rule step [OF 7 multi_step.record_tag]) (simp add: multi_eval)
  show ?thesis unfolding multi_sample_def by (rule step [OF 8 multi_step.answer]) (simp add: multi_eval)
qed

text \<open>
  C6: in every interleaving of the connections of \<open>park_multi_proof.py\<close>'s broker, whatever bytes
  they send and whichever of them fail, a reply sent to a connection id that asked for one thing
  carries the tag of that request: no reply goes to another connection.
\<close>

theorem multi_own_reply:
  assumes "multi_step\<^sup>*\<^sup>* multi_init b" and "Answered c cid p \<in> set (events b)"
    and "Asked c1 cid q1 \<in> set (events b)"
    and "\<forall>c2 q2. Asked c2 cid q2 \<in> set (events b) \<longrightarrow> q2 = q1"
  shows "map_option tag_reply (tag_of q1) = Some p"
  by (rule multi.own_reply [OF assms])

theorem multi_own_reply_witness:
  "Answered 1 1 (blit ''REPLY-FOR-alpha'' @ [10]) \<in> set (events multi_sample) \<and>
   map_option tag_reply (tag_of (blit ''GET /alpha'')) = Some (blit ''REPLY-FOR-alpha'' @ [10])"
proof -
  have ev: "events multi_sample = [Asked 0 1 (blit ''GET /alpha''), Answered 1 1 (blit ''REPLY-FOR-alpha'' @ [10])]"
  proof -
    have "tag_reply (lit ''alpha'') = blit ''REPLY-FOR-alpha'' @ [10]" by (simp add: tag_reply_def blit_def lit_def)
    then show ?thesis by (simp add: multi_sample_def multi_eval)
  qed
  have "map_option tag_reply (tag_of (blit ''GET /alpha'')) = Some (blit ''REPLY-FOR-alpha'' @ [10])"
    by (rule multi_own_reply [OF multi_sample_reach, of 1 1 _ 0]) (simp_all add: ev)
  then show ?thesis by (simp only: ev list.set) simp
qed

lemmas await_eval = await_defs await_init_def sample_preambles request_quick Let_def

definition await_sample :: await_broker where
  "await_sample = await_reply 1 1 (resume_reply (blit ''GET /slow2'')) (await_lookup 1 1
     (await_preamble 1 (blit ''NETHER-EGRESS v1 conn=1 resume=1'') (goto 1 ReadPreamble
     (await_park 0 1 (blit ''GET /slow2'') (await_request 0 1 (blit ''GET /slow2'')
     (await_preamble 0 (blit ''NETHER-EGRESS v1 conn=1 resume=0'') (goto 0 ReadPreamble await_init)))))))"

lemma await_sample_reach: "await_step\<^sup>*\<^sup>* await_init await_sample"
proof -
  note step = rtranclp.rtrancl_into_rtrancl [where r = await_step]
  let ?b1 = "goto 0 ReadPreamble await_init"
  let ?b2 = "await_preamble 0 (blit ''NETHER-EGRESS v1 conn=1 resume=0'') ?b1"
  let ?b3 = "await_request 0 1 (blit ''GET /slow2'') ?b2"
  let ?b4 = "await_park 0 1 (blit ''GET /slow2'') ?b3"
  let ?b5 = "goto 1 ReadPreamble ?b4"
  let ?b6 = "await_preamble 1 (blit ''NETHER-EGRESS v1 conn=1 resume=1'') ?b5"
  have v1: "prefix (lit ''NETHER-EGRESS v1'') (lit ''NETHER-EGRESS v1 conn=1 resume=0'')"
    "prefix (lit ''NETHER-EGRESS v1'') (lit ''NETHER-EGRESS v1 conn=1 resume=1'')" by (simp_all add: lit_def)
  have 1: "await_step\<^sup>*\<^sup>* await_init ?b1" by (rule r_into_rtranclp, rule await_step.accept) (simp add: await_eval)
  have 2: "await_step\<^sup>*\<^sup>* await_init ?b2" by (rule step [OF 1 await_step.preamble]) (simp add: await_eval)
  have 3: "await_step\<^sup>*\<^sup>* await_init ?b3" by (rule step [OF 2 await_step.request]) (simp add: await_eval v1)
  have 4: "await_step\<^sup>*\<^sup>* await_init ?b4" by (rule step [OF 3 await_step.park]) (simp add: await_eval v1)
  have 5: "await_step\<^sup>*\<^sup>* await_init ?b5" by (rule step [OF 4 await_step.accept]) (simp add: await_eval v1)
  have 6: "await_step\<^sup>*\<^sup>* await_init ?b6" by (rule step [OF 5 await_step.preamble]) (simp add: await_eval v1)
  have 7: "await_step\<^sup>*\<^sup>* await_init (await_lookup 1 1 ?b6)"
    by (rule step [OF 6 await_step.look_up]) (simp add: await_eval v1)
  show ?thesis unfolding await_sample_def by (rule step [OF 7 await_step.send_reply]) (simp add: await_eval v1)
qed

text \<open>
  C16: in every run of \<open>park_await_proof.py\<close>'s broker, a reply was preceded by a request with the
  same connection id, and is the one that request deserves: the instant reply for \<open>/quick\<close>, the
  second nonce for \<open>/slow2\<close>, the first nonce otherwise.
\<close>

theorem await_reply_asked:
  assumes "await_step\<^sup>*\<^sup>* await_init b" and "await_events b = l1 @ Answered c cid p # l2"
  shows "\<exists>c' q. Asked c' cid q \<in> set l1 \<and> p = (if is_quick q then quick_reply else resume_reply q)"
proof -
  obtain c' q where "Asked c' cid q \<in> set l1" "await_answer q = Some p" using await.answered_asked [OF assms] by blast
  then show ?thesis by (intro exI [of _ c'] exI [of _ q]) (simp add: await_answer_def)
qed

theorem await_reply_asked_witness:
  "\<exists>c' q. Asked c' 1 q \<in> {Asked 0 1 (blit ''GET /slow2'')} \<and>
     resume_reply (blit ''GET /slow2'') = (if is_quick q then quick_reply else resume_reply q)"
proof -
  have "prefix (lit ''NETHER-EGRESS v1'') (lit ''NETHER-EGRESS v1 conn=1 resume=0'')"
    "prefix (lit ''NETHER-EGRESS v1'') (lit ''NETHER-EGRESS v1 conn=1 resume=1'')" by (simp_all add: lit_def)
  then have "await_events await_sample = [Asked 0 1 (blit ''GET /slow2'')] @ Answered 1 1 (resume_reply (blit ''GET /slow2'')) # []"
    by (simp add: await_sample_def await_eval)
  from await_reply_asked [OF await_sample_reach this] show ?thesis by simp
qed

text \<open>
  C38: the broker of \<open>park_density_proof.py\<close> reports a parked request exactly when a request with
  its VM's tag has come in, keeps an error for every request without it, and only ever sends its
  own VM's reply.
\<close>

theorem density_sound:
  assumes "encode g = Inr gb" and "density_step\<^sup>*\<^sup>* (density_init g) b"
  shows "(was_parked b \<longleftrightarrow> (\<exists>q \<in> set (requests b). contains gb q)) \<and>
    {q \<in> set (requests b). \<not> contains gb q} \<subseteq> {q. WrongTag q \<in> set (density_errors b)} \<and>
    set (replies b) \<subseteq> {p. encode (lit ''REPLY-FOR-'' @ g @ [10]) = Inr p}"
  using density_reach [OF assms] by (auto simp: density_inv_def list_all_iff list_ex_iff)

theorem density_sound_witness:
  "let b = density_request 0 (blit ''GET /vm0'') (density_preamble 0 (blit ''conn=1 resume=0'')
         (density_goto 0 DPreamble (density_init (lit ''vm0'')))) in
   was_parked b \<and> requests b = [blit ''GET /vm0''] \<and> contains (blit ''vm0'') (blit ''GET /vm0'')"
proof -
  note step = rtranclp.rtrancl_into_rtrancl [where r = density_step]
  let ?b0 = "density_init (lit ''vm0'')"
  let ?b1 = "density_goto 0 DPreamble ?b0"
  let ?b2 = "density_preamble 0 (blit ''conn=1 resume=0'') ?b1"
  let ?b3 = "density_request 0 (blit ''GET /vm0'') ?b2"
  have e: "encode (lit ''vm0'') = Inr (blit ''vm0'')" by (simp add: encode_def lit_def blit_def utf8_char_def is_scalar_def)
  have c: "contains (blit ''vm0'') (blit ''GET /vm0'')" by (simp add: blit_def lit_def)
  have "\<not> contains (lit ''resume=1'') (strip (lit ''conn=1 resume=0''))" by (simp add: strip_by_def is_space_def lit_def)
  note eval = density_defs density_init_def decode_blit this e c Let_def
  have 1: "density_step\<^sup>*\<^sup>* ?b0 ?b1" by (rule r_into_rtranclp, rule density_step.accept) (simp add: density_init_def)
  have 2: "density_step\<^sup>*\<^sup>* ?b0 ?b2" by (rule step [OF 1 density_step.preamble]) (simp add: density_goto_def)
  have 3: "density_step\<^sup>*\<^sup>* ?b0 ?b3" by (rule step [OF 2 density_step.request]) (simp add: eval)
  have "requests ?b3 = [blit ''GET /vm0'']" by (simp add: eval)
  with density_sound [OF e 3] c show ?thesis by (simp add: Let_def)
qed

end
