(* ===== verification/Parks.thy ===== *)
theory Parks
  imports Forks Broker
begin

text \<open>
  The live runs of \<open>scripts/park_multi_proof.py\<close> and \<open>scripts/park_await_proof.py\<close>: a guest waits for an
  upstream, the VM is parked and ends, and a VM woken from the park answers with what the upstream sent.  The
  scripts play the platform: they own the broker of theory \<open>Broker\<close>, whose threads run beside \<open>main\<close>.  What
  \<open>main\<close> sees of the broker at a moment is the parameter \<open>watch\<close>; the threads may run before each look.
\<close>

section \<open>What the park proofs share\<close>

text \<open>\<open>if os.path.exists(path): os.unlink(path)\<close>, then \<open>bind\<close> and \<open>listen\<close>; an address has room for 103 bytes.\<close>

definition SUN_PATH_MAX :: nat where
  "SUN_PATH_MAX = 104"

definition bind_path :: "env \<Rightarrow> pystr \<Rightarrow> unit sys" where
  "bind_path E p w =
     (let q = full E p in
      case encode p of
        Inl e \<Rightarrow> Some (Inl e, w)
      | Inr b \<Rightarrow>
          if SUN_PATH_MAX \<le> length b \<or> node_at (fs w) q \<noteq> None \<or> \<not> parent_ok (fs w) q \<or> denied w Wr q
          then Some (Inl OSError, w)
          else Some (Inr (), w\<lparr>fs := fs_put q (SockFile (clock w)) (fs w)\<rparr>))"

definition listen_at :: "env \<Rightarrow> pystr \<Rightarrow> unit sys" where
  "listen_at E p = seq (bind (path_exists E p) (\<lambda>x. when_io x (os_remove E p))) (bind_path E p)"

text \<open>A look at what the broker's threads share.\<close>

definition look :: "env \<Rightarrow> (world \<Rightarrow> 'b) \<Rightarrow> 'b sys" where
  "look E watch = seq (sleep E 0) (get watch)"

text \<open>\<open>while not <ok> and time.time() - t0 < to: time.sleep(0.0003)\<close>\<close>

definition wait_until :: "env \<Rightarrow> nat \<Rightarrow> nat \<Rightarrow> bool sys \<Rightarrow> unit sys" where
  "wait_until E t0 to ok =
     iterate (\<lambda>_.
       bind ok (\<lambda>x.
       if x then ret (Inr ())
       else
         bind time_time (\<lambda>t.
         if t - t0 < to then seq (sleep E 300) (ret (Inl ())) else ret (Inr ())))) ()"

definition park_cat :: "env \<Rightarrow> nat \<Rightarrow> pystr \<Rightarrow> pystr sys" where
  "park_cat E s path =
     bind (guest_cmd E s (lit ''cat '' @ path @ lit '' 2>/dev/null; echo'') (seconds 8)) (\<lambda>r. ret (strip r))"

text \<open>The control socket of the base, once its agent answers, and when the wait for it began.\<close>

definition park_reach :: "env \<Rightarrow> pystr \<Rightarrow> (nat \<times> nat) sys" where
  "park_reach E csk =
     bind time_time (\<lambda>t0.
     seq (wait_path E csk t0 (seconds 40) 300) (
     bind (uconn E csk (seconds 30)) (\<lambda>s.
     seq (retry E 120 (bind (guest_cmd E s (lit ''echo ready'') (seconds 5)) (\<lambda>r. ret (contains (lit ''ready'') r)))) (
     ret (t0, s)))))"

definition park_conf :: "pystr \<Rightarrow> pystr" where
  "park_conf esock =
     lit ''control_socket=c.sock'' @ [10] @ lit ''egress_socket='' @ esock @ [10] @ lit ''egress_port=9090'' @ [10] @
     lit ''ram_mb=512'' @ [10] @ lit ''cpus=2'' @ [10]"

definition wake_conf :: "pystr \<Rightarrow> pystr \<Rightarrow> pystr \<Rightarrow> pystr" where
  "wake_conf snap sockname esock =
     lit ''restore=1'' @ [10] @ lit ''restore_from='' @ snap @ [10] @ lit ''control_socket='' @ sockname @ [10] @
     lit ''egress_socket='' @ esock @ [10]"

definition park_vm :: "env \<Rightarrow> nat \<Rightarrow> string \<Rightarrow> pystr sys" where
  "park_vm E s name = guest_cmd E s (lit ''__park__ '' @ lit name) (seconds 90)"

definition not_parked :: "pystr \<Rightarrow> string list" where
  "not_parked rep = (if prefix (lit ''OK parked'') rep then [] else [''park failed''])"

text \<open>\<open>try: if p.wait(timeout=10) != 0: ...  except subprocess.TimeoutExpired: ...; p.kill()\<close>\<close>

definition self_exit :: "env \<Rightarrow> reaper \<Rightarrow> nat \<Rightarrow> string list sys" where
  "self_exit E reaper p =
     try_except (bind (wait_exit E reaper p) (\<lambda>rc. ret (if rc \<noteq> 0 then [''park exit''] else [])))
       (\<lambda>e. e = TimeoutExpired) (\<lambda>_. seq (send_signal p SIGKILL) (ret [''no self-exit'']))"

text \<open>The woken VM's control socket, at most 30 s after \<open>t0\<close>.\<close>

definition wake_reach :: "env \<Rightarrow> pystr \<Rightarrow> nat \<Rightarrow> nat sys" where
  "wake_reach E sk t0 = seq (wait_path E sk t0 (seconds 30) 300) (uconn E sk (seconds 30))"

definition park_bye :: "env \<Rightarrow> nat \<Rightarrow> unit sys" where
  "park_bye E s = swallow (guest_cmd E s (lit ''__shutdown__'') (seconds 5))"

text \<open>The directories, the configuration and the broker's socket: the base, the fork, the socket.\<close>

definition park_setup :: "env \<Rightarrow> pystr \<Rightarrow> unit sys" where
  "park_setup E WORK =
     (let base = join WORK (lit ''b'') in
      seq (rmtree E WORK) (
      seq (makedirs E base False) (
      seq (makedirs E (join WORK (lit ''f'')) False) (
      seq (symlink E (NB E @ lit ''/kernels'') (join base (lit ''kernels''))) (
      seq (write_text E (join base (lit ''nether.conf'')) (park_conf (join WORK (lit ''e.sock'')))) (
      listen_at E (join WORK (lit ''e.sock''))))))))"

section \<open>\<open>park_multi_proof.py\<close>\<close>

definition REQ4 :: pystr where
  "REQ4 =
     lit ''python3 -c '' @ [34] @ lit ''import socket as k,threading as t;go=lambda g:(lambda s:(s.sendall(('' @ [39] @
     lit ''GET /'' @ [39] @ lit ''+g+'' @ [39, 92] @ lit ''n'' @ [39] @ lit '').encode()),open('' @ [39] @
     lit ''/tmp/r-'' @ [39] @ lit ''+g,'' @ [39] @ lit ''wb'' @ [39] @
     lit '').write(s.recv(65536))))(k.create_connection(('' @ [39] @ lit ''127.0.0.1'' @ [39] @
     lit '',9090)));ts=[t.Thread(target=go,args=(g,)) for g in ['' @ [39] @
     lit ''alpha'' @ [39, 44, 39] @ lit ''bravo'' @ [39, 44, 39] @ lit ''charlie'' @ [39, 44, 39] @ lit ''delta'' @
     [39] @ lit '']];[x.start() for x in ts];[x.join() for x in ts];print('' @ [39] @ lit ''all-done'' @ [39] @
     lit '')'' @ [34] @ lit '' >/tmp/req.log 2>&1 &''"

text \<open>Four requests in flight; \<open>None\<close> is the \<open>raise SystemExit\<close>.\<close>

definition multi_drive :: "env \<Rightarrow> (world \<Rightarrow> multi_broker) \<Rightarrow> nat \<Rightarrow> string list option sys" where
  "multi_drive E watch s =
     seq (guest_cmd E s REQ4 (seconds 15)) (
     bind time_time (\<lambda>t0.
     seq (wait_until E t0 (seconds 20) (bind (look E watch) (\<lambda>b. ret (length TAGS \<le> length (parked b))))) (
     bind (look E watch) (\<lambda>b.
     if length (parked b) < length TAGS then ret None
     else
       bind (look E watch) (\<lambda>b.
       seq (sleep E (seconds 1)) (
       ret (Some (if card (set (map snd (parked b))) \<noteq> length TAGS then [''tag collision''] else []))))))))"

text \<open>The replies the guest has written so far; then until all four are there.\<close>

fun collect_replies :: "env \<Rightarrow> nat \<Rightarrow> pystr list \<Rightarrow> (pystr \<times> pystr) list \<Rightarrow> (pystr \<times> pystr) list sys" where
  "collect_replies E s [] got = ret got"
| "collect_replies E s (g # gs) got =
     (if g \<in> set (map fst got) then collect_replies E s gs got
      else bind (park_cat E s (lit ''/tmp/r-'' @ g)) (\<lambda>v. collect_replies E s gs (if v = [] then got else got @ [(g, v)])))"

definition gather :: "env \<Rightarrow> nat \<Rightarrow> nat \<Rightarrow> (pystr \<times> pystr) list sys" where
  "gather E s t0 =
     iterate (\<lambda>got.
       bind time_time (\<lambda>t.
       if t - t0 < seconds 30 \<and> length got < length TAGS
       then bind (collect_replies E s TAGS got) (\<lambda>got. seq (sleep E 300) (ret (Inl got)))
       else ret (Inr got))) []"

definition mixups :: "(pystr \<times> pystr) list \<Rightarrow> string list" where
  "mixups got =
     concat (map (\<lambda>g. if map_of got g \<noteq> Some (lit ''REPLY-FOR-'' @ g) then [''conn mixup''] else []) TAGS)"

definition multi_wake :: "env \<Rightarrow> pystr \<Rightarrow> nat \<Rightarrow> string list sys" where
  "multi_wake E fork t0 =
     bind (wake_reach E (join fork (lit ''f.sock'')) t0) (\<lambda>s.
     bind (gather E s t0) (\<lambda>got.
     bind (read_log E (join fork (lit ''fork.log''))) (\<lambda>flog.
     bind (park_cat E s (lit ''/tmp/req.log'')) (\<lambda>req_log.
     seq (park_bye E s) (
     ret ((if contains (lit ''revived 4/4'') flog then [] else [''not all revived'']) @ mixups got @
          (if contains (lit ''all-done'') req_log then [] else [''requester did not finish''])))))))"

definition multi_body :: "env \<Rightarrow> reaper \<Rightarrow> (world \<Rightarrow> multi_broker) \<Rightarrow> pystr \<Rightarrow> string list harness" where
  "multi_body E reaper watch WORK =
     (let base = join WORK (lit ''b''); fork = join WORK (lit ''f'') in
      bind (boot E base (lit ''boot.log'')) (\<lambda>bp.
      bind (on_world (park_reach E (join base (lit ''c.sock'')))) (\<lambda>(t0, s).
      bind (on_world (multi_drive E watch s)) (\<lambda>driven.
      case driven of
        None \<Rightarrow> ret [''conns not parked'']
      | Some f1 \<Rightarrow>
          bind (on_world (park_vm E s ''multi.snap'')) (\<lambda>rep.
          bind (on_world (self_exit E reaper bp)) (\<lambda>f2.
          seq (on_world (write_text E (join fork (lit ''nether.conf''))
                 (wake_conf (join base (lit ''multi.snap'')) (lit ''f.sock'') (join WORK (lit ''e.sock''))))) (
          bind (on_world time_time) (\<lambda>t_r.
          bind (boot E fork (lit ''fork.log'')) (\<lambda>fp.
          bind (on_world (multi_wake E fork t_r)) (\<lambda>f3.
          ret (f1 @ not_parked rep @ f2 @ f3)))))))))))"

definition multi_main :: "env \<Rightarrow> reaper \<Rightarrow> (world \<Rightarrow> multi_broker) \<Rightarrow> int sys" where
  "multi_main E reaper watch =
     bind (path_exists E (BIN E)) (\<lambda>b.
     if \<not> b then ret 1
     else
       let WORK = or_default (environ E (lit ''NETHER_WORK'')) (lit ''/tmp/npkm'') in
       seq (park_setup E WORK) (
       bind (with_procs E 400000 (multi_body E reaper watch WORK)) (\<lambda>fails.
       bind (look E watch) (\<lambda>b.
       ret (if fails = [] \<and> errors b = [] then 0 else 1)))))"

section \<open>\<open>park_await_proof.py\<close>\<close>

text \<open>A request of the guest to the egress port; the reply goes to a file.\<close>

definition guest_request :: "pystr \<Rightarrow> pystr \<Rightarrow> pystr \<Rightarrow> pystr" where
  "guest_request path out rest =
     lit ''python3 -c '' @ [34] @ lit ''import socket;s=socket.create_connection(('' @ [39] @ lit ''127.0.0.1'' @ [39] @
     lit '',9090));s.sendall(b'' @ [39] @ lit ''GET /'' @ path @ [92] @ lit ''n'' @ [39] @ lit '');d=s.recv(65536);open('' @
     [39] @ out @ [39] @ lit '','' @ [39] @ lit ''wb'' @ [39] @ lit '').write(d)'' @ rest"

definition then_done :: "pystr \<Rightarrow> pystr" where
  "then_done reqlog =
     lit '';print('' @ [39] @ lit ''done'' @ [39] @ lit '')'' @ [34] @ lit '' >'' @ reqlog @ lit '' 2>&1 &''"

definition QUICK :: pystr where
  "QUICK = guest_request (lit ''quick'') (lit ''/tmp/quick'') ([34] @ lit '' >/tmp/q.log 2>&1'')"

definition SLOW :: pystr where
  "SLOW = guest_request (lit ''slow'') (lit ''/tmp/reply'') (then_done (lit ''/tmp/req.log''))"

definition SLOW2 :: pystr where
  "SLOW2 = guest_request (lit ''slow2'') (lit ''/tmp/reply2'') (then_done (lit ''/tmp/req2.log''))"

text \<open>Steps 1 and 2: the egress plane is on and a request makes the round trip.\<close>

definition await_sanity :: "env \<Rightarrow> nat \<Rightarrow> string list sys" where
  "await_sanity E s =
     bind (guest_cmd E s (lit ''__info__'') (seconds 5)) (\<lambda>info.
     let eg = filter (prefix (lit ''egress_plane='')) (splitlines info) in
     seq (guest_cmd E s QUICK (seconds 20)) (
     bind (park_cat E s (lit ''/tmp/quick'')) (\<lambda>q.
     ret ((if eg = [] \<or> hd eg \<noteq> lit ''egress_plane=on'' then [''egress plane not advertised''] else []) @
          (if contains (lit ''quick-ok'') q then [] else [''round trip failed''])))))"

text \<open>Step 3: the slow request; \<open>None\<close> is the \<open>raise SystemExit\<close>, otherwise the first connection that holds one.\<close>

definition await_drive :: "env \<Rightarrow> (world \<Rightarrow> await_broker) \<Rightarrow> nat \<Rightarrow> int option sys" where
  "await_drive E watch s =
     seq (guest_cmd E s SLOW (seconds 10)) (
     bind time_time (\<lambda>t0.
     seq (wait_until E t0 (seconds 15) (bind (look E watch) (\<lambda>b. ret (fresh b \<noteq> [])))) (
     bind (look E watch) (\<lambda>b.
     if fresh b = [] then ret None
     else
       bind (look E watch) (\<lambda>b.
       case filter (\<lambda>(k, q). contains (blit ''/slow'') q) (fresh b) of
         [] \<Rightarrow> raise IndexError
       | (k, q) # _ \<Rightarrow>
           seq (park_cat E s (lit ''/tmp/reply'')) (
           seq (sleep E (seconds 1)) (ret (Some k))))))))"

text \<open>Step 4: the park, its bill and its log.\<close>

definition await_bill :: "pystr \<Rightarrow> string list" where
  "await_bill rep = not_parked rep @ (if contains (lit ''uptime_ms='') rep then [] else [''no bill''])"

definition await_park_log :: "env \<Rightarrow> pystr \<Rightarrow> string list sys" where
  "await_park_log E base =
     bind (read_log E (join base (lit ''boot.log''))) (\<lambda>blog.
     ret ((if contains (lit ''(reason=park)'') blog then [] else [''no teardown record'']) @
          (if contains (lit ''guest left quiesced'') blog then [] else [''no park line''])))"

text \<open>\<open>while time.time() - t0 < 25: got = cat(...); if <nonce> in got: break; time.sleep(0.0003)\<close>\<close>

definition fetch :: "env \<Rightarrow> nat \<Rightarrow> pystr \<Rightarrow> pystr \<Rightarrow> nat \<Rightarrow> pystr sys" where
  "fetch E s path nonce t0 =
     iterate (\<lambda>got.
       bind time_time (\<lambda>t.
       if \<not> t - t0 < seconds 25 then ret (Inr got)
       else
         bind (park_cat E s path) (\<lambda>got.
         if contains nonce got then ret (Inr got) else seq (sleep E 300) (ret (Inl got))))) []"

text \<open>Step 6: the woken fork completes the guest's \<open>recv\<close>.\<close>

definition await_wake :: "env \<Rightarrow> (world \<Rightarrow> await_broker) \<Rightarrow> pystr \<Rightarrow> pystr \<Rightarrow> int \<Rightarrow> nat \<Rightarrow> (nat \<times> string list) sys" where
  "await_wake E watch fork snap cid t0 =
     bind (wake_reach E (join fork (lit ''f.sock'')) t0) (\<lambda>s.
     bind (fetch E s (lit ''/tmp/reply'') (decode NONCE) t0) (\<lambda>got.
     bind (look E watch) (\<lambda>b.
     bind (read_log E (join fork (lit ''fork.log''))) (\<lambda>flog.
     seq (park_cat E s (lit ''/tmp/req.log'')) (
     bind (path_exists E snap) (\<lambda>x.
     ret (s, (if contains (decode NONCE) got then [] else [''reply not delivered'']) @
             (if cid \<in> resumed_ids b then [] else [''no resume seen'']) @
             (if contains (lit ''park consumed'') flog then [] else [''no consumed line'']) @
             (if x then [''park not consumed''] else []))))))))"

text \<open>Step 7: a second wake of the same park.  Its VM is not noted in \<open>procs\<close>: it is waited for, or killed.\<close>

definition second_wake :: "env \<Rightarrow> reaper \<Rightarrow> pystr \<Rightarrow> pystr \<Rightarrow> pystr \<Rightarrow> string list sys" where
  "second_wake E reaper fork2 snap esock =
     seq (makedirs E fork2 False) (
     seq (write_text E (join fork2 (lit ''nether.conf'')) (wake_conf snap (lit ''f2.sock'') esock)) (
     bind (launch E fork2 (lit ''fork2.log'')) (\<lambda>f2.
     bind (try_except (bind (wait_exit E reaper f2) (\<lambda>rc. ret (Some rc))) (\<lambda>e. e = TimeoutExpired)
             (\<lambda>_. seq (send_signal f2 SIGKILL) (ret None))) (\<lambda>rc2.
     bind (read_log E (join fork2 (lit ''fork2.log''))) (\<lambda>f2log.
     ret (if rc2 \<noteq> None \<and> rc2 \<noteq> Some 0 \<and> contains (lit ''cannot open'') f2log then [] else [''second wake not refused'']))))))"

text \<open>Step 8, the second generation: another slow request in the woken fork; \<open>False\<close> is the \<open>raise SystemExit\<close>.\<close>

definition has_slow2 :: "await_broker \<Rightarrow> bool" where
  "has_slow2 b \<longleftrightarrow> list_ex (contains (blit ''/slow2'')) (map snd (fresh b))"

definition await_again :: "env \<Rightarrow> (world \<Rightarrow> await_broker) \<Rightarrow> nat \<Rightarrow> bool sys" where
  "await_again E watch s =
     seq (guest_cmd E s SLOW2 (seconds 10)) (
     bind time_time (\<lambda>t0.
     seq (wait_until E t0 (seconds 15) (bind (look E watch) (\<lambda>b. ret (has_slow2 b)))) (
     bind (look E watch) (\<lambda>b.
     if \<not> has_slow2 b then ret False else seq (sleep E (seconds 1)) (ret True)))))"

definition await_wake2 :: "env \<Rightarrow> pystr \<Rightarrow> pystr \<Rightarrow> nat \<Rightarrow> string list sys" where
  "await_wake2 E fork3 snap2 t0 =
     bind (wake_reach E (join fork3 (lit ''f3.sock'')) t0) (\<lambda>s.
     bind (fetch E s (lit ''/tmp/reply2'') (decode NONCE2) t0) (\<lambda>got2.
     bind (park_cat E s (lit ''/tmp/reply'')) (\<lambda>got1.
     bind (path_exists E snap2) (\<lambda>x.
     seq (park_bye E s) (
     ret ((if contains (decode NONCE2) got2 then [] else [''second reply not delivered'']) @
          (if contains (decode NONCE) got1 then [] else [''first reply lost'']) @
          (if x then [''second park not consumed''] else [])))))))"

definition await_gen2 :: "env \<Rightarrow> reaper \<Rightarrow> (world \<Rightarrow> await_broker) \<Rightarrow> pystr \<Rightarrow> nat \<Rightarrow> nat \<Rightarrow> string list harness" where
  "await_gen2 E reaper watch WORK fp s =
     (let fork3 = join WORK (lit ''f3''); snap2 = join (join WORK (lit ''f'')) (lit ''park2.snap'') in
      bind (on_world (await_again E watch s)) (\<lambda>there.
      if \<not> there then ret [''second request not seen'']
      else
        bind (on_world (park_vm E s ''park2.snap'')) (\<lambda>rep.
        bind (on_world (self_exit E reaper fp)) (\<lambda>f1.
        seq (on_world (makedirs E fork3 False)) (
        seq (on_world (write_text E (join fork3 (lit ''nether.conf''))
               (wake_conf snap2 (lit ''f3.sock'') (join WORK (lit ''e.sock''))))) (
        bind (on_world time_time) (\<lambda>t_r.
        bind (boot E fork3 (lit ''fork3.log'')) (\<lambda>f3.
        bind (on_world (await_wake2 E fork3 snap2 t_r)) (\<lambda>f2.
        ret (not_parked rep @ f1 @ f2))))))))))"

definition await_rest :: "env \<Rightarrow> reaper \<Rightarrow> (world \<Rightarrow> await_broker) \<Rightarrow> pystr \<Rightarrow> int \<Rightarrow> string list harness" where
  "await_rest E reaper watch WORK cid =
     (let fork = join WORK (lit ''f''); snap = join (join WORK (lit ''b'')) (lit ''park.snap''); esock = join WORK (lit ''e.sock'') in
      seq (on_world (sleep E (seconds 2))) (
      seq (on_world (write_text E (join fork (lit ''nether.conf'')) (wake_conf snap (lit ''f.sock'') esock))) (
      bind (on_world time_time) (\<lambda>t_r.
      bind (boot E fork (lit ''fork.log'')) (\<lambda>fp.
      bind (on_world (await_wake E watch fork snap cid t_r)) (\<lambda>(s, f1).
      bind (on_world (second_wake E reaper (join WORK (lit ''f2'')) snap esock)) (\<lambda>f2.
      bind (await_gen2 E reaper watch WORK fp s) (\<lambda>f3. ret (f1 @ f2 @ f3)))))))))"

definition await_body :: "env \<Rightarrow> reaper \<Rightarrow> (world \<Rightarrow> await_broker) \<Rightarrow> pystr \<Rightarrow> string list harness" where
  "await_body E reaper watch WORK =
     (let base = join WORK (lit ''b'') in
      bind (boot E base (lit ''boot.log'')) (\<lambda>bp.
      bind (on_world (park_reach E (join base (lit ''c.sock'')))) (\<lambda>(t0, s).
      bind (on_world (await_sanity E s)) (\<lambda>f1.
      bind (on_world (await_drive E watch s)) (\<lambda>driven.
      case driven of
        None \<Rightarrow> ret (f1 @ [''slow request not seen''])
      | Some cid \<Rightarrow>
          bind (on_world (park_vm E s ''park.snap'')) (\<lambda>rep.
          bind (on_world (self_exit E reaper bp)) (\<lambda>f2.
          bind (on_world (await_park_log E base)) (\<lambda>f3.
          bind (await_rest E reaper watch WORK cid) (\<lambda>f4.
          ret (f1 @ await_bill rep @ f2 @ f3 @ f4))))))))))"

definition await_main :: "env \<Rightarrow> reaper \<Rightarrow> (world \<Rightarrow> await_broker) \<Rightarrow> int sys" where
  "await_main E reaper watch =
     bind (path_exists E (BIN E)) (\<lambda>b.
     if \<not> b then ret 1
     else
       let WORK = or_default (environ E (lit ''NETHER_WORK'')) (lit ''/tmp/npk'') in
       seq (park_setup E WORK) (
       bind (with_procs E 400000 (await_body E reaper watch WORK)) (\<lambda>fails.
       bind (look E watch) (\<lambda>b.
       ret (if fails = [] \<and> await_errors b = [] then 0 else 1)))))"

section \<open>What they leave running\<close>

lemma on_world_bind: "on_world (bind m f) = bind (on_world m) (\<lambda>a. on_world (f a))"
  by (rule ext) (auto simp: on_world_def bind_def split: option.splits sum.splits prod.splits)

lemma calm_look: "calm (look E watch)"
  unfolding look_def by (intro calm_entropy)

lemma calm_bind_path: "calm (bind_path E p)"
  by (auto simp: calm_def keeps_def bind_path_def Let_def split: sum.splits if_splits)

lemma calm_park_setup: "calm (park_setup E WORK)"
  unfolding park_setup_def listen_at_def Let_def by (intro calm_entropy calm_bind_path)

lemma calm_wait_until: "calm ok \<Longrightarrow> calm (wait_until E t0 to ok)"
  unfolding wait_until_def by (intro calm_entropy)

lemma calm_park_cat: "calm (park_cat E s path)"
  unfolding park_cat_def by (intro calm_entropy calm_guest_cmd)

lemma calm_park_vm: "calm (park_vm E s name)"
  unfolding park_vm_def by (rule calm_guest_cmd)

lemma calm_park_bye: "calm (park_bye E s)"
  unfolding park_bye_def by (intro calm_entropy calm_guest_cmd)

lemma calm_park_reach: "calm (park_reach E csk)"
  unfolding park_reach_def by (intro calm_entropy calm_guest_cmd calm_retry)

lemma calm_wake_reach: "calm (wake_reach E sk t0)"
  unfolding wake_reach_def by (intro calm_entropy)

lemmas calm_park = calm_entropy calm_look calm_wait_until calm_guest_cmd calm_park_cat calm_park_vm calm_park_bye
  calm_park_reach calm_wake_reach

lemma calm_collect_replies: "calm (collect_replies E s gs got)"
  by (induction E s gs got rule: collect_replies.induct) (auto intro!: calm_park)

lemma calm_multi: "calm (multi_drive E watch s)" "calm (multi_wake E fork t0)"
  unfolding multi_drive_def multi_wake_def gather_def by (intro calm_park calm_collect_replies)+

lemma calm_await: "calm (await_sanity E s)" "calm (await_park_log E base)" "calm (await_wake E watch fork snap cid t0)"
  "calm (await_again E watch s)" "calm (await_wake2 E fork3 snap2 t0)"
  unfolding await_sanity_def await_park_log_def await_wake_def await_again_def await_wake2_def fetch_def Let_def
  by (intro calm_park)+

lemma calm_await_drive: "calm (await_drive E watch s)"
  unfolding await_drive_def by (auto intro!: calm_park split: list.splits)

lemma noted_self_exit: "length P \<le> p \<Longrightarrow> keeps (noted X P) (on_world (self_exit E reaper p))"
  unfolding self_exit_def on_world_try on_world_seq on_world_bind
  by (intro keeps_try keeps_seq keeps_bind noted_kill noted_calm calm_wait_exit calm_forms)

text \<open>A VM that is started in one of the exempt directories need not be noted.\<close>

lemma noted_launch_bind:
  assumes "d \<in> X" and "\<And>p. length P \<le> p \<Longrightarrow> keeps (noted X P) (on_world (f p))"
  shows "keeps (noted X P) (on_world (bind (launch E d l) f))"
proof (rule keepsI)
  fix s r s' assume n: "noted X P s" and run: "on_world (bind (launch E d l) f) s = Some (r, s')"
  obtain w ps where s: "s = (w, ps)" by (cases s)
  from run s obtain q w1 where q: "launch E d l w = Some (q, w1)"
    and rest: "(\<exists>e. q = Inl e \<and> s' = (w1, ps)) \<or> (\<exists>p. q = Inr p \<and> on_world (f p) (w1, ps) = Some (r, s'))"
    by (auto simp: on_world_bind on_world_def bind_def split: option.splits sum.splits)
  from launch_run [OF q] show "noted X P s'"
  proof
    assume "procs w1 = procs w \<and> (\<exists>e. q = Inl e)"
    then show ?thesis using n s rest by (auto simp: noted_def)
  next
    assume "q = Inr (length (procs w)) \<and> procs w1 = procs w @ [running d]"
    moreover from this n s assms(1) have "noted X P (w1, ps)" by (auto intro: noted_new(2) simp: running_def)
    ultimately show ?thesis using rest n s keepsD [OF assms(2)] noted_length by blast
  qed
qed

lemma noted_second_wake:
  assumes "fork2 \<in> X"
  shows "keeps (noted X P) (on_world (second_wake E reaper fork2 snap esock))"
proof -
  let ?rest = "\<lambda>f2. bind (try_except (bind (wait_exit E reaper f2) (\<lambda>rc. ret (Some rc))) (\<lambda>e. e = TimeoutExpired)
             (\<lambda>_. seq (send_signal f2 SIGKILL) (ret None))) (\<lambda>rc2.
     bind (read_log E (join fork2 (lit ''fork2.log''))) (\<lambda>f2log.
     ret (if rc2 \<noteq> None \<and> rc2 \<noteq> Some 0 \<and> contains (lit ''cannot open'') f2log then [] else [''second wake not refused''])))"
  have "keeps (noted X P) (on_world (?rest p))" if "length P \<le> p" for p
    unfolding on_world_bind on_world_try on_world_seq using that
    by (intro keeps_try keeps_seq keeps_bind noted_kill noted_calm calm_wait_exit calm_entropy)
  then have "keeps (noted X P) (on_world (bind (launch E fork2 (lit ''fork2.log'')) ?rest))"
    by (rule noted_launch_bind [OF assms])
  note launched = this
  show ?thesis unfolding second_wake_def on_world_seq
    by (rule keeps_seq [OF noted_calm keeps_seq [OF noted_calm launched]]; intro calm_entropy)
qed

lemma noted_multi_body: "keeps (noted X P) (multi_body E reaper watch WORK)"
  unfolding multi_body_def Let_def
  by (intro noted_boot_bind keeps_bind keeps_seq keeps_prod keeps_option keeps_ret noted_self_exit noted_calm calm_park
      calm_multi)

lemma noted_await_gen2: "length P \<le> fp \<Longrightarrow> keeps (noted X P) (await_gen2 E reaper watch WORK fp s)"
  unfolding await_gen2_def Let_def
  by (intro noted_boot_bind keeps_bind keeps_seq keeps_if keeps_ret noted_self_exit noted_calm calm_park calm_await)

lemma noted_await_rest: "join WORK (lit ''f2'') \<in> X \<Longrightarrow> keeps (noted X P) (await_rest E reaper watch WORK cid)"
  unfolding await_rest_def Let_def
  by (intro noted_boot_bind keeps_bind keeps_seq keeps_prod keeps_ret noted_second_wake noted_await_gen2 noted_calm
      calm_park calm_await)

lemma noted_await_body: "join WORK (lit ''f2'') \<in> X \<Longrightarrow> keeps (noted X P) (await_body E reaper watch WORK)"
  unfolding await_body_def Let_def
  by (intro noted_boot_bind keeps_bind keeps_seq keeps_prod keeps_option keeps_ret noted_self_exit noted_await_rest noted_calm
      calm_park calm_await calm_await_drive)

lemma ends_multi: "ends (multi_main E reaper watch)"
  unfolding multi_main_def Let_def
  by (intro ends_forms noted_multi_body ending.t_calm [OF calm_park_setup] ending.t_calm [OF calm_look])

lemma ends_await:
  "leaves (ended_since {join (or_default (environ E (lit ''NETHER_WORK'')) (lit ''/tmp/npk'')) (lit ''f2'')}) (await_main E reaper watch)"
  unfolding await_main_def Let_def
  by (intro ends_forms noted_await_body ending.t_calm [OF calm_park_setup] ending.t_calm [OF calm_look]) simp

section \<open>What a status says\<close>

text \<open>
  Time only moves on, on a world and on a world with the VMs noted so far.  \<open>gives I m Q\<close>: whatever \<open>m\<close>
  returns in a state with \<open>I\<close> satisfies \<open>Q\<close>; \<open>I\<close> says that it is not later than \<open>T\<close>, so that \<open>Q\<close> can
  speak of what was seen until then.
\<close>

abbreviation till :: "nat \<Rightarrow> world \<Rightarrow> bool" where
  "till T w \<equiv> clock w \<le> T"

abbreviation noted_till :: "nat \<Rightarrow> world \<times> nat list \<Rightarrow> bool" where
  "noted_till T s \<equiv> clock (fst s) \<le> T"

definition onward :: "('s \<Rightarrow> bool) \<Rightarrow> ('s, 'a) io \<Rightarrow> bool" where
  "onward I m \<longleftrightarrow> keeps (\<lambda>s. \<not> I s) m"

lemma onwardD: "onward I m \<Longrightarrow> m s = Some (r, s') \<Longrightarrow> I s' \<Longrightarrow> I s"
  unfolding onward_def keeps_def by blast

lemma onward_calm: "calm m \<Longrightarrow> onward (till T) m"
  unfolding onward_def keeps_def by (fastforce dest: calm_later)

lemma onward_on_world: "onward (till T) m \<Longrightarrow> onward (noted_till T) (on_world m)"
  unfolding onward_def keeps_def on_world_def by (fastforce split: option.splits)

lemma onward_signal: "onward (till T) (send_signal p g)"
  by (auto simp: onward_def keeps_def send_signal_def modify_def split: if_splits)

lemma onward_boot: "onward (noted_till T) (boot E d l)"
proof -
  have "clock w \<le> clock w'" if "launch E d l w = Some (r, w')" for r w w'
    using launch_clock [OF that] .
  then have "keeps (\<lambda>s. \<not> noted_till T s) (on_world (launch E d l))"
    unfolding keeps_def on_world_def by (fastforce split: option.splits)
  then show ?thesis unfolding onward_def boot_def
    by (rule keeps_bind) (auto simp: keeps_def seq_Some_iff modify_def ret_def)
qed

lemma onward_ret: "onward I (ret a)"
  unfolding onward_def by (rule keeps_ret)

lemma onward_bind: "onward I m \<Longrightarrow> (\<And>a. onward I (f a)) \<Longrightarrow> onward I (bind m f)"
  unfolding onward_def by (rule keeps_bind)

lemma onward_seq: "onward I m \<Longrightarrow> onward I n \<Longrightarrow> onward I (seq m n)"
  unfolding onward_def by (rule keeps_seq)

lemma onward_if: "(b \<Longrightarrow> onward I m) \<Longrightarrow> (\<not> b \<Longrightarrow> onward I n) \<Longrightarrow> onward I (if b then m else n)"
  by simp

lemma onward_option: "onward I m \<Longrightarrow> (\<And>a. onward I (f a)) \<Longrightarrow> onward I (case v of None \<Rightarrow> m | Some a \<Rightarrow> f a)"
  by (cases v) auto

lemma onward_prod: "(\<And>a b. onward I (f a b)) \<Longrightarrow> onward I (case v of (a, b) \<Rightarrow> f a b)"
  by (cases v) simp

lemmas onward_forms = onward_ret onward_bind onward_seq onward_if onward_option onward_prod

lemma onward_self_exit: "onward (till T) (self_exit E reaper p)"
  unfolding self_exit_def onward_def
  by (intro keeps_try keeps_seq keeps_ret onward_signal [unfolded onward_def]
      onward_calm [unfolded onward_def, OF calm_bind [OF calm_wait_exit]] calm_forms)

lemma onward_stop_all: "onward (noted_till T) (stop_all E nap)"
  unfolding stop_all_def signal_all_def onward_def
  by (intro keeps_seq keeps_bind keeps_get keeps_for_each onward_on_world [unfolded onward_def] keeps_swallow
      onward_signal [unfolded onward_def] onward_calm [unfolded onward_def] calm_calls)

definition gives :: "('s \<Rightarrow> bool) \<Rightarrow> ('s, 'a) io \<Rightarrow> ('a \<Rightarrow> bool) \<Rightarrow> bool" where
  "gives I m Q \<longleftrightarrow> (\<forall>s a s'. m s = Some (Inr a, s') \<longrightarrow> I s' \<longrightarrow> Q a)"

lemma givesD: "gives I m Q \<Longrightarrow> m s = Some (Inr a, s') \<Longrightarrow> I s' \<Longrightarrow> Q a"
  by (auto simp: gives_def)

lemma gives_ret: "Q a \<Longrightarrow> gives I (ret a) Q"
  by (simp add: gives_def ret_def)

lemma gives_bind:
  "gives I m R \<Longrightarrow> (\<And>a. onward I (f a)) \<Longrightarrow> (\<And>a. R a \<Longrightarrow> gives I (f a) Q) \<Longrightarrow> gives I (bind m f) Q"
  unfolding gives_def bind_Some_iff by (blast dest: onwardD)

lemma gives_after: "(\<And>a. gives I (f a) Q) \<Longrightarrow> gives I (bind m f) Q"
  unfolding gives_def bind_Some_iff by blast

lemma gives_seq: "gives I n Q \<Longrightarrow> gives I (seq m n) Q"
  unfolding seq_def by (rule gives_after)

lemma gives_if: "(b \<Longrightarrow> gives I m Q) \<Longrightarrow> (\<not> b \<Longrightarrow> gives I n Q) \<Longrightarrow> gives I (if b then m else n) Q"
  by simp

lemma gives_prod: "(\<And>a b. v = (a, b) \<Longrightarrow> gives I (f a b) Q) \<Longrightarrow> gives I (case v of (a, b) \<Rightarrow> f a b) Q"
  by (cases v) simp

lemma gives_option:
  "(v = None \<Longrightarrow> gives I m Q) \<Longrightarrow> (\<And>a. v = Some a \<Longrightarrow> gives I (f a) Q) \<Longrightarrow> gives I (case v of None \<Rightarrow> m | Some a \<Rightarrow> f a) Q"
  by (cases v) auto

lemma gives_on_world: "gives (till T) m Q \<Longrightarrow> gives (noted_till T) (on_world m) Q"
  by (auto simp: gives_def on_world_def split: option.splits)

lemma gives_with_procs:
  assumes "gives (noted_till T) body Q"
  shows "gives (till T) (with_procs E nap body) Q"
  unfolding gives_def
proof (intro allI impI)
  fix w a w' assume run: "with_procs E nap body w = Some (Inr a, w')" and T: "till T w'"
  then obtain s ps r where body: "body (w, []) = Some (Inr a, s)" and stop: "stop_all E nap s = Some (r, (w', ps))"
    unfolding with_procs_def try_finally_def by (fastforce split: option.splits sum.splits)
  from onwardD [OF onward_stop_all stop] T have "noted_till T s" by simp
  with body show "Q a" by (rule givesD [OF assms])
qed

lemma gives_iterate:
  fixes body :: "'x \<Rightarrow> ('s, 'x + 'a) io"
  assumes "\<And>x. gives I (body x) (\<lambda>r. \<forall>a. r = Inr a \<longrightarrow> Q a)"
  shows "gives I (iterate body x) Q"
  unfolding gives_def
proof (intro allI impI)
  fix s a s' assume run: "iterate body x s = Some (Inr a, s')" and I: "I s'"
  let ?Q = "\<lambda>(r :: exn + 'a) s'. \<forall>a'. r = Inr a' \<longrightarrow> I s' \<longrightarrow> Q a'"
  have "?Q (Inr a) s'"
    by (rule iterate_inv [OF run, where I = "\<lambda>_ _. True" and Q = ?Q]) (auto dest: givesD [OF assms])
  then show "Q a" using I by simp
qed

lemma gives_get: "gives (till T) (get f) (\<lambda>x. \<exists>w. till T w \<and> x = f w)"
  by (auto simp: gives_def get_def)

lemma gives_look: "gives (till T) (look E watch) (\<lambda>b. \<exists>w. till T w \<and> b = watch w)"
  by (auto simp: gives_def look_def seq_Some_iff get_def)

lemma look_end:
  "bind (look E watch) (\<lambda>b. ret (f b)) w = Some (Inr a, w') \<Longrightarrow> a = f (watch w') \<and> clock w \<le> clock w'"
  by (auto simp: look_def bind_Some_iff seq_Some_iff get_def ret_def dest!: calm_later [OF calm_quiet [OF quiet_sleep]])

text \<open>A broker that shows four different tags has them from requests that named them.\<close>

lemma multi_parked_distinct: "multi_step\<^sup>*\<^sup>* multi_init b \<Longrightarrow> distinct (map fst (parked b))"
proof (induction rule: rtranclp_induct)
  case base
  then show ?case by (simp add: multi_init_def)
next
  case (step b b')
  have "parked b' = parked b \<or> (\<exists>cid g. parked b' = AList.update cid g (parked b))"
    using step.hyps(2) by cases (auto simp: multi_defs Let_def simp del: update_conv split: option.splits sum.splits)
  then show ?case using step.IH by (auto simp: distinct_update)
qed

lemma tag_of_TAGS: "tag_of req = Some g \<Longrightarrow> g \<in> set TAGS"
  unfolding tag_of_def by (metis find_Some_iff nth_mem)

lemma multi_four_tags:
  assumes reach: "multi_step\<^sup>*\<^sup>* multi_init b" and card: "card (set (map snd (parked b))) = length TAGS" and g: "g \<in> set TAGS"
  shows "\<exists>cid. map_of (parked b) cid = Some g \<and> asked_tag b cid g"
proof -
  have inv: "asked_tag b cid h" if "map_of (parked b) cid = Some h" for cid h
    using multi.reach_inv [OF reach] that by (auto simp: multi_inv_def)
  have entry: "map_of (parked b) cid = Some h \<longleftrightarrow> (cid, h) \<in> set (parked b)" for cid h
    using multi_parked_distinct [OF reach] by simp
  have "set (map snd (parked b)) \<subseteq> set TAGS"
    using inv entry by (fastforce simp: asked_tag_def dest: tag_of_TAGS)
  moreover have "card (set TAGS) = length TAGS" by (rule distinct_card) (simp add: TAGS_def lit_def)
  ultimately have "set (map snd (parked b)) = set TAGS" using card by (intro card_subset_eq) auto
  with g obtain cid where "(cid, g) \<in> set (parked b)" by (metis in_set_zipE list.set_map imageE prod.collapse)
  with inv entry show ?thesis by blast
qed

text \<open>Four tags at a moment before \<open>T\<close>.\<close>

abbreviation four_seen :: "(world \<Rightarrow> multi_broker) \<Rightarrow> nat \<Rightarrow> bool" where
  "four_seen watch T \<equiv> (\<exists>v. till T v \<and> card (set (map snd (parked (watch v)))) = length TAGS)"

lemma multi_drive_gives: "gives (till T) (multi_drive E watch s) (\<lambda>r. r = Some [] \<longrightarrow> four_seen watch T)"
  unfolding multi_drive_def
  by (rule gives_seq, rule gives_after, rule gives_seq, rule gives_after, rule gives_if, rule gives_ret, simp,
      rule gives_bind [OF gives_look], intro onward_calm calm_park, rule gives_seq, rule gives_ret) auto

lemma multi_body_gives: "gives (noted_till T) (multi_body E reaper watch WORK) (\<lambda>f. f = [] \<longrightarrow> four_seen watch T)"
  unfolding multi_body_def Let_def
  by (rule gives_after, rule gives_after, rule gives_prod, rule gives_bind [OF gives_on_world [OF multi_drive_gives]],
      intro onward_forms onward_boot onward_on_world onward_self_exit onward_calm calm_park calm_multi,
      rule gives_option, rule gives_ret, simp, rule gives_after, rule gives_after, rule gives_seq, rule gives_after,
      rule gives_after, rule gives_after, rule gives_ret) simp

lemma multi_main_zero:
  assumes "multi_main E reaper watch w = Some (Inr 0, w')"
  shows "errors (watch w') = [] \<and> four_seen watch (clock w')"
proof -
  let ?WORK = "or_default (environ E (lit ''NETHER_WORK'')) (lit ''/tmp/npkm'')"
  obtain v fails v' where b: "with_procs E 400000 (multi_body E reaper watch ?WORK) v = Some (Inr fails, v')"
    and "bind (look E watch) (\<lambda>b. ret (if fails = [] \<and> errors b = [] then 0 else 1 :: int)) v' = Some (Inr 0, w')"
    using assms by (auto simp: multi_main_def Let_def bind_Some_iff seq_Some_iff ret_def split: if_splits)
  from look_end [OF this(2)] have "fails = []" "errors (watch w') = []" "clock v' \<le> clock w'" by (auto split: if_splits)
  with givesD [OF gives_with_procs [OF multi_body_gives] b] show ?thesis by blast
qed

lemma multi_events_grow: "multi_step\<^sup>*\<^sup>* b b' \<Longrightarrow> set (events b) \<subseteq> set (events b')"
proof (induction rule: rtranclp_induct)
  case (step b' b'')
  have "set (events b') \<subseteq> set (events b'')"
    using step.hyps(2) by cases (auto simp: multi_defs Let_def split: option.splits sum.splits)
  with step.IH show ?case by blast
qed simp

text \<open>
  C20: let the broker's threads take their steps as time passes.  When \<open>park_multi_proof.py\<close> reports
  success, its broker has no error to report and has had a request for each of the four tags, each under a
  connection id of its own.
\<close>

theorem multi_pass_asked:
  assumes "\<forall>v. multi_step\<^sup>*\<^sup>* multi_init (watch v)"
    and "\<forall>v v'. clock v \<le> clock v' \<longrightarrow> multi_step\<^sup>*\<^sup>* (watch v) (watch v')"
    and "multi_main E reaper watch w = Some (Inr 0, w')"
  shows "errors (watch w') = [] \<and>
    (\<exists>cid. inj_on cid (set TAGS) \<and>
       (\<forall>g \<in> set TAGS. \<exists>c req. Asked c (cid g) req \<in> set (events (watch w')) \<and> tag_of req = Some g))"
proof -
  obtain v where v: "clock v \<le> clock w'" "card (set (map snd (parked (watch v)))) = length TAGS" "errors (watch w') = []"
    using multi_main_zero [OF assms(3)] by blast
  from multi_four_tags [OF _ v(2)] assms(1) obtain cid where
    cid: "map_of (parked (watch v)) (cid g) = Some g \<and> asked_tag (watch v) (cid g) g" if "g \<in> set TAGS" for g by metis
  then have "inj_on cid (set TAGS)" by (metis inj_onI option.inject)
  moreover from assms(2) v(1) have "set (events (watch v)) \<subseteq> set (events (watch w'))" by (simp add: multi_events_grow)
  ultimately show ?thesis using cid v(3) unfolding asked_tag_def by blast
qed

end
