(* ===== verification/Fleet.thy ===== *)
theory Fleet
  imports Parks
begin

text \<open>
  The live run of \<open>scripts/park_density_proof.py\<close>: ten VMs are forked from one base, each is parked while it
  waits for its upstream, and each is woken again.  Every VM has a broker of its own (theory \<open>Broker\<close>);
  \<open>watch i\<close> is what \<open>main\<close> sees of the broker of VM \<open>i\<close>.  \<open>pgrep\<close> is a program the script runs: how long it
  takes, and how many processes it lists unless it cannot be started.
\<close>

definition FLEET :: nat where
  "FLEET = 10"

text \<open>\<open>"%02d" % i\<close>\<close>

definition vm_tag :: "nat \<Rightarrow> pystr" where
  "vm_tag i = lit ''vm-'' @ str_of_nat2 i"

definition egress_sock :: "pystr \<Rightarrow> nat \<Rightarrow> pystr" where
  "egress_sock WORK i = join WORK (lit ''e-'' @ str_of_nat2 i @ lit ''.sock'')"

definition slow_req :: "pystr \<Rightarrow> pystr" where
  "slow_req g = guest_request g (lit ''/tmp/reply'') (then_done (lit ''/tmp/req.log''))"

text \<open>\<open>round(p / 100.0 * (len(xs) - 1))\<close> is floating-point arithmetic; \<open>rank\<close> is its result for a length.\<close>

definition pct :: "(nat \<Rightarrow> nat) \<Rightarrow> nat list \<Rightarrow> exn + nat" where
  "pct rank xs =
     (let ys = sort xs in
      if ys = [] then Inl IndexError else Inr (ys ! min (length ys - 1) (rank (length ys - 1))))"

text \<open>The two scripts' percentiles agree on every rank.\<close>

lemma pct_percentile: "pct rank xs = percentile rank xs"
proof -
  have "sort xs = [] \<longleftrightarrow> xs = []" by (metis length_0_conv length_sort)
  then show ?thesis by (simp add: pct_def percentile_def Let_def)
qed

section \<open>Baking the base\<close>

definition fleet_conf :: "pystr \<Rightarrow> pystr" where
  "fleet_conf WORK = park_conf (join WORK (lit ''e-base.sock''))"

text \<open>\<open>None\<close> is the early \<open>return 1\<close>.\<close>

definition fleet_bake :: "env \<Rightarrow> reaper \<Rightarrow> pystr \<Rightarrow> nat \<Rightarrow> string list option sys" where
  "fleet_bake E reaper base bp =
     bind (await_sock E 300 (join base (lit ''c.sock'')) (seconds 40)) (\<lambda>up.
     if \<not> up then ret None
     else
       bind (uconn E (join base (lit ''c.sock'')) (seconds 30)) (\<lambda>s.
       seq (retry E 120 (bind (guest_cmd E s (lit ''echo ready'') (seconds 5)) (\<lambda>r. ret (contains (lit ''ready'') r)))) (
       bind (guest_cmd E s (lit ''__snapshot__ base.snap'') (seconds 90)) (\<lambda>rep.
       seq (guest_cmd E s (lit ''__shutdown__'') (seconds 5)) (
       seq (wait_exit E reaper bp) (
       seq (getsize E (join base (lit ''base.snap''))) (
       ret (Some (if contains (lit ''OK'') rep then [] else [''base bake failed''])))))))))"

section \<open>Parking and waking one VM\<close>

text \<open>\<open>parked.wait(15)\<close>: until the event is set or the time is over.\<close>

definition await_event :: "env \<Rightarrow> (world \<Rightarrow> bool) \<Rightarrow> nat \<Rightarrow> bool sys" where
  "await_event E flag to =
     bind time_time (\<lambda>t0.
     iterate (\<lambda>_.
       bind (get flag) (\<lambda>x.
       if x then ret (Inr True)
       else
         bind time_time (\<lambda>t.
         if t - t0 < to then seq (sleep E 1) (ret (Inl ())) else ret (Inr False)))) ())"

definition fleet_setup :: "env \<Rightarrow> pystr \<Rightarrow> nat \<Rightarrow> unit sys" where
  "fleet_setup E WORK i =
     (let d = join WORK (vm_tag i) in
      seq (makedirs E d False) (
      seq (listen_at E (egress_sock WORK i)) (
      write_text E (join d (lit ''nether.conf''))
        (wake_conf (join (join WORK (lit ''base'')) (lit ''base.snap'')) (lit ''v.sock'') (egress_sock WORK i)))))"

text \<open>The fork is driven to a request in flight and parked.\<close>

definition fleet_drive :: "env \<Rightarrow> reaper \<Rightarrow> (world \<Rightarrow> density_broker) \<Rightarrow> pystr \<Rightarrow> nat \<Rightarrow> nat \<Rightarrow> string list harness" where
  "fleet_drive E reaper watch WORK i p =
     (let vsk = join (join WORK (vm_tag i)) (lit ''v.sock'') in
      bind (on_world (await_sock E 300 vsk (seconds 30))) (\<lambda>up.
      if \<not> up then ret [''never came up'']
      else
        bind (on_world (uconn E vsk (seconds 30))) (\<lambda>s.
        seq (on_world (guest_cmd E s (slow_req (vm_tag i)) (seconds 15))) (
        bind (on_world (await_event E (was_parked \<circ> watch) (seconds 15))) (\<lambda>seen.
        if \<not> seen then ret [''request never reached the broker'']
        else
          seq (on_world (sleep E 600000)) (
          bind (on_world (park_vm E s ''p.snap'')) (\<lambda>rep.
          if \<not> prefix (lit ''OK parked'') rep then ret [''park failed'']
          else on_world (self_exit E reaper p))))))))"

definition fleet_park :: "env \<Rightarrow> reaper \<Rightarrow> (nat \<Rightarrow> world \<Rightarrow> density_broker) \<Rightarrow> pystr \<Rightarrow> nat \<Rightarrow> string list harness" where
  "fleet_park E reaper watch WORK i =
     seq (on_world (fleet_setup E WORK i)) (
     bind (boot E (join WORK (vm_tag i)) (lit ''run.log'')) (\<lambda>p.
     fleet_drive E reaper (watch i) WORK i p))"

text \<open>\<open>while time.time() - t0 < 20: got = cat(...); if got: break; time.sleep(0.0003)\<close>\<close>

definition first_reply :: "env \<Rightarrow> nat \<Rightarrow> nat \<Rightarrow> pystr sys" where
  "first_reply E s t0 =
     iterate (\<lambda>got.
       bind time_time (\<lambda>t.
       if \<not> t - t0 < seconds 20 then ret (Inr got)
       else
         bind (park_cat E s (lit ''/tmp/reply'')) (\<lambda>got.
         if got \<noteq> [] then ret (Inr got) else seq (sleep E 300) (ret (Inl got))))) []"

definition fleet_check :: "env \<Rightarrow> pystr \<Rightarrow> nat \<Rightarrow> pystr \<Rightarrow> nat \<Rightarrow> string list sys" where
  "fleet_check E WORK i wsk t0 =
     bind (await_sock E 300 wsk (seconds 30)) (\<lambda>up.
     if \<not> up then ret [''wake never came up'']
     else
       bind (uconn E wsk (seconds 30)) (\<lambda>s.
       bind (first_reply E s t0) (\<lambda>got.
       bind (path_exists E (join (join WORK (vm_tag i)) (lit ''p.snap''))) (\<lambda>x.
       seq (park_bye E s) (
       ret ((if got \<noteq> lit ''REPLY-FOR-'' @ vm_tag i then [''cross-wire''] else []) @
            (if x then [''park not consumed''] else [])))))))"

definition fleet_wake :: "env \<Rightarrow> pystr \<Rightarrow> nat \<Rightarrow> string list harness" where
  "fleet_wake E WORK i =
     (let d = join WORK (lit ''w-'' @ str_of_nat2 i) in
      seq (on_world (makedirs E d False)) (
      seq (on_world (write_text E (join d (lit ''nether.conf''))
             (wake_conf (join (join WORK (vm_tag i)) (lit ''p.snap'')) (lit ''w.sock'') (egress_sock WORK i)))) (
      bind (on_world time_time) (\<lambda>t0.
      bind (boot E d (lit ''wake.log'')) (\<lambda>p.
      on_world (fleet_check E WORK i (join d (lit ''w.sock'')) t0))))))"

section \<open>The fleet\<close>

fun for_all_vms :: "(nat \<Rightarrow> string list harness) \<Rightarrow> nat list \<Rightarrow> string list harness" where
  "for_all_vms f [] = ret []"
| "for_all_vms f (i # is) = bind (f i) (\<lambda>x. bind (for_all_vms f is) (\<lambda>y. ret (x @ y)))"

type_synonym lister = "world \<Rightarrow> nat \<times> nat option"

definition run_pgrep :: "env \<Rightarrow> lister \<Rightarrow> nat sys" where
  "run_pgrep E pgrep w =
     (let (dt, r) = pgrep w; w' = elapse E dt w in
      case r of None \<Rightarrow> Some (Inl OSError, w') | Some n \<Rightarrow> Some (Inr n, w'))"

text \<open>\<open>glob.glob(os.path.join(WORK, "vm-*", "p.snap"))\<close>\<close>

definition park_files :: "env \<Rightarrow> pystr \<Rightarrow> world \<Rightarrow> pystr list" where
  "park_files E WORK w =
     filter (\<lambda>k. basename k = lit ''p.snap'' \<and> prefix (lit ''vm-'') (basename (dirname k)) \<and>
                 k = join (join (full E WORK) (basename (dirname k))) (lit ''p.snap''))
       (map fst (fs w))"

definition fleet_census :: "env \<Rightarrow> lister \<Rightarrow> pystr \<Rightarrow> string list sys" where
  "fleet_census E pgrep WORK =
     seq (sleep E 500000) (
     bind (run_pgrep E pgrep) (\<lambda>alive.
     bind (get (park_files E WORK)) (\<lambda>parks.
     seq (for_each parks (\<lambda>p. seq (getsize E p) (ret ()))) (
     ret ((if alive \<noteq> 0 then [''processes alive''] else []) @
          (if length parks \<noteq> FLEET then [''park files missing''] else []))))))"

text \<open>\<open>for b in brokers.values(): fails.extend(b.errors)\<close>: whether there is one.\<close>

fun broker_failed :: "env \<Rightarrow> (nat \<Rightarrow> world \<Rightarrow> density_broker) \<Rightarrow> nat list \<Rightarrow> string list sys" where
  "broker_failed E watch [] = ret []"
| "broker_failed E watch (i # is) =
     bind (look E (watch i)) (\<lambda>b. bind (broker_failed E watch is) (\<lambda>f.
     ret ((if density_errors b = [] then [] else [''broker error'']) @ f)))"

definition fleet_body ::
    "env \<Rightarrow> reaper \<Rightarrow> (nat \<Rightarrow> world \<Rightarrow> density_broker) \<Rightarrow> lister \<Rightarrow> pystr \<Rightarrow> string list option harness" where
  "fleet_body E reaper watch pgrep WORK =
     (let base = join WORK (lit ''base'') in
      bind (boot E base (lit ''boot.log'')) (\<lambda>bp.
      bind (on_world (fleet_bake E reaper base bp)) (\<lambda>baked.
      case baked of
        None \<Rightarrow> ret None
      | Some f0 \<Rightarrow>
          bind (for_all_vms (fleet_park E reaper watch WORK) [1 ..< Suc FLEET]) (\<lambda>f1.
          bind (on_world (fleet_census E pgrep WORK)) (\<lambda>f2.
          bind (for_all_vms (fleet_wake E WORK) [1 ..< Suc FLEET]) (\<lambda>f3.
          bind (on_world (broker_failed E watch [1 ..< Suc FLEET])) (\<lambda>f4.
          ret (Some (f0 @ f1 @ f2 @ f3 @ f4)))))))))"

definition fleet_main :: "env \<Rightarrow> reaper \<Rightarrow> (nat \<Rightarrow> world \<Rightarrow> density_broker) \<Rightarrow> lister \<Rightarrow> int sys" where
  "fleet_main E reaper watch pgrep =
     bind (path_exists E (BIN E)) (\<lambda>b.
     if \<not> b then ret 1
     else
       let WORK = or_default (environ E (lit ''NETHER_WORK'')) (lit ''/tmp/npkd''); base = join WORK (lit ''base'') in
       seq (rmtree E WORK) (
       seq (makedirs E WORK False) (
       seq (makedirs E base False) (
       seq (symlink E (NB E @ lit ''/kernels'') (join base (lit ''kernels''))) (
       seq (listen_at E (join WORK (lit ''e-base.sock''))) (
       seq (write_text E (join base (lit ''nether.conf'')) (fleet_conf WORK)) (
       bind (try_finally (with_procs E 500000 (fleet_body E reaper watch pgrep WORK)) (rmtree E WORK)) (\<lambda>fails.
       ret (if fails = Some [] then 0 else 1)))))))))"

section \<open>What it leaves running, and what its status says\<close>

lemma calm_fleet_bake: "calm (fleet_bake E reaper base bp)"
  unfolding fleet_bake_def by (intro calm_park calm_await_sock calm_retry calm_wait_exit)

lemma calm_fleet_setup: "calm (fleet_setup E WORK i)"
  unfolding fleet_setup_def listen_at_def Let_def by (intro calm_park calm_bind_path)

lemma calm_await_event: "calm (await_event E flag to)"
  unfolding await_event_def by (intro calm_park)

lemma calm_fleet_check: "calm (fleet_check E WORK i wsk t0)"
  unfolding fleet_check_def first_reply_def by (intro calm_park calm_await_sock)

lemma calm_run_pgrep: "calm (run_pgrep E pgrep)"
  by (auto simp: calm_def keeps_def run_pgrep_def elapse_def Let_def split: prod.splits option.splits)

lemma calm_fleet_census: "calm (fleet_census E pgrep WORK)"
  unfolding fleet_census_def by (intro calm_park calm_run_pgrep)

lemma calm_broker_failed: "calm (broker_failed E watch is)"
  by (induction "is") (auto intro!: calm_park)

lemma keeps_for_all_vms: "(\<And>i. keeps I (f i)) \<Longrightarrow> keeps I (for_all_vms f is)"
  by (induction "is") (auto intro!: keeps_ret keeps_bind)

lemma noted_fleet_park: "keeps (noted X P) (fleet_park E reaper watch WORK i)"
  unfolding fleet_park_def fleet_drive_def Let_def
  by (intro noted_boot_bind keeps_bind keeps_seq keeps_if keeps_ret noted_self_exit noted_calm calm_park calm_await_sock
      calm_await_event calm_fleet_setup)

lemma noted_fleet_wake: "keeps (noted X P) (fleet_wake E WORK i)"
  unfolding fleet_wake_def Let_def
  by (intro noted_boot_bind keeps_bind keeps_seq noted_calm calm_park calm_fleet_check)

lemma noted_fleet_body: "keeps (noted X P) (fleet_body E reaper watch pgrep WORK)"
  unfolding fleet_body_def Let_def
  by (intro noted_boot_bind keeps_bind keeps_option keeps_ret keeps_for_all_vms noted_fleet_park noted_fleet_wake noted_calm
      calm_fleet_bake calm_fleet_census calm_broker_failed)

lemma ends_fleet: "ends (fleet_main E reaper watch pgrep)"
  unfolding fleet_main_def listen_at_def Let_def
  by (intro ends_forms noted_fleet_body ending.t_calm [OF calm_bind_path]
      ending.t_calm [OF calm_when [OF calm_quiet [OF quiet_os_remove]]])

lemma onward_fleet_drive: "onward (noted_till T) (fleet_drive E reaper watch WORK i p)"
  unfolding fleet_drive_def Let_def
  by (intro onward_forms onward_on_world onward_self_exit onward_calm calm_park calm_await_sock calm_await_event)

lemma onward_fleet_park: "onward (noted_till T) (fleet_park E reaper watch WORK i)"
  unfolding fleet_park_def
  by (intro onward_forms onward_boot onward_fleet_drive onward_on_world onward_calm calm_fleet_setup)

lemma onward_fleet_wake: "onward (noted_till T) (fleet_wake E WORK i)"
  unfolding fleet_wake_def Let_def
  by (intro onward_forms onward_boot onward_on_world onward_calm calm_park calm_fleet_check)

lemma onward_for_all_vms: "(\<And>i. onward I (f i)) \<Longrightarrow> onward I (for_all_vms f is)"
  by (induction "is") (auto intro!: onward_forms)

lemma gives_for_all_vms:
  assumes f: "\<And>i. onward I (f i)" and "\<And>i. gives I (f i) (\<lambda>r. r = [] \<longrightarrow> Q i)"
  shows "gives I (for_all_vms f is) (\<lambda>r. r = [] \<longrightarrow> (\<forall>i \<in> set is. Q i))"
proof (induction "is")
  case (Cons i "is")
  show ?case unfolding for_all_vms.simps
    by (rule gives_bind [OF assms(2)], intro onward_forms onward_for_all_vms f, rule gives_bind [OF Cons.IH],
        rule onward_forms, rule gives_ret) auto
qed (simp add: gives_ret)

lemma await_event_gives: "gives (till T) (await_event E flag to) (\<lambda>r. r \<longrightarrow> (\<exists>w. till T w \<and> flag w))"
  unfolding await_event_def
  by (rule gives_after, rule gives_iterate, rule gives_bind [OF gives_get], intro onward_calm calm_park,
      rule gives_if, rule gives_ret, force, rule gives_after, rule gives_if, rule gives_seq, rule gives_ret, simp,
      rule gives_ret, simp)

lemma fleet_park_gives:
  "gives (noted_till T) (fleet_park E reaper watch WORK i) (\<lambda>f. f = [] \<longrightarrow> (\<exists>w. till T w \<and> was_parked (watch i w)))"
  unfolding fleet_park_def fleet_drive_def Let_def
  by (rule gives_seq, rule gives_after, rule gives_after, rule gives_if, rule gives_ret, simp,
      rule gives_after, rule gives_seq, rule gives_bind [OF gives_on_world [OF await_event_gives]],
      intro onward_forms onward_on_world onward_self_exit onward_calm calm_park, rule gives_if,
      rule gives_ret, simp, rule gives_seq, rule gives_after, rule gives_if, rule gives_ret, simp)
     (auto simp: gives_def)

lemma broker_failed_gives:
  "gives (till T) (broker_failed E watch is)
     (\<lambda>f. f = [] \<longrightarrow> (\<forall>i \<in> set is. \<exists>w. till T w \<and> density_errors (watch i w) = []))"
proof (induction "is")
  case (Cons i "is")
  show ?case unfolding broker_failed.simps
    by (rule gives_bind [OF gives_look], intro onward_calm calm_park calm_broker_failed, rule gives_bind [OF Cons.IH],
        rule onward_forms, rule gives_ret) auto
qed (simp add: gives_ret)

lemma fleet_body_gives:
  "gives (noted_till T) (fleet_body E reaper watch pgrep WORK) (\<lambda>f. f = Some [] \<longrightarrow>
     (\<forall>i \<in> set [1 ..< Suc FLEET]. (\<exists>w. till T w \<and> was_parked (watch i w)) \<and>
        (\<exists>w. till T w \<and> density_errors (watch i w) = [])))"
  unfolding fleet_body_def Let_def
  by (rule gives_after, rule gives_after, rule gives_option, rule gives_ret, simp,
      rule gives_bind [OF gives_for_all_vms [OF onward_fleet_park fleet_park_gives]],
      intro onward_forms onward_for_all_vms onward_fleet_wake onward_on_world onward_calm calm_fleet_census calm_broker_failed,
      rule gives_after, rule gives_after, rule gives_bind [OF gives_on_world [OF broker_failed_gives]], rule onward_forms,
      rule gives_ret) simp

lemma density_requests_grow: "density_step\<^sup>*\<^sup>* b b' \<Longrightarrow> set (requests b) \<subseteq> set (requests b')"
proof (induction rule: rtranclp_induct)
  case (step b' b'')
  have "set (requests b') \<subseteq> set (requests b'')"
    using step.hyps(2) by cases (auto simp: density_defs Let_def split: option.splits sum.splits if_splits)
  with step.IH show ?case by blast
qed simp

lemma encode_vm_tag: "encode (vm_tag i) = Inr (map word_of_nat (vm_tag i))"
proof (rule encode_ascii)
  have "c < 128" if "c \<in> set (str_of_nat i)" for c using str_of_nat_chars [OF that] by simp
  then show "\<forall>c \<in> set (vm_tag i). c < 128" by (auto simp: vm_tag_def str_of_nat2_def lit_def)
qed

text \<open>A run that reports success, with brokers that take their steps as time passes: each VM's broker has had a
  request with the VM's own tag, and was last seen with no request without it.\<close>

lemma fleet_pass:
  assumes reach: "\<And>i v. density_step\<^sup>*\<^sup>* (density_init (vm_tag i)) (watch i v)"
    and later: "\<And>i v v'. clock v \<le> clock v' \<Longrightarrow> density_step\<^sup>*\<^sup>* (watch i v) (watch i v')"
    and run: "fleet_main E reaper watch pgrep w = Some (Inr 0, w')" and i: "1 \<le> i" "i \<le> FLEET"
  shows "(\<exists>q \<in> set (requests (watch i w')). contains (map word_of_nat (vm_tag i)) q) \<and>
    (\<exists>v. clock v \<le> clock w' \<and> (\<forall>q \<in> set (requests (watch i v)). contains (map word_of_nat (vm_tag i)) q))"
proof -
  let ?WORK = "or_default (environ E (lit ''NETHER_WORK'')) (lit ''/tmp/npkd'')"
  obtain v where "try_finally (with_procs E 500000 (fleet_body E reaper watch pgrep ?WORK)) (rmtree E ?WORK) v = Some (Inr (Some []), w')"
    using run by (auto simp: fleet_main_def Let_def bind_Some_iff seq_Some_iff ret_def split: if_splits)
  then obtain u r where u: "with_procs E 500000 (fleet_body E reaper watch pgrep ?WORK) v = Some (Inr (Some []), u)"
    and "rmtree E ?WORK u = Some (r, w')"
    by (auto simp: try_finally_def split: option.splits sum.splits)
  from calm_later [OF calm_quiet [OF quiet_rmtree] this(2)] givesD [OF gives_with_procs [OF fleet_body_gives] u]
  have "\<forall>i \<in> set [1 ..< Suc FLEET]. (\<exists>v. till (clock w') v \<and> was_parked (watch i v)) \<and>
      (\<exists>v. till (clock w') v \<and> density_errors (watch i v) = [])" by blast
  moreover have "i \<in> set [1 ..< Suc FLEET]" using i by (simp only: set_upt) simp
  ultimately obtain a b where a: "clock a \<le> clock w'" "was_parked (watch i a)"
    and b: "clock b \<le> clock w'" "density_errors (watch i b) = []" by blast
  from a(2) density_reach [OF encode_vm_tag reach, of i a] obtain q where
    "q \<in> set (requests (watch i a))" "contains (map word_of_nat (vm_tag i)) q"
    unfolding density_inv_def list_ex_iff by blast
  with density_requests_grow [OF later [OF a(1)]] b density_reach [OF encode_vm_tag reach, of i b] show ?thesis
    unfolding density_inv_def list_all_iff by fastforce
qed

end
