(* ===== verification/Fuzz.thy ===== *)
theory Fuzz
  imports Harness
begin

text \<open>
  \<open>scripts/fuzz_restore.py\<close>, the mutation fuzzer of the snapshot parser: the mutants it derives from
  a good snapshot, how a run of the binary is classified, and the verdict.  Python's random numbers
  are a stream \<open>rnd\<close> with the number of draws so far as state, so that the theorems hold for every
  seed; a run of the binary under given resource limits, what the platform says to a limit, and
  \<open>Popen.wait\<close> are parameters.
\<close>

section \<open>Configuration\<close>

text \<open>\<open>int(os.environ.get(name, default))\<close>\<close>

definition env_int :: "env \<Rightarrow> string \<Rightarrow> int \<Rightarrow> exn + int" where
  "env_int E name d =
     (case environ E (lit name) of
        None \<Rightarrow> Inr d
      | Some s \<Rightarrow> (case py_int s of None \<Rightarrow> Inl ValueError | Some n \<Rightarrow> Inr n))"

record fuzz_config =
  CHILD_CPU_S :: int
  CHILD_AS_GB :: int
  LIVE_RESTORES :: int

definition read_config :: "env \<Rightarrow> exn + fuzz_config" where
  "read_config E =
     ebind (env_int E ''NETHER_FUZZ_CPU'' 15) (\<lambda>cpu.
     ebind (env_int E ''NETHER_FUZZ_AS_GB'' 3) (\<lambda>gb.
     ebind (env_int E ''NETHER_FUZZ_LIVE'' 0) (\<lambda>live.
     Inr \<lparr>CHILD_CPU_S = cpu, CHILD_AS_GB = gb, LIVE_RESTORES = min live 24\<rparr>)))"

datatype rlimit = RLIMIT_CPU | RLIMIT_AS

type_synonym caps = "(rlimit \<times> int \<times> int) list"

text \<open>\<open>try: resource.setrlimit(r, (soft, hard)); except (ValueError, OSError): pass\<close>, in the child before it runs
  the binary; \<open>setr\<close> is what the platform raises, if anything.  Any other exception fails the spawn.\<close>

definition cap_one :: "(rlimit \<Rightarrow> int \<Rightarrow> int \<Rightarrow> exn option) \<Rightarrow> rlimit \<Rightarrow> int \<Rightarrow> int \<Rightarrow> exn + caps" where
  "cap_one setr r soft hard =
     (case setr r soft hard of
        None \<Rightarrow> Inr [(r, soft, hard)]
      | Some e \<Rightarrow> if is_ValueError e \<or> is_OSError e then Inr [] else Inl e)"

definition child_limits :: "(rlimit \<Rightarrow> int \<Rightarrow> int \<Rightarrow> exn option) \<Rightarrow> fuzz_config \<Rightarrow> exn + caps" where
  "child_limits setr cfg =
     ebind (cap_one setr RLIMIT_CPU (CHILD_CPU_S cfg) (CHILD_CPU_S cfg + 2)) (\<lambda>a.
     let n = CHILD_AS_GB cfg * 1024 * 1024 * 1024 in
     ebind (cap_one setr RLIMIT_AS n n) (\<lambda>b. Inr (a @ b)))"

section \<open>Random numbers\<close>

definition randrange :: "(nat \<Rightarrow> nat) \<Rightarrow> nat \<Rightarrow> nat \<Rightarrow> (nat, nat) io" where
  "randrange rnd lo hi k =
     (if hi \<le> lo then Some (Inl ValueError, k) else Some (Inr (lo + rnd k mod (hi - lo)), Suc k))"

text \<open>A list comprehension whose body draws.\<close>

fun draws :: "nat \<Rightarrow> ('s, 'a) io \<Rightarrow> ('s, 'a list) io" where
  "draws 0 m = ret []"
| "draws (Suc n) m = bind m (\<lambda>x. bind (draws n m) (\<lambda>xs. ret (x # xs)))"

text \<open>\<open>random.sample(xs, m)\<close>: \<open>m\<close> elements at different positions, in any order.\<close>

fun sample :: "(nat \<Rightarrow> nat) \<Rightarrow> nat \<Rightarrow> 'a list \<Rightarrow> (nat, 'a list) io" where
  "sample rnd 0 xs = ret []"
| "sample rnd (Suc m) xs =
     bind (randrange rnd 0 (length xs)) (\<lambda>i.
     bind (sample rnd m (take i xs @ drop (Suc i) xs)) (\<lambda>r. ret (xs ! i # r)))"

section \<open>The mutants\<close>

type_synonym mutant = "pystr \<times> bytes"

text \<open>The header fields \<open>(offset, width)\<close> and the values put there.\<close>

definition FIELDS :: "(nat \<times> nat) list" where
  "FIELDS = [(0, 4), (4, 4), (8, 4), (12, 4), (24, 8), (32, 8), (40, 8), (48, 8), (56, 4), (60, 4),
     (64, 4), (68, 4), (72, 4), (76, 4), (80, 4), (88, 8)]"

definition EXTREMES :: "nat list" where
  "EXTREMES = [0, 1, 2 ^ 8 - 1, 2 ^ 16, 2 ^ 31, 2 ^ 32 - 1, 2 ^ 63, 2 ^ 64 - 1]"

definition flip1 :: "(nat \<Rightarrow> nat) \<Rightarrow> bytes \<Rightarrow> (nat, mutant) io" where
  "flip1 rnd good =
     bind (randrange rnd 0 (length good)) (\<lambda>pos.
     bind (randrange rnd 0 256) (\<lambda>x.
     ret (lit ''flip1@'' @ str_of_nat pos, good[pos := word_of_nat x])))"

fun flip_from :: "(nat \<Rightarrow> nat) \<Rightarrow> nat \<Rightarrow> nat \<Rightarrow> bytes \<Rightarrow> (nat, bytes) io" where
  "flip_from rnd pos 0 b = ret b"
| "flip_from rnd pos (Suc wd) b =
     (if pos < length b
      then bind (randrange rnd 0 256) (\<lambda>x. flip_from rnd (Suc pos) wd (b[pos := word_of_nat x]))
      else flip_from rnd (Suc pos) wd b)"

definition flipN :: "(nat \<Rightarrow> nat) \<Rightarrow> bytes \<Rightarrow> (nat, mutant) io" where
  "flipN rnd good =
     bind (randrange rnd 0 (max 1 (length good - 32))) (\<lambda>pos.
     bind (randrange rnd 1 32) (\<lambda>wd.
     bind (flip_from rnd pos wd good) (\<lambda>b.
     ret (lit ''flipN@'' @ str_of_nat pos @ lit ''+'' @ str_of_nat wd, b))))"

text \<open>\<open>v & ((1 << (8*w)) - 1)\<close> and the slice assignment, which \<open>poke\<close> is.\<close>

definition field_mutant :: "bytes \<Rightarrow> nat \<times> nat \<Rightarrow> nat \<Rightarrow> mutant" where
  "field_mutant good ow v =
     (let (off, w) = ow; x = v mod 256 ^ w in
      (lit ''field@'' @ str_of_nat off @ lit ''='' @ str_of_nat x, poke off (le_bytes w x) good))"

definition field_mutants :: "bytes \<Rightarrow> mutant list" where
  "field_mutants good = concat (map (\<lambda>ow. map (field_mutant good ow) EXTREMES) FIELDS)"

definition cut_points :: "nat \<Rightarrow> int list" where
  "cut_points n =
     (let i = int n in
      sort (remdups [0, 1, 63, 64, 127, 128, 129, 256, 4096, 16384, 16384 + 128,
        i div 4, i div 2, i - 16384, i - 4096, i - 1]))"

definition trunc_mutants :: "bytes \<Rightarrow> mutant list" where
  "trunc_mutants good =
     map (\<lambda>k. (lit ''trunc@'' @ str_of_int k, take (nat k) good))
       (filter (\<lambda>k. 0 \<le> k \<and> k \<le> int (length good)) (cut_points (length good)))"

definition tail_mutant :: "(nat \<Rightarrow> nat) \<Rightarrow> bytes \<Rightarrow> (nat, mutant) io" where
  "tail_mutant rnd good =
     bind (randrange rnd 1 4096) (\<lambda>n.
     bind (draws n (randrange rnd 0 256)) (\<lambda>xs.
     ret (lit ''tail+garbage'', good @ map word_of_nat xs)))"

definition mutants :: "(nat \<Rightarrow> nat) \<Rightarrow> bytes \<Rightarrow> (nat, mutant list) io" where
  "mutants rnd good =
     bind (draws 120 (flip1 rnd good)) (\<lambda>a.
     bind (draws 80 (flipN rnd good)) (\<lambda>b.
     bind (draws 10 (tail_mutant rnd good)) (\<lambda>e.
     ret (a @ b @ field_mutants good @ trunc_mutants good @ e))))"

section \<open>What a mutant is\<close>

text \<open>A mutant differs from the good file in one byte, in a window of at most 31 bytes, in one header
  field, by a cut, or by at most 4095 bytes behind it.\<close>

definition is_mutant :: "bytes \<Rightarrow> bytes \<Rightarrow> bool" where
  "is_mutant good d \<longleftrightarrow>
     (\<exists>pos < length good. \<exists>x. d = good[pos := x]) \<or>
     (\<exists>pos wd. wd < 32 \<and> length d = length good \<and> (\<forall>i < length good. i < pos \<or> pos + wd \<le> i \<longrightarrow> d ! i = good ! i)) \<or>
     (\<exists>(off, w) \<in> set FIELDS. \<exists>v \<in> set EXTREMES. d = poke off (le_bytes w (v mod 256 ^ w)) good) \<or>
     (\<exists>k \<le> length good. d = take k good) \<or>
     (\<exists>x. x \<noteq> [] \<and> length x < 4096 \<and> d = good @ x)"

lemma draws_all:
  assumes "\<And>k. \<exists>x k'. m k = Some (Inr x, k') \<and> P x"
  shows "\<exists>xs k'. draws n m k = Some (Inr xs, k') \<and> length xs = n \<and> list_all P xs"
proof (induction n arbitrary: k)
  case (Suc n)
  obtain x k1 where "m k = Some (Inr x, k1)" "P x" using assms by blast
  then show ?case using Suc.IH [of k1] by (auto simp: bind_def ret_def)
qed (simp add: ret_def)

lemma randrange_run: "lo < hi \<Longrightarrow> \<exists>x. randrange rnd lo hi k = Some (Inr x, Suc k) \<and> lo \<le> x \<and> x < hi"
  by (auto simp: randrange_def intro!: exI [of _ "lo + rnd k mod (hi - lo)"])
     (metis add.commute less_diff_conv mod_less_divisor zero_less_diff)

lemma flip1_run:
  assumes "good \<noteq> []"
  shows "\<exists>m k'. flip1 rnd good k = Some (Inr m, k') \<and> is_mutant good (snd m)"
proof -
  obtain pos where p: "randrange rnd 0 (length good) k = Some (Inr pos, Suc k)" "pos < length good"
    using randrange_run [of 0 "length good" rnd k] assms by auto
  obtain x where "randrange rnd 0 256 (Suc k) = Some (Inr x, Suc (Suc k))" using randrange_run [of 0 256 rnd "Suc k"] by auto
  then show ?thesis using p by (auto simp: flip1_def bind_def ret_def is_mutant_def)
qed

lemma flip_from_run:
  "\<exists>d k'. flip_from rnd pos wd b k = Some (Inr d, k') \<and> length d = length b \<and>
     (\<forall>i < length b. i < pos \<or> pos + wd \<le> i \<longrightarrow> d ! i = b ! i)"
proof (induction wd arbitrary: pos b k)
  case (Suc wd)
  show ?case
  proof (cases "pos < length b")
    case True
    obtain x where x: "randrange rnd 0 256 k = Some (Inr x, Suc k)" using randrange_run [of 0 256 rnd k] by auto
    obtain d k' where "flip_from rnd (Suc pos) wd (b[pos := word_of_nat x]) (Suc k) = Some (Inr d, k')"
      "length d = length b" "\<forall>i < length b. i < Suc pos \<or> Suc pos + wd \<le> i \<longrightarrow> d ! i = b[pos := word_of_nat x] ! i"
      using Suc.IH [of "Suc pos" "b[pos := word_of_nat x]" "Suc k"] by auto
    then show ?thesis using True x by (auto simp: bind_def)
  next
    case False
    obtain d k' where "flip_from rnd (Suc pos) wd b k = Some (Inr d, k')"
      "length d = length b" "\<forall>i < length b. i < Suc pos \<or> Suc pos + wd \<le> i \<longrightarrow> d ! i = b ! i"
      using Suc.IH [of "Suc pos" b k] by auto
    then show ?thesis using False by auto
  qed
qed (simp add: ret_def)

lemma flipN_run: "\<exists>m k'. flipN rnd good k = Some (Inr m, k') \<and> is_mutant good (snd m)"
proof -
  obtain pos where p: "randrange rnd 0 (max 1 (length good - 32)) k = Some (Inr pos, Suc k)"
    using randrange_run [of 0 "max 1 (length good - 32)" rnd k] by (force simp: less_max_iff_disj)
  obtain wd where l: "randrange rnd 1 32 (Suc k) = Some (Inr wd, Suc (Suc k))" "wd < 32"
    using randrange_run [of 1 32 rnd "Suc k"] by auto
  obtain d k' where d: "flip_from rnd pos wd good (Suc (Suc k)) = Some (Inr d, k')" "length d = length good"
    "\<forall>i < length good. i < pos \<or> pos + wd \<le> i \<longrightarrow> d ! i = good ! i" using flip_from_run by blast
  then have "is_mutant good d" using l(2) unfolding is_mutant_def by blast
  then show ?thesis using p l d by (simp add: flipN_def bind_def ret_def)
qed

lemma tail_mutant_run: "\<exists>m k'. tail_mutant rnd good k = Some (Inr m, k') \<and> is_mutant good (snd m)"
proof -
  obtain n where n: "randrange rnd 1 4096 k = Some (Inr n, Suc k)" "1 \<le> n" "n < 4096"
    using randrange_run [of 1 4096 rnd k] by auto
  obtain xs k' where xs: "draws n (randrange rnd 0 256) (Suc k) = Some (Inr xs, k')" "length xs = n"
    using draws_all [of "randrange rnd 0 256" "\<lambda>_. True" n "Suc k"] randrange_run [of 0 256 rnd] by fastforce
  have "is_mutant good (good @ map word_of_nat xs)"
    unfolding is_mutant_def using n xs(2) by (intro disjI2) (auto intro!: exI [of _ "map word_of_nat xs"])
  then show ?thesis using n xs by (simp add: tail_mutant_def bind_def ret_def)
qed

lemma is_mutant_field:
  "(off, w) \<in> set FIELDS \<Longrightarrow> v \<in> set EXTREMES \<Longrightarrow> is_mutant good (poke off (le_bytes w (v mod 256 ^ w)) good)"
  unfolding is_mutant_def by blast

lemma is_mutant_take: "k \<le> length good \<Longrightarrow> is_mutant good (take k good)"
  unfolding is_mutant_def by blast

lemma field_mutants_iff:
  "m \<in> set (field_mutants good) \<longleftrightarrow> (\<exists>ow \<in> set FIELDS. \<exists>v \<in> set EXTREMES. m = field_mutant good ow v)"
  by (auto simp: field_mutants_def)

lemma field_mutants_are: "m \<in> set (field_mutants good) \<Longrightarrow> is_mutant good (snd m)"
  by (auto simp: field_mutants_iff field_mutant_def Let_def intro: is_mutant_field)

lemma trunc_mutants_are: "m \<in> set (trunc_mutants good) \<Longrightarrow> is_mutant good (snd m)"
  by (auto simp: trunc_mutants_def intro!: is_mutant_take)

lemma mutants_run:
  assumes "good \<noteq> []"
  shows "\<exists>ms k'. mutants rnd good k = Some (Inr ms, k') \<and> list_all (\<lambda>m. is_mutant good (snd m)) ms \<and>
    length ms = 210 + length (field_mutants good) + length (trunc_mutants good)"
proof -
  let ?P = "\<lambda>m. is_mutant good (snd m)"
  obtain a k1 where a: "draws 120 (flip1 rnd good) k = Some (Inr a, k1)" "length a = 120" "list_all ?P a"
    using draws_all [of "flip1 rnd good" ?P 120 k] flip1_run [OF assms] by blast
  obtain b k2 where b: "draws 80 (flipN rnd good) k1 = Some (Inr b, k2)" "length b = 80" "list_all ?P b"
    using draws_all [of "flipN rnd good" ?P 80 k1] flipN_run by blast
  obtain e k3 where e: "draws 10 (tail_mutant rnd good) k2 = Some (Inr e, k3)" "length e = 10" "list_all ?P e"
    using draws_all [of "tail_mutant rnd good" ?P 10 k2] tail_mutant_run by blast
  show ?thesis using a b e field_mutants_are trunc_mutants_are
    by (auto simp: mutants_def bind_def ret_def list_all_iff)
qed

section \<open>Classifying a run\<close>

datatype verdict = Accepted | Rejected | CRASH | HANG

datatype child =
    Exited int bytes      \<comment> \<open>return code (negative: a signal), output\<close>
  | StillRunning          \<comment> \<open>\<open>TimeoutExpired\<close>\<close>
  | NotStarted exn

text \<open>\<open>str.lower()\<close> as far as an ASCII text can be found in the result: the capital letters, the two
  other characters whose lower case has an ASCII letter; every other lower case is not ASCII.\<close>

fun lower :: "pystr \<Rightarrow> pystr" where
  "lower [] = []"
| "lower (c # cs) =
     (if 65 \<le> c \<and> c \<le> 90 then [c + 32] else if c = 0x130 then [105, 0x307] else if c = 0x212a then [107] else [c]) @ lower cs"

definition crash_marks :: "pystr list" where
  "crash_marks = [lit ''panic'', lit ''segmentation'', lit ''reached unreachable'', lit ''index out of bounds'',
     lit ''integer overflow'', lit ''sanitizer'', lit ''cast truncated'']"

definition crashed :: "int \<Rightarrow> pystr \<Rightarrow> bool" where
  "crashed rc out \<longleftrightarrow> rc < 0 \<or> rc \<in> {134, 133, 139, 132} \<or> list_ex (\<lambda>m. contains m (lower out)) crash_marks"

type_synonym runner = "world \<Rightarrow> pystr \<Rightarrow> nat \<Rightarrow> nat \<times> fs \<times> child"

text \<open>\<open>subprocess.run(..., preexec_fn=_child_limits)\<close>\<close>

definition capped :: "(caps \<Rightarrow> runner) \<Rightarrow> exn + caps \<Rightarrow> runner" where
  "capped run limits =
     (case limits of Inl e \<Rightarrow> (\<lambda>w d to. (0, fs w, NotStarted SubprocessError)) | Inr caps \<Rightarrow> run caps)"

definition classify :: "env \<Rightarrow> runner \<Rightarrow> pystr \<Rightarrow> pystr \<Rightarrow> nat \<Rightarrow> (verdict \<times> pystr) sys" where
  "classify E run d conf timeout =
     seq (write_text E (join d (lit ''nether.conf'')) conf) (\<lambda>w.
       let (dt, f, r) = run w d timeout; w' = w\<lparr>clock := clock w + dt, fs := f\<rparr> in
       case r of
         NotStarted e \<Rightarrow> Some (Inl e, w')
       | StillRunning \<Rightarrow> Some (Inr (HANG, []), w')
       | Exited rc b \<Rightarrow>
           let out = decode b in
           Some (Inr (if crashed rc out then (CRASH, out) else (if rc = 0 then Accepted else Rejected, out)), w'))"

section \<open>The fuzzing run\<close>

text \<open>Each mutant is written to \<open>mpath\<close> and classified; the verdicts, in order.\<close>

fun classify_all :: "env \<Rightarrow> runner \<Rightarrow> pystr \<Rightarrow> pystr \<Rightarrow> pystr \<Rightarrow> nat \<Rightarrow> mutant list \<Rightarrow> verdict list sys" where
  "classify_all E run d mpath conf timeout [] = ret []"
| "classify_all E run d mpath conf timeout ((nm, data) # ms) =
     seq (write_file E mpath data) (
     bind (classify E run d conf timeout) (\<lambda>(c, out).
     bind (classify_all E run d mpath conf timeout ms) (\<lambda>cs. ret (c # cs))))"

definition fuzz_meta :: "pystr \<Rightarrow> nat \<Rightarrow> (sock, pystr) io" where
  "fuzz_meta line to =
     seq (send_line line) (
     seq (settimeout to) (
     bind (iterate (read_body (recv 256) (\<lambda>b. 10 \<in> set b) (\<lambda>b. ret (Inr b)) id) []) (\<lambda>b.
     ret (strip (decode b)))))"

text \<open>\<open>p.wait(timeout=10)\<close> is the parameter \<open>wait\<close>: the time it takes, whether the process has exited.\<close>

definition proc_wait :: "env \<Rightarrow> (world \<Rightarrow> nat \<times> bool) \<Rightarrow> unit sys" where
  "proc_wait E wait w =
     (let (dt, exited) = wait w; w' = elapse E dt w in
      if exited then Some (Inr (), w') else Some (Inl TimeoutExpired, w'))"

definition fuzz_bake_base :: "env \<Rightarrow> (world \<Rightarrow> nat \<times> bool) \<Rightarrow> pystr \<Rightarrow> pystr option sys" where
  "fuzz_bake_base E wait WORK =
     (let base = join WORK (lit ''base''); csk = join base (lit ''c.sock''); snap = join base (lit ''base.snap'') in
      seq (makedirs E base False) (
      seq (symlink E (NB E @ lit ''/kernels'') (join base (lit ''kernels''))) (
      seq (write_text E (join base (lit ''nether.conf''))
             (lit ''control_socket=c.sock'' @ [10] @ lit ''ram_mb=512'' @ [10] @ lit ''cpus=2'' @ [10])) (
      seq (launch E base (lit ''boot.log'')) (
      bind time_time (\<lambda>t0.
      seq (poll E t0 (seconds 40) 100000 (bind (path_exists E csk) (\<lambda>x. ret (if x then Some () else None)))) (
      bind (connect E csk (seconds 20)) (\<lambda>s.
      seq (retry E 120 (bind (on_sock E s (park_cmd (lit ''echo ready'') (seconds 5))) (\<lambda>r.
             ret (contains (lit ''ready'') r)))) (
      bind (on_sock E s (fuzz_meta (lit ''__snapshot__ base.snap'') (seconds 90))) (\<lambda>rep.
      seq (swallow (on_sock E s (park_cmd (lit ''__shutdown__'') (seconds 5)))) (
      seq (proc_wait E wait) (
      bind (path_exists E snap) (\<lambda>x.
      ret (if contains (lit ''OK'') rep \<and> x then Some snap else None)))))))))))))) "

datatype failure = Pristine verdict | Parser nat nat | Restore nat

text \<open>The opt-in live pass: only a crash counts.\<close>

definition live_pass :: "env \<Rightarrow> runner \<Rightarrow> (nat \<Rightarrow> nat) \<Rightarrow> nat \<Rightarrow> nat \<Rightarrow> pystr \<Rightarrow> pystr \<Rightarrow> mutant list \<Rightarrow> failure list sys" where
  "live_pass E run rnd k live WORK mpath muts =
     (if live = 0 then ret []
      else
        let rdir = join WORK (lit ''r'') in
        seq (makedirs E rdir False) (
        seq (symlink E (NB E @ lit ''/kernels'') (join rdir (lit ''kernels''))) (
        bind (case sample rnd (min live (length muts)) muts k of
                Some (Inr (xs), _) \<Rightarrow> ret xs | Some (Inl e, _) \<Rightarrow> raise e | None \<Rightarrow> (\<lambda>_. None)) (\<lambda>subset.
        bind (classify_all E run rdir mpath
               (lit ''restore=1'' @ [10] @ lit ''restore_from='' @ mpath @ [10] @ lit ''control_socket=r.sock'' @ [10] @
                lit ''ram_mb=512'' @ [10]) (seconds 12) subset) (\<lambda>cs.
        let rcrash = length (filter (\<lambda>c. c = CRASH) cs) in
        ret (if rcrash \<noteq> 0 then [Restore rcrash] else [])))))) "

text \<open>The mutants through the parser, given the verdict \<open>c\<close> on the pristine file.\<close>

definition fuzz_mutants :: "env \<Rightarrow> runner \<Rightarrow> (nat \<Rightarrow> nat) \<Rightarrow> nat \<Rightarrow> pystr \<Rightarrow> bytes \<Rightarrow> verdict \<Rightarrow> failure list option sys" where
  "fuzz_mutants E run rnd live WORK good c =
     (let vdir = join WORK (lit ''v''); mpath = join WORK (lit ''m.snap'') in
      case mutants rnd good 0 of
        None \<Rightarrow> (\<lambda>_. None)
      | Some (Inl e, _) \<Rightarrow> raise e
      | Some (Inr muts, k) \<Rightarrow>
          bind (classify_all E run vdir mpath (lit ''validate_snapshot='' @ mpath @ [10]) (seconds 8) muts) (\<lambda>cs.
          let crashes = length (filter (\<lambda>c. c = CRASH) cs); hangs = length (filter (\<lambda>c. c = HANG) cs) in
          bind (live_pass E run rnd k live WORK mpath muts) (\<lambda>lf.
          ret (Some ((if c \<noteq> Accepted then [Pristine c] else []) @
                     (if crashes \<noteq> 0 \<or> hangs \<noteq> 0 then [Parser crashes hangs] else []) @ lf)))))"

definition fuzz_rest :: "env \<Rightarrow> runner \<Rightarrow> (nat \<Rightarrow> nat) \<Rightarrow> nat \<Rightarrow> pystr \<Rightarrow> pystr \<Rightarrow> failure list option sys" where
  "fuzz_rest E run rnd live WORK snap =
     (let vdir = join WORK (lit ''v'') in
      bind (read_file E snap) (\<lambda>good.
      bind (seq (makedirs E vdir False) (symlink E (NB E @ lit ''/kernels'') (join vdir (lit ''kernels'')))) (\<lambda>_.
      bind (classify E run vdir (lit ''validate_snapshot='' @ snap @ [10]) (seconds 8)) (\<lambda>(c, out).
      fuzz_mutants E run rnd live WORK good c))))"

text \<open>The body of the \<open>try\<close>: \<open>None\<close> when no base could be baked, else the failures.\<close>

definition fuzz_body :: "env \<Rightarrow> runner \<Rightarrow> (world \<Rightarrow> nat \<times> bool) \<Rightarrow> (nat \<Rightarrow> nat) \<Rightarrow> nat \<Rightarrow> pystr \<Rightarrow> failure list option sys" where
  "fuzz_body E run wait rnd live WORK =
     bind (fuzz_bake_base E wait WORK) (\<lambda>snap.
     case snap of None \<Rightarrow> ret None | Some snap \<Rightarrow> fuzz_rest E run rnd live WORK snap)"

definition fuzz_main ::
    "env \<Rightarrow> (rlimit \<Rightarrow> int \<Rightarrow> int \<Rightarrow> exn option) \<Rightarrow> (caps \<Rightarrow> runner) \<Rightarrow> (world \<Rightarrow> nat \<times> bool) \<Rightarrow> (nat \<Rightarrow> nat) \<Rightarrow> int sys" where
  "fuzz_main E setr run wait rnd =
     bind (lift (read_config E)) (\<lambda>cfg.
     bind (path_exists E (BIN E)) (\<lambda>b.
     if \<not> b then ret 1
     else
       let WORK = or_default (environ E (lit ''NETHER_WORK'')) (lit ''/tmp/nfz'') in
       seq (rmtree E WORK) (
       seq (makedirs E WORK False) (
       bind (try_finally (fuzz_body E (capped run (child_limits setr cfg)) wait rnd (nat (LIVE_RESTORES cfg)) WORK)
              (rmtree E WORK)) (\<lambda>fails.
       ret (if fails = Some [] then 0 else 1))))))"

text \<open>However many live restores the environment asks for, at most 24 VMs are started for them.\<close>

lemma sample_length: "sample rnd m xs k = Some (Inr ys, k') \<Longrightarrow> length ys = m"
  by (induction m arbitrary: xs k ys) (auto simp: bind_Inr_iff ret_def)

lemma live_restores_bounded:
  assumes "read_config E = Inr cfg"
    and "sample rnd (min (nat (LIVE_RESTORES cfg)) (length muts)) muts k = Some (Inr chosen, k')"
  shows "length chosen \<le> 24"
proof -
  have "LIVE_RESTORES cfg \<le> 24" using assms(1) by (auto simp: read_config_def ebind_eq_Inr)
  then show ?thesis using sample_length [OF assms(2)] by simp
qed

section \<open>Properties\<close>

text \<open>
  C23: for every seed and every non-empty snapshot, \<open>mutants\<close> returns a list in which every entry
  is the snapshot with one byte, one window of at most 31 bytes or one header field changed, cut
  short, or extended; it holds 338 of them and the truncations, every extreme of every listed field
  and the empty file among them.
\<close>

theorem mutants_cover:
  assumes "good \<noteq> []"
  shows "\<exists>ms k'. mutants rnd good k = Some (Inr ms, k') \<and> list_all (\<lambda>m. is_mutant good (snd m)) ms \<and>
    length ms = 338 + length (trunc_mutants good) \<and> set (field_mutants good) \<subseteq> set ms \<and> [] \<in> snd ` set ms"
proof -
  obtain ms k' where ms: "mutants rnd good k = Some (Inr ms, k')" "list_all (\<lambda>m. is_mutant good (snd m)) ms"
    "length ms = 210 + length (field_mutants good) + length (trunc_mutants good)"
    using mutants_run [OF assms] by blast
  have sub: "set (field_mutants good) \<subseteq> set ms" "set (trunc_mutants good) \<subseteq> set ms"
    using ms(1) by (auto simp: mutants_def bind_def ret_def split: option.splits sum.splits)
  have "0 \<in> set (cut_points (length good))" by (simp add: cut_points_def Let_def)
  then have "[] \<in> snd ` set (trunc_mutants good)" by (force simp: trunc_mutants_def)
  moreover have "length (field_mutants good) = 128" by (simp add: field_mutants_def FIELDS_def EXTREMES_def)
  ultimately show ?thesis using ms sub by auto
qed

theorem mutants_cover_witness:
  "\<exists>ms k'. mutants (\<lambda>i. i) [1, 2] 0 = Some (Inr ms, k') \<and> list_all (\<lambda>m. is_mutant [1, 2] (snd m)) ms \<and>
    length ms = 338 + length (trunc_mutants [1, 2]) \<and> set (field_mutants [1, 2]) \<subseteq> set ms \<and> [] \<in> snd ` set ms"
  by (rule mutants_cover) simp

text \<open>
  C40: the field list stops short of the fields that the content diffs added: no field mutant of
  a snapshot changes its RAM encoding (offset 84), its number of diff pages (96) or the size of
  its base (100), although the parser trusts all three.
\<close>

theorem fields_miss_diff_fields:
  assumes "m \<in> set (field_mutants good)" and "128 \<le> length good"
  shows "peek 84 4 (snd m) = peek 84 4 good \<and> peek 96 12 (snd m) = peek 96 12 good"
proof -
  obtain off w v where ow: "(off, w) \<in> set FIELDS" "snd m = poke off (le_bytes w (v mod 256 ^ w)) good"
    using assms(1) by (auto simp: field_mutants_iff field_mutant_def Let_def)
  have "off + w \<le> 84 \<or> 88 \<le> off \<and> off + w \<le> 96" using ow(1) by (auto simp: FIELDS_def)
  then show ?thesis using assms(2) ow(2) by auto
qed

theorem fields_miss_diff_fields_witness:
  "peek 84 4 (snd (field_mutant (replicate 128 7) (80, 4) 1)) = peek 84 4 (replicate 128 7) \<and>
   peek 96 12 (snd (field_mutant (replicate 128 7) (80, 4) 1)) = peek 96 12 (replicate 128 7)"
proof (rule fields_miss_diff_fields)
  show "field_mutant (replicate 128 7) (80, 4) 1 \<in> set (field_mutants (replicate 128 7))"
    unfolding field_mutants_iff by (intro bexI [of _ "(80, 4)"] bexI [of _ 1]) (simp_all add: FIELDS_def EXTREMES_def)
qed simp

lemma seq_Inr_iff: "seq m n s = Some (Inr b, s') \<longleftrightarrow> (\<exists>a t. m s = Some (Inr a, t) \<and> n t = Some (Inr b, s'))"
  by (auto simp: seq_Some_iff)

lemma no_count: "length (filter (\<lambda>c. c = x) cs) = 0 \<longleftrightarrow> list_all (\<lambda>c. c \<noteq> x) cs"
  by (auto simp: filter_empty_conv list_all_iff)

text \<open>What the children do, without looking at it: one run of the binary over a configuration, and one for
  each mutant in turn.\<close>

definition one_run :: "env \<Rightarrow> runner \<Rightarrow> pystr \<Rightarrow> pystr \<Rightarrow> nat \<Rightarrow> world \<Rightarrow> (child \<times> world) option" where
  "one_run E run d conf to w =
     (case write_text E (join d (lit ''nether.conf'')) conf w of
        Some (Inr _, w1) \<Rightarrow> (let (dt, f, c) = run w1 d to in Some (c, w1\<lparr>clock := clock w1 + dt, fs := f\<rparr>))
      | _ \<Rightarrow> None)"

fun runs :: "env \<Rightarrow> runner \<Rightarrow> pystr \<Rightarrow> pystr \<Rightarrow> pystr \<Rightarrow> nat \<Rightarrow> mutant list \<Rightarrow> world \<Rightarrow> (child list \<times> world) option" where
  "runs E run d mpath conf to [] w = Some ([], w)"
| "runs E run d mpath conf to (m # ms) w =
     (case write_file E mpath (snd m) w of
        Some (Inr _, w1) \<Rightarrow>
          (case one_run E run d conf to w1 of
             None \<Rightarrow> None
           | Some (c, w2) \<Rightarrow> map_option (\<lambda>(cs, w'). (c # cs, w')) (runs E run d mpath conf to ms w2))
      | _ \<Rightarrow> None)"

text \<open>A child that ended by itself: no signal, none of the exit codes of one, and no crash report in its output.\<close>

definition ended_well :: "child \<Rightarrow> bool" where
  "ended_well c \<longleftrightarrow>
     (case c of
        Exited rc b \<Rightarrow> 0 \<le> rc \<and> rc \<noteq> 132 \<and> rc \<noteq> 133 \<and> rc \<noteq> 134 \<and> rc \<noteq> 139 \<and>
          \<not> contains (lit ''panic'') (lower (decode b)) \<and> \<not> contains (lit ''segmentation'') (lower (decode b)) \<and>
          \<not> contains (lit ''reached unreachable'') (lower (decode b)) \<and>
          \<not> contains (lit ''index out of bounds'') (lower (decode b)) \<and>
          \<not> contains (lit ''integer overflow'') (lower (decode b)) \<and> \<not> contains (lit ''sanitizer'') (lower (decode b)) \<and>
          \<not> contains (lit ''cast truncated'') (lower (decode b))
      | _ \<Rightarrow> False)"

definition judge :: "child \<Rightarrow> verdict option" where
  "judge c =
     (case c of
        Exited rc b \<Rightarrow> Some (if \<not> ended_well c then CRASH else if rc = 0 then Accepted else Rejected)
      | StillRunning \<Rightarrow> Some HANG
      | NotStarted e \<Rightarrow> None)"

lemma ended_well_crashed: "ended_well (Exited rc b) \<longleftrightarrow> \<not> crashed rc (decode b)"
  by (auto simp: ended_well_def crashed_def crash_marks_def)

lemma classify_judge:
  "(\<exists>out. classify E run d conf to w = Some (Inr (v, out), w')) \<longleftrightarrow>
     (\<exists>c. one_run E run d conf to w = Some (c, w') \<and> judge c = Some v)"
  by (cases "write_text E (join d (lit ''nether.conf'')) conf w")
     (auto simp: classify_def one_run_def judge_def seq_def bind_def Let_def ended_well_crashed
       split: sum.splits prod.splits child.splits)

lemma classify_all_judge:
  "(\<exists>vs. classify_all E run d mpath conf to ms w = Some (Inr vs, w') \<and> list_all P vs) \<longleftrightarrow>
     (\<exists>cs. runs E run d mpath conf to ms w = Some (cs, w') \<and> list_all (\<lambda>c. \<exists>v. judge c = Some v \<and> P v) cs)"
proof (induction ms arbitrary: w)
  case (Cons m ms)
  obtain nm data where m: "m = (nm, data)" by (cases m)
  have "(\<exists>vs. classify_all E run d mpath conf to (m # ms) w = Some (Inr vs, w') \<and> list_all P vs) \<longleftrightarrow>
      (\<exists>a w1 v w2. write_file E mpath data w = Some (Inr a, w1) \<and> (\<exists>out. classify E run d conf to w1 = Some (Inr (v, out), w2)) \<and>
        P v \<and> (\<exists>vs. classify_all E run d mpath conf to ms w2 = Some (Inr vs, w') \<and> list_all P vs))"
    unfolding m by (auto simp: seq_Inr_iff bind_Inr_iff ret_def)
  also have "\<dots> \<longleftrightarrow> (\<exists>a w1 c w2. write_file E mpath data w = Some (Inr a, w1) \<and> one_run E run d conf to w1 = Some (c, w2) \<and>
        (\<exists>v. judge c = Some v \<and> P v) \<and>
        (\<exists>cs. runs E run d mpath conf to ms w2 = Some (cs, w') \<and> list_all (\<lambda>c. \<exists>v. judge c = Some v \<and> P v) cs))"
    unfolding classify_judge Cons.IH by blast
  also have "\<dots> \<longleftrightarrow> (\<exists>cs. runs E run d mpath conf to (m # ms) w = Some (cs, w') \<and> list_all (\<lambda>c. \<exists>v. judge c = Some v \<and> P v) cs)"
    unfolding m by (fastforce split: option.splits sum.splits prod.splits)
  finally show ?case .
qed (auto simp: ret_def)

lemma judge_clean: "(\<exists>v. judge c = Some v \<and> v \<noteq> CRASH \<and> v \<noteq> HANG) \<longleftrightarrow> ended_well c"
  by (cases c) (auto simp: judge_def ended_well_def)

lemma judge_no_crash: "(\<exists>v. judge c = Some v \<and> v \<noteq> CRASH) \<longleftrightarrow> ended_well c \<or> c = StillRunning"
  by (cases c) (auto simp: judge_def ended_well_def)

lemma judge_accepted: "judge c = Some Accepted \<longleftrightarrow> ended_well c \<and> (\<exists>b. c = Exited 0 b)"
  by (cases c) (auto simp: judge_def ended_well_def)

text \<open>The live pass reports nothing exactly when it was not asked for, or no restore of the chosen mutants
  crashed.\<close>

lemma live_pass_clean:
  "live_pass E run rnd k live WORK mpath ms w = Some (Inr [], w') \<longleftrightarrow>
     (if live = 0 then w' = w
      else \<exists>chosen k' w1 rs.
        seq (makedirs E (join WORK (lit ''r'')) False)
          (symlink E (NB E @ lit ''/kernels'') (join (join WORK (lit ''r'')) (lit ''kernels''))) w = Some (Inr (), w1) \<and>
        sample rnd (min live (length ms)) ms k = Some (Inr chosen, k') \<and>
        runs E run (join WORK (lit ''r'')) mpath
          (lit ''restore=1'' @ [10] @ lit ''restore_from='' @ mpath @ [10] @ lit ''control_socket=r.sock'' @ [10] @
           lit ''ram_mb=512'' @ [10]) (seconds 12) chosen w1 = Some (rs, w') \<and>
        list_all (\<lambda>r. ended_well r \<or> r = StillRunning) rs)"
proof (cases "live = 0")
  case False
  let ?dirs = "seq (makedirs E (join WORK (lit ''r'')) False)
          (symlink E (NB E @ lit ''/kernels'') (join (join WORK (lit ''r'')) (lit ''kernels'')))"
  let ?conf = "lit ''restore=1'' @ [10] @ lit ''restore_from='' @ mpath @ [10] @ lit ''control_socket=r.sock'' @ [10] @
           lit ''ram_mb=512'' @ [10]"
  have "live_pass E run rnd k live WORK mpath ms w = Some (Inr [], w') \<longleftrightarrow>
      (\<exists>w1 chosen k'. ?dirs w = Some (Inr (), w1) \<and> sample rnd (min live (length ms)) ms k = Some (Inr chosen, k') \<and>
        (\<exists>vs. classify_all E run (join WORK (lit ''r'')) mpath ?conf (seconds 12) chosen w1 = Some (Inr vs, w') \<and>
          list_all (\<lambda>v. v \<noteq> CRASH) vs))"
    using False
    by (auto simp: live_pass_def Let_def seq_Inr_iff bind_Inr_iff ret_def raise_def no_count [symmetric]
        split: option.splits sum.splits if_splits)
  then show ?thesis using False unfolding classify_all_judge judge_no_crash by auto
qed (auto simp: live_pass_def ret_def)

text \<open>
  C22: the fuzzer's body finds no failure exactly when these children ended well, that is by themselves, with no
  signal, no exit code of one and no crash report in the output: the run over the pristine snapshot, with
  exit code 0; the run over every one of the mutants; and, when live restores are asked for, each restore of
  the mutants drawn for that, except that a restore may still be running when its time is up.
\<close>

theorem fuzz_passes_iff:
  "fuzz_body E run wait rnd live WORK w = Some (Inr (Some []), w') \<longleftrightarrow>
     (\<exists>snap w1 good w2 out w3 ms k cs w4.
        fuzz_bake_base E wait WORK w = Some (Inr (Some snap), w1) \<and> contents E snap w1 = Some good \<and>
        seq (makedirs E (join WORK (lit ''v'')) False)
          (symlink E (NB E @ lit ''/kernels'') (join (join WORK (lit ''v'')) (lit ''kernels''))) w1 = Some (Inr (), w2) \<and>
        one_run E run (join WORK (lit ''v'')) (lit ''validate_snapshot='' @ snap @ [10]) (seconds 8) w2 = Some (Exited 0 out, w3) \<and>
        ended_well (Exited 0 out) \<and>
        mutants rnd good 0 = Some (Inr ms, k) \<and>
        runs E run (join WORK (lit ''v'')) (join WORK (lit ''m.snap''))
          (lit ''validate_snapshot='' @ join WORK (lit ''m.snap'') @ [10]) (seconds 8) ms w3 = Some (cs, w4) \<and>
        list_all ended_well cs \<and>
        (if live = 0 then w' = w4
         else \<exists>chosen k' w5 rs.
           seq (makedirs E (join WORK (lit ''r'')) False)
             (symlink E (NB E @ lit ''/kernels'') (join (join WORK (lit ''r'')) (lit ''kernels''))) w4 = Some (Inr (), w5) \<and>
           sample rnd (min live (length ms)) ms k = Some (Inr chosen, k') \<and>
           runs E run (join WORK (lit ''r'')) (join WORK (lit ''m.snap''))
             (lit ''restore=1'' @ [10] @ lit ''restore_from='' @ join WORK (lit ''m.snap'') @ [10] @ lit ''control_socket=r.sock'' @ [10] @
              lit ''ram_mb=512'' @ [10]) (seconds 12) chosen w5 = Some (rs, w') \<and>
           list_all (\<lambda>r. ended_well r \<or> r = StillRunning) rs))"
proof -
  let ?v = "join WORK (lit ''v'')" and ?m = "join WORK (lit ''m.snap'')"
  let ?dirs = "seq (makedirs E ?v False) (symlink E (NB E @ lit ''/kernels'') (join ?v (lit ''kernels'')))"
  let ?all = "classify_all E run ?v ?m (lit ''validate_snapshot='' @ ?m @ [10]) (seconds 8)"
  have muts: "fuzz_mutants E run rnd live WORK good c u = Some (Inr (Some []), w') \<longleftrightarrow>
      (\<exists>ms k w4. c = Accepted \<and> mutants rnd good 0 = Some (Inr ms, k) \<and>
        (\<exists>vs. ?all ms u = Some (Inr vs, w4) \<and> list_all (\<lambda>v. v \<noteq> CRASH \<and> v \<noteq> HANG) vs) \<and>
        live_pass E run rnd k live WORK ?m ms w4 = Some (Inr [], w'))" for good c u
    unfolding fuzz_mutants_def Let_def
    by (auto simp: bind_Inr_iff ret_def raise_def filter_empty_conv list_all_iff split: option.splits sum.splits if_splits)
  have pristine: "(\<exists>out. classify E run ?v conf (seconds 8) u = Some (Inr (Accepted, out), u')) \<longleftrightarrow>
      (\<exists>out. one_run E run ?v conf (seconds 8) u = Some (Exited 0 out, u') \<and> ended_well (Exited 0 out))" for conf u u'
    unfolding classify_judge judge_accepted by auto
  have "fuzz_body E run wait rnd live WORK w = Some (Inr (Some []), w') \<longleftrightarrow>
      (\<exists>snap w1 good w2 w3. fuzz_bake_base E wait WORK w = Some (Inr (Some snap), w1) \<and> contents E snap w1 = Some good \<and>
        ?dirs w1 = Some (Inr (), w2) \<and>
        (\<exists>out. classify E run ?v (lit ''validate_snapshot='' @ snap @ [10]) (seconds 8) w2 = Some (Inr (Accepted, out), w3)) \<and>
        fuzz_mutants E run rnd live WORK good Accepted w3 = Some (Inr (Some []), w'))"
    (is "?lhs \<longleftrightarrow> ?rhs")
  proof
    assume ?lhs
    then obtain snap w1 where 1: "fuzz_bake_base E wait WORK w = Some (Inr (Some snap), w1)"
      and l1: "fuzz_rest E run rnd live WORK snap w1 = Some (Inr (Some []), w')"
      by (auto simp: fuzz_body_def bind_Inr_iff ret_def split: option.splits)
    from l1 obtain good w2 c out w3 where 2: "contents E snap w1 = Some good" "?dirs w1 = Some (Inr (), w2)"
      "classify E run ?v (lit ''validate_snapshot='' @ snap @ [10]) (seconds 8) w2 = Some (Inr (c, out), w3)"
      and l2: "fuzz_mutants E run rnd live WORK good c w3 = Some (Inr (Some []), w')"
      by (auto simp: fuzz_rest_def bind_read_file seq_Inr_iff bind_Inr_iff Let_def split: option.splits)
    moreover have "c = Accepted" using l2 unfolding muts by blast
    ultimately show ?rhs using 1 by blast
  next
    assume ?rhs
    then obtain snap w1 good w2 out w3 where 1: "fuzz_bake_base E wait WORK w = Some (Inr (Some snap), w1)"
      and 2: "contents E snap w1 = Some good" "?dirs w1 = Some (Inr (), w2)"
      "classify E run ?v (lit ''validate_snapshot='' @ snap @ [10]) (seconds 8) w2 = Some (Inr (Accepted, out), w3)"
      "fuzz_mutants E run rnd live WORK good Accepted w3 = Some (Inr (Some []), w')" by blast
    then have "fuzz_rest E run rnd live WORK snap w1 = Some (Inr (Some []), w')"
      by (auto simp: fuzz_rest_def bind_read_file seq_Inr_iff bind_Inr_iff Let_def)
    with 1 show ?lhs by (simp add: fuzz_body_def io_simps)
  qed
  then show ?thesis unfolding pristine muts classify_all_judge judge_clean live_pass_clean by blast
qed

end
