(* ===== verification/Clocks.thy ===== *)
theory Clocks
  imports Parks Fuzz
begin

text \<open>
  The guest's clocks across a park: \<open>scripts/park_timer_proof.py\<close> (the uptime goes on where it stopped, a
  timer keeps its remaining time) and \<open>scripts/wallclock_proof.py\<close> (the wall clock stands still until
  \<open>hwclock -s\<close>).  A float is an exact rational, an infinity or not a number: rounding to a double is not
  modelled.  Times are seconds, the host's clock counts microseconds.
\<close>

section \<open>Floats\<close>

datatype flt = Fin rat | Inf bool | Nan      \<comment> \<open>\<open>Inf True\<close>: negative\<close>

fun flt_less :: "flt \<Rightarrow> flt \<Rightarrow> bool" where
  "flt_less (Fin x) (Fin y) = (x < y)"
| "flt_less (Fin x) (Inf neg) = (\<not> neg)"
| "flt_less (Inf neg) (Fin y) = neg"
| "flt_less (Inf a) (Inf b) = (a \<and> \<not> b)"
| "flt_less _ _ = False"

fun flt_add :: "flt \<Rightarrow> rat \<Rightarrow> flt" where
  "flt_add (Fin x) r = Fin (x + r)"
| "flt_add v r = v"

text \<open>A run of digits, and how many there are; nothing at all is fine here.\<close>

definition digits_opt :: "pystr \<Rightarrow> (nat \<times> nat) option" where
  "digits_opt s =
     (if s = [] then Some (0, 0) else map_option (\<lambda>n. (n, length (filter (\<lambda>c. c \<noteq> 95) s))) (parse_digits 0 False s))"

definition signed :: "pystr \<Rightarrow> bool \<times> pystr" where
  "signed s = (case s of c # r \<Rightarrow> if c = 45 then (True, r) else if c = 43 then (False, r) else (False, s) | [] \<Rightarrow> (False, s))"

definition mantissa :: "pystr \<Rightarrow> rat option" where
  "mantissa s =
     (case split_once 46 s of (whole, fpart) \<Rightarrow>
        case (digits_opt whole, digits_opt (case fpart of None \<Rightarrow> [] | Some f \<Rightarrow> f)) of
          (Some (a, m), Some (b, k)) \<Rightarrow> if m + k = 0 then None else Some (of_nat a + of_nat b / 10 ^ k)
        | _ \<Rightarrow> None)"

definition decimal :: "pystr \<Rightarrow> rat option" where
  "decimal s =
     (case split_once 101 (map (\<lambda>c. if c = 69 then 101 else c) s) of
        (m, None) \<Rightarrow> mantissa m
      | (m, Some x) \<Rightarrow>
          (case (mantissa m, signed x) of
             (Some r, (neg, d)) \<Rightarrow>
               if d = [] then None
               else map_option (\<lambda>n. if neg then r / 10 ^ n else r * 10 ^ n) (parse_digits 0 False d)
           | _ \<Rightarrow> None))"

text \<open>\<open>float(s)\<close>: \<open>None\<close> is the \<open>ValueError\<close>.\<close>

definition py_float :: "pystr \<Rightarrow> flt option" where
  "py_float s =
     (case signed (strip s) of (neg, u) \<Rightarrow>
        if ascii_lower u = lit ''inf'' \<or> ascii_lower u = lit ''infinity'' then Some (Inf neg)
        else if ascii_lower u = lit ''nan'' then Some Nan
        else map_option (\<lambda>r. Fin (if neg then - r else r)) (decimal u))"

definition as_float :: "pystr \<Rightarrow> exn + flt" where
  "as_float s = (case py_float s of None \<Rightarrow> Inl ValueError | Some v \<Rightarrow> Inr v)"

definition secs :: "nat \<Rightarrow> rat" where
  "secs n = of_nat n / 1000000"

section \<open>\<open>park_timer_proof.py\<close>\<close>

definition uptime :: "env \<Rightarrow> nat \<Rightarrow> flt sys" where
  "uptime E s =
     bind (guest_cmd E s (lit ''cat /proc/uptime'') (seconds 8)) (\<lambda>r.
     case words (strip r) of [] \<Rightarrow> ret (Fin (- 1)) | x # _ \<Rightarrow> lift (as_float x))"

text \<open>\<open>EgressHolder\<close> keeps every connection it accepts, in order, and never reads from one.\<close>

definition hold :: "'c \<Rightarrow> 'c list \<Rightarrow> 'c list" where
  "hold c held = held @ [c]"

text \<open>\<open>wake\<close>: only its caller notes the VM.\<close>

definition timer_wake :: "env \<Rightarrow> pystr \<Rightarrow> pystr \<Rightarrow> string \<Rightarrow> pystr \<Rightarrow> (nat \<times> nat) sys" where
  "timer_wake E d snap sockname esock =
     seq (seq (makedirs E d True) (write_text E (join d (lit ''nether.conf'')) (wake_conf snap (lit sockname) esock))) (
     bind time_time (\<lambda>t0.
     bind (launch E d (lit ''fork.log'')) (\<lambda>p.
     bind (wake_reach E (join d (lit sockname)) t0) (\<lambda>s. ret (p, s)))))"

text \<open>\<open>while up < 15.0 and time.time() - t0 < 60: time.sleep(0.5); up = uptime(s)\<close>\<close>

definition grow_old :: "env \<Rightarrow> nat \<Rightarrow> nat \<Rightarrow> flt sys" where
  "grow_old E s t0 =
     bind (uptime E s) (\<lambda>up0.
     iterate (\<lambda>up.
       bind time_time (\<lambda>t.
       if flt_less up (Fin 15) \<and> t - t0 < seconds 60
       then seq (sleep E 500000) (bind (uptime E s) (\<lambda>up. ret (Inl up)))
       else ret (Inr up))) up0)"

text \<open>The uptime before the park, how long the timer had then been armed, and the reply to the park.\<close>

definition arm_and_park :: "env \<Rightarrow> nat \<Rightarrow> (flt \<times> rat \<times> pystr) sys" where
  "arm_and_park E s =
     seq (guest_cmd E s (lit ''rm -f /tmp/t3; (sleep 3 && touch /tmp/t3) >/dev/null 2>&1 &'') (seconds 10)) (
     bind time_time (\<lambda>t_armed.
     seq (sleep E (seconds 1)) (
     bind (uptime E s) (\<lambda>up_pre.
     bind time_time (\<lambda>t_park.
     bind (park_vm E s ''park.snap'') (\<lambda>rep.
     ret (up_pre, secs t_park - secs t_armed, rep)))))))"

definition T3 :: pystr where
  "T3 = lit ''test -f /tmp/t3 && echo T3-PRESENT || echo T3-ABSENT''"

definition t3_present :: "pystr \<Rightarrow> bool" where
  "t3_present r \<longleftrightarrow> contains (lit ''T3-PRESENT'') r"

text \<open>The first answer of a woken VM: its uptime, and whether the timer has fired.\<close>

definition first_answer :: "env \<Rightarrow> nat \<Rightarrow> (flt \<times> bool) sys" where
  "first_answer E s =
     bind (guest_cmd E s (lit ''cat /proc/uptime; '' @ T3) (seconds 15)) (\<lambda>r.
     case words r of [] \<Rightarrow> raise IndexError | x # _ \<Rightarrow> bind (lift (as_float x)) (\<lambda>v. ret (v, t3_present r)))"

definition discontinuous :: "flt \<Rightarrow> flt \<Rightarrow> string list" where
  "discontinuous pre post =
     (if flt_less post (flt_add pre (- 3 / 10)) then [''uptime rewound''] else []) @
     (if flt_less (flt_add pre 4) post then [''uptime jumped''] else [])"

text \<open>\<open>while time.time() - t_first < 15.0\<close>: when the timer's file is seen.\<close>

definition see_timer :: "env \<Rightarrow> nat \<Rightarrow> nat \<Rightarrow> nat option sys" where
  "see_timer E s t_first =
     iterate (\<lambda>_.
       bind time_time (\<lambda>t.
       if \<not> t - t_first < seconds 15 then ret (Inr None)
       else
         bind (guest_cmd E s T3 (seconds 8)) (\<lambda>r.
         if t3_present r then bind time_time (\<lambda>t. ret (Inr (Some t))) else seq (sleep E 300) (ret (Inl ()))))) ()"

definition timer_off :: "rat \<Rightarrow> rat option \<Rightarrow> string list" where
  "timer_off remaining seen =
     (case seen of
        None \<Rightarrow> [''timer never fired'']
      | Some delta \<Rightarrow>
          (if delta < max (3 / 10) (remaining - 3 / 2) then [''timer fired too early''] else []) @
          (if remaining + 3 / 2 < delta then [''timer fired late''] else []))"

definition timer_checks :: "env \<Rightarrow> pystr \<Rightarrow> flt \<Rightarrow> rat \<Rightarrow> nat \<Rightarrow> string list sys" where
  "timer_checks E flog_path up_pre armed s =
     bind (first_answer E s) (\<lambda>(up_wake, early).
     bind time_time (\<lambda>t_first.
     bind (see_timer E s t_first) (\<lambda>seen.
     bind (read_log E flog_path) (\<lambda>flog.
     ret (discontinuous up_pre up_wake @ (if early then [''timer fired in the park''] else []) @
          timer_off (3 - armed) (map_option (\<lambda>t. secs t - secs t_first) seen) @
          (if contains (lit ''vtimer continuity'') flog then [] else [''no continuity line'']))))))"

definition timer_gen2 :: "env \<Rightarrow> reaper \<Rightarrow> pystr \<Rightarrow> nat \<Rightarrow> nat \<Rightarrow> string list harness" where
  "timer_gen2 E reaper WORK fp s =
     bind (on_world (uptime E s)) (\<lambda>up_pre.
     bind (on_world (park_vm E s ''park2.snap'')) (\<lambda>rep.
     bind (on_world (self_exit E reaper fp)) (\<lambda>f1.
     seq (on_world (sleep E (seconds 4))) (
     bind (then_note fst (timer_wake E (join WORK (lit ''f2'')) (join (join WORK (lit ''f1'')) (lit ''park2.snap'')) ''f2.sock''
             (join WORK (lit ''e.sock'')))) (\<lambda>(p2, s2).
     bind (on_world (first_answer E s2)) (\<lambda>(up_wake, t3).
     seq (on_world (park_bye E s2)) (
     ret (not_parked rep @ f1 @ discontinuous up_pre up_wake @ (if t3 then [] else [''state lost''])))))))))"

definition timer_body :: "env \<Rightarrow> reaper \<Rightarrow> pystr \<Rightarrow> string list harness" where
  "timer_body E reaper WORK =
     (let base = join WORK (lit ''b''); f1 = join WORK (lit ''f1'') in
      bind (boot E base (lit ''boot.log'')) (\<lambda>bp.
      bind (on_world (park_reach E (join base (lit ''c.sock'')))) (\<lambda>(t0, s).
      bind (on_world (grow_old E s t0)) (\<lambda>up.
      bind (on_world (arm_and_park E s)) (\<lambda>(up_pre, armed, rep).
      bind (on_world (self_exit E reaper bp)) (\<lambda>g1.
      seq (on_world (sleep E (seconds 10))) (
      bind (then_note fst (timer_wake E f1 (join base (lit ''park.snap'')) ''f.sock'' (join WORK (lit ''e.sock'')))) (\<lambda>(fp, fs).
      bind (on_world (timer_checks E (join f1 (lit ''fork.log'')) up_pre armed fs)) (\<lambda>g2.
      bind (timer_gen2 E reaper WORK fp fs) (\<lambda>g3.
      ret ((if flt_less up (Fin 15) then [''never reached 15 s''] else []) @ not_parked rep @ g1 @ g2 @ g3)))))))))))"

definition timer_main :: "env \<Rightarrow> reaper \<Rightarrow> int sys" where
  "timer_main E reaper =
     bind (path_exists E (BIN E)) (\<lambda>b.
     if \<not> b then ret 1
     else
       let WORK = or_default (environ E (lit ''NETHER_WORK'')) (lit ''/tmp/npt''); base = join WORK (lit ''b'') in
       seq (rmtree E WORK) (
       seq (makedirs E base False) (
       seq (symlink E (NB E @ lit ''/kernels'') (join base (lit ''kernels''))) (
       seq (write_text E (join base (lit ''nether.conf'')) (park_conf (join WORK (lit ''e.sock'')))) (
       seq (listen_at E (join WORK (lit ''e.sock''))) (
       bind (with_procs E 400000 (timer_body E reaper WORK)) (\<lambda>fails.
       ret (if fails = [] then 0 else 1))))))))"

section \<open>\<open>wallclock_proof.py\<close>\<close>

definition PARK_S :: int where
  "PARK_S = 12"

definition gepoch :: "env \<Rightarrow> nat \<Rightarrow> int option sys" where
  "gepoch E s = bind (guest_cmd E s (lit ''date -u +%s'') (seconds 5)) (\<lambda>v. ret (py_int (strip v)))"

definition guptime :: "env \<Rightarrow> nat \<Rightarrow> flt option sys" where
  "guptime E s =
     bind (guest_cmd E s (lit ''cut -d'' @ [39, 32, 39] @ lit '' -f1 /proc/uptime'') (seconds 5)) (\<lambda>v. ret (py_float (strip v)))"

text \<open>\<open>int(time.time())\<close>\<close>

definition epoch :: "int sys" where
  "epoch = bind time_time (\<lambda>t. ret (int (t div 1000000)))"

definition boot_clock :: "int option \<Rightarrow> int \<Rightarrow> string list" where
  "boot_clock gb hb =
     (case gb of
        None \<Rightarrow> [''clock not real'']
      | Some g \<Rightarrow> if g < 1700000000 then [''clock not real''] else if 3 < \<bar>hb - g\<bar> then [''clock off''] else [])"

definition frozen_clock :: "int option \<Rightarrow> int \<Rightarrow> string list" where
  "frozen_clock gpre now_s =
     (case gpre of None \<Rightarrow> [''not frozen''] | Some g \<Rightarrow> if now_s - g < PARK_S - 3 then [''not frozen''] else [])"

definition uptime_reset :: "flt option \<Rightarrow> flt option \<Rightarrow> string list" where
  "uptime_reset base_up fork_up =
     (case (fork_up, base_up) of
        (Some f, Some b) \<Rightarrow> if flt_less f (flt_add b (- 1)) then [''uptime reset''] else []
      | _ \<Rightarrow> [''uptime reset''])"

definition caught_up :: "int option \<Rightarrow> int option \<Rightarrow> int \<Rightarrow> string list" where
  "caught_up gpre gpost real2 =
     (case gpost of
        None \<Rightarrow> [''still off'']
      | Some p \<Rightarrow>
          if 3 < \<bar>real2 - p\<bar> then [''still off'']
          else case gpre of
            None \<Rightarrow> [''no jump'']
          | Some g \<Rightarrow> if p - g < PARK_S - 3 then [''no jump''] else [])"

text \<open>The base; \<open>None\<close> is the early \<open>return 1\<close>.\<close>

definition wall_base :: "env \<Rightarrow> reaper \<Rightarrow> pystr \<Rightarrow> nat \<Rightarrow> (flt option \<times> string list) option sys" where
  "wall_base E reaper base bp =
     bind (await_sock E 50000 (join base (lit ''c.sock'')) (seconds 40)) (\<lambda>up.
     if \<not> up then ret None
     else
       bind (uconn E (join base (lit ''c.sock'')) (seconds 30)) (\<lambda>s.
       bind (genid_ready E s) (\<lambda>ok.
       if \<not> ok then ret None
       else
         bind (gepoch E s) (\<lambda>gb.
         bind epoch (\<lambda>hb.
         seq (sleep E (seconds 3)) (
         bind (guptime E s) (\<lambda>base_up.
         bind (on_sock E s (fuzz_meta (lit ''__snapshot__ base.snap'') (seconds 90))) (\<lambda>rep.
         seq (park_bye E s) (
         seq (wait_exit E reaper bp) (
         seq (sleep E (seconds 12)) (
         ret (Some (base_up, boot_clock gb hb @ (if contains (lit ''OK'') rep then [] else [''snapshot failed'']))))))))))))))"

definition wall_fork :: "env \<Rightarrow> pystr \<Rightarrow> flt option \<Rightarrow> string list option sys" where
  "wall_fork E fork base_up =
     bind (await_sock E 50000 (join fork (lit ''f.sock'')) (seconds 30)) (\<lambda>up.
     if \<not> up then ret None
     else
       bind (uconn E (join fork (lit ''f.sock'')) (seconds 30)) (\<lambda>s.
       bind (gepoch E s) (\<lambda>gpre.
       bind (guptime E s) (\<lambda>fork_up.
       bind epoch (\<lambda>real_now.
       seq (guest_cmd E s (lit ''hwclock -s'') (seconds 8)) (
       bind (gepoch E s) (\<lambda>gpost.
       bind epoch (\<lambda>real2.
       seq (park_bye E s) (
       ret (Some (frozen_clock gpre real_now @ uptime_reset base_up fork_up @ caught_up gpre gpost real2)))))))))))"

definition wall_body :: "env \<Rightarrow> reaper \<Rightarrow> pystr \<Rightarrow> string list option harness" where
  "wall_body E reaper WORK =
     (let base = join WORK (lit ''base''); fork = join WORK (lit ''fork'') in
      bind (boot E base (lit ''boot.log'')) (\<lambda>bp.
      bind (on_world (wall_base E reaper base bp)) (\<lambda>ob.
      case ob of
        None \<Rightarrow> ret None
      | Some (base_up, f1) \<Rightarrow>
          seq (on_world (write_text E (join fork (lit ''nether.conf''))
                 (lit ''restore=1'' @ [10] @ lit ''restore_from='' @ join base (lit ''base.snap'') @ [10] @
                  lit ''control_socket=f.sock'' @ [10]))) (
          bind (boot E fork (lit ''fork.log'')) (\<lambda>fp.
          bind (on_world (wall_fork E fork base_up)) (\<lambda>forked.
          ret (map_option (\<lambda>f2. f1 @ f2) forked)))))))"

definition wall_main :: "env \<Rightarrow> reaper \<Rightarrow> int sys" where
  "wall_main E reaper =
     bind (path_exists E (BIN E)) (\<lambda>b.
     if \<not> b then ret 1
     else
       let WORK = or_default (environ E (lit ''NETHER_WORK'')) (lit ''/tmp/nwc''); base = join WORK (lit ''base'') in
       seq (rmtree E WORK) (
       seq (makedirs E WORK False) (
       seq (makedirs E base False) (
       seq (makedirs E (join WORK (lit ''fork'')) False) (
       seq (symlink E (NB E @ lit ''/kernels'') (join base (lit ''kernels''))) (
       seq (write_text E (join base (lit ''nether.conf''))
              (lit ''control_socket=c.sock'' @ [10] @ lit ''ram_mb=512'' @ [10] @ lit ''cpus=2'' @ [10])) (
       bind (try_finally (with_procs E 400000 (wall_body E reaper WORK)) (rmtree E WORK)) (\<lambda>fails.
       ret (if fails = Some [] then 0 else 1)))))))))"

section \<open>What they leave running\<close>

lemma calm_uptime: "calm (uptime E s)"
  unfolding uptime_def by (auto intro!: calm_park split: list.splits)

lemma calm_first_answer: "calm (first_answer E s)"
  unfolding first_answer_def by (auto intro!: calm_park split: list.splits)

lemma calm_timer: "calm (grow_old E s t0)" "calm (arm_and_park E s)" "calm (timer_checks E flog_path up_pre armed s)"
  unfolding grow_old_def arm_and_park_def timer_checks_def see_timer_def
  by (intro calm_park calm_uptime calm_first_answer)+

lemma starts_timer_wake: "starts_one fst (timer_wake E d snap sockname esock)"
proof -
  let ?prep = "seq (makedirs E d True) (write_text E (join d (lit ''nether.conf'')) (wake_conf snap (lit sockname) esock))"
  have "starts_one fst (seq (seq ?prep (ret ())) (bind (launch E d (lit ''fork.log'')) (\<lambda>p.
      bind (wake_reach E (join d (lit sockname)) t0) (\<lambda>s. ret (p, s)))))" for t0
    by (rule starts_one_launch) (intro calm_park | erule bind_tag_fst)+
  then show ?thesis
    unfolding starts_one_def timer_wake_def time_time_def by (fastforce simp: seq_Some_iff bind_Some_iff get_def ret_def)
qed

text \<open>The number of a VM that was started since is not below those before.\<close>

lemma keeps_ok_bind_if:
  assumes "\<And>s a s'. I s \<Longrightarrow> m s = Some (Inr a, s') \<Longrightarrow> I s' \<and> R a" and "\<And>a. R a \<Longrightarrow> keeps_ok I (f a)"
  shows "keeps_ok I (bind m f)"
  using assms unfolding keeps_ok_def bind_Some_iff by blast

lemma noted_ok_boot_bind:
  assumes "\<And>p. length P \<le> p \<Longrightarrow> keeps_ok (noted X P) (f p)"
  shows "keeps_ok (noted X P) (bind (boot E d l) f)"
proof (rule keeps_ok_bind_if [OF _ assms])
  fix s p s' assume n: "noted X P s" and run: "boot E d l s = Some (Inr p, s')"
  obtain w ps where "s = (w, ps)" by (cases s)
  with run n have "length P \<le> p" by (auto elim: boot_Some dest: noted_length)
  with n run show "noted X P s' \<and> length P \<le> p" using keepsD [OF noted_boot] by blast
qed

lemma noted_ok_note_bind:
  assumes "starts_one pid m" and "\<And>v. length P \<le> pid v \<Longrightarrow> keeps_ok (noted X P) (f v)"
  shows "keeps_ok (noted X P) (bind (then_note pid m) f)"
proof (rule keeps_ok_bind_if [OF _ assms(2)])
  fix s v s' assume n: "noted X P s" and run: "then_note pid m s = Some (Inr v, s')"
  obtain w ps where s: "s = (w, ps)" by (cases s)
  with run obtain w' where "m w = Some (Inr v, w')"
    by (auto simp: then_note_def on_world_def bind_Some_iff seq_Some_iff modify_def ret_def split: option.splits)
  with assms(1) have "pid v = length (procs w)" unfolding starts_one_def by blast
  then show "noted X P s' \<and> length P \<le> pid v"
    using n s noted_length keeps_okD [OF noted_then_note [OF assms(1)] n run] by simp
qed

lemma noted_timer_gen2: "length P \<le> fp \<Longrightarrow> keeps_ok (noted X P) (timer_gen2 E reaper WORK fp s)"
  unfolding timer_gen2_def seq_def
  by (intro noted_ok_forms keeps_ok_keeps [OF noted_self_exit] starts_timer_wake calm_uptime calm_first_answer calm_park)

lemma noted_timer_body: "keeps_ok (noted X P) (timer_body E reaper WORK)"
proof -
  let ?base = "join WORK (lit ''b'')" and ?f1 = "join WORK (lit ''f1'')"
  let ?wake = "timer_wake E ?f1 (join ?base (lit ''park.snap'')) ''f.sock'' (join WORK (lit ''e.sock''))"
  have woken: "keeps_ok (noted X P) (bind (then_note fst ?wake) (\<lambda>(fp, fs).
      bind (on_world (timer_checks E (join ?f1 (lit ''fork.log'')) up_pre armed fs)) (\<lambda>g2.
      bind (timer_gen2 E reaper WORK fp fs) (\<lambda>g3. ret (h g2 g3)))))" for up_pre armed h
    by (rule noted_ok_note_bind [OF starts_timer_wake])
       (auto intro!: noted_timer_gen2 keeps_ok_bind keeps_ok_keeps [OF noted_calm] keeps_ok_keeps [OF keeps_ret] calm_timer)
  have exit: "keeps_ok (noted X P) (on_world (self_exit E reaper p))" if "length P \<le> p" for p
    using that by (intro keeps_ok_keeps noted_self_exit)
  show ?thesis unfolding timer_body_def Let_def seq_def
    by (rule noted_ok_boot_bind)
       (auto intro!: woken exit keeps_ok_bind calm_timer(1,2) [THEN noted_calm, THEN keeps_ok_keeps]
          calm_park_reach [THEN noted_calm, THEN keeps_ok_keeps] calm_quiet [OF quiet_sleep, THEN noted_calm, THEN keeps_ok_keeps])
qed

lemma ends_ok_timer: "ends_ok (timer_main E reaper)"
  unfolding timer_main_def listen_at_def Let_def
  by (intro ends_ok_forms noted_timer_body ending.t_calm [OF calm_bind_path, THEN ending.ok_weaken]
      ending.t_calm [OF calm_when [OF calm_quiet [OF quiet_os_remove]], THEN ending.ok_weaken])

lemma calm_wall: "calm (wall_base E reaper base bp)" "calm (wall_fork E fork base_up)"
  unfolding wall_base_def wall_fork_def gepoch_def guptime_def epoch_def genid_ready_def
  by (intro calm_park calm_await_sock calm_any_of calm_wait_exit)+

lemma noted_wall_body: "keeps (noted X P) (wall_body E reaper WORK)"
  unfolding wall_body_def Let_def
  by (intro noted_boot_bind keeps_bind keeps_seq keeps_prod keeps_option keeps_ret noted_calm calm_entropy calm_wall)

lemma ends_wall: "ends (wall_main E reaper)"
  unfolding wall_main_def Let_def by (intro ends_forms noted_wall_body)

end
