(* ===== verification/Dedup.thy ===== *)
theory Dedup
  imports Manifest
begin

text \<open>
  The script \<open>scripts/materialize_dedup_proof.py\<close> from end to end: it writes a base and a diff (theory
  \<open>Snapshot\<close>), has the binary fold them, checks the result byte by byte and compares the free space before and
  after.  How the binary runs is the environment's business; the free space of the volume is a parameter.
\<close>

definition dedup_work :: pystr where
  "dedup_work = lit ''/tmp/nether-mat-proof''"

definition base_p :: pystr where "base_p = dedup_work @ lit ''/base.snap''"
definition diff_p :: pystr where "diff_p = dedup_work @ lit ''/child.diff''"
definition out_p :: pystr where "out_p = dedup_work @ lit ''/child.snap''"
definition conf_p :: pystr where "conf_p = dedup_work @ lit ''/nether.conf''"

definition dedup_conf :: pystr where
  "dedup_conf =
     lit ''materialize_out='' @ out_p @ [10] @ lit ''materialize_base='' @ base_p @ [10] @
     lit ''materialize_diff='' @ diff_p @ [10]"

text \<open>\<open>with open(p, "wb") as f: f.write(...)\<close>: the file is created before \<open>hdr\<close> is computed.\<close>

definition write_made :: "env \<Rightarrow> pystr \<Rightarrow> exn + bytes \<Rightarrow> unit sys" where
  "write_made E p made = seq (write_file E p []) (bind (lift made) (write_file E p))"

definition dedup_files :: "env \<Rightarrow> unit sys" where
  "dedup_files E =
     seq (makedirs E dedup_work True) (
     seq (bind (path_exists E out_p) (\<lambda>x. when_io x (os_remove E out_p))) (
     seq (write_made E base_p (base_file script_ram)) (
     seq (write_made E diff_p (diff_file script_changed)) (
     write_text E conf_p dedup_conf))))"

text \<open>The four assertions on the file the binary has written.\<close>

definition dedup_check :: "bytes \<Rightarrow> exn + unit" where
  "dedup_check out =
     ebind (verified out script_ram script_changed) (\<lambda>ok. if ok then Inr () else Inl AssertionError)"

definition dedup_script :: "env \<Rightarrow> (world \<Rightarrow> nat) \<Rightarrow> int sys" where
  "dedup_script E free_bytes =
     seq (dedup_files E) (
     bind (get free_bytes) (\<lambda>before.
     bind (run_nether E dedup_work) (\<lambda>rc.
     bind (get free_bytes) (\<lambda>after.
     let consumed = int before - int after in
     if rc \<noteq> 0 then ret 1
     else
       bind (read_file E out_p) (\<lambda>out.
       seq (lift (dedup_check out)) (
       ret (if consumed < int ((RAM_OFF + RAM) div 4) then 0 else 2)))))))"

section \<open>The binary does what \<open>snapshot.zig\<close> does\<close>

text \<open>In a directory whose \<open>nether.conf\<close> asks for it, and with the rights to do so, the binary folds the diff
  into the base and ends with 0.\<close>

definition folds_on_request :: "env \<Rightarrow> bool" where
  "folds_on_request E \<longleftrightarrow>
     (\<forall>w base diff out. denied w = (\<lambda>_ _. False) \<longrightarrow> contents E conf_p w = Some (map word_of_nat dedup_conf) \<longrightarrow> contents E base_p w = Some base \<longrightarrow>
        contents E diff_p w = Some diff \<longrightarrow> materializeDiff base diff = Some out \<longrightarrow>
        (\<exists>dt f. run_bin E w dedup_work = (dt, f, Code 0) \<and> contents E out_p (w\<lparr>clock := clock w + dt, fs := f\<rparr>) = Some out))"

text \<open>A working directory of the script's own, with none of its files yet.\<close>

definition own_dir :: "env \<Rightarrow> world \<Rightarrow> bool" where
  "own_dir E w \<longleftrightarrow> denied w = (\<lambda>_ _. False) \<and>
     node_at (fs w) (lit ''/tmp'') = Some (Dir 0) \<and> node_at (fs w) dedup_work = Some (Dir 0) \<and>
     (\<forall>p \<in> {base_p, diff_p, out_p, conf_p}. node_at (fs w) p = None)"

lemmas dedup_paths = dedup_work_def base_p_def diff_p_def out_p_def conf_p_def

lemma dedup_full:
  "full E dedup_work = dedup_work" "full E base_p = base_p" "full E diff_p = diff_p" "full E out_p = out_p" "full E conf_p = conf_p"
  by (simp_all add: dedup_paths full_def abspath_def isabs_def normpath_def initial_slashes_def join_def lit_def)

lemma dedup_dir: "p \<in> {base_p, diff_p, conf_p} \<Longrightarrow> dirname p = dedup_work"
  by (auto simp: dedup_paths dirname_def split_last_def lit_def)

lemma dedup_distinct: "distinct [lit ''/'', dedup_work, base_p, diff_p, out_p, conf_p]"
  by (simp add: dedup_paths lit_def)

lemma dedup_ancestors: "ancestors dedup_work = [lit ''/'', lit ''/tmp'', dedup_work]"
  by (simp add: ancestors.simps dirname_def split_last_def dedup_work_def lit_def)

lemma put_file:
  assumes "denied w = (\<lambda>_ _. False)" and "node_at (fs w) dedup_work = Some (Dir 0)" and "p \<in> {base_p, diff_p, conf_p}"
    and "node_at (fs w) p = None \<or> (\<exists>c t. node_at (fs w) p = Some (File c t))"
  shows "write_file E p b w = Some (Inr (), w\<lparr>fs := fs_put p (File b (clock w)) (fs w)\<rparr>)"
proof -
  have "full E p = p" "dirname p = dedup_work" using assms(3) dedup_full dedup_dir by auto
  then show ?thesis using assms(1,2,4)
    by (auto simp: write_file_def resolve_link_free link_free_def writable_def parent_ok_def)
qed

lemma node_at_fs_put: "p \<noteq> lit ''/'' \<Longrightarrow> node_at (fs_put q n f) p = (if p = q then Some n else node_at f p)"
  by (simp add: node_at_def map_of_fs_put)

lemma write_made_run:
  assumes "denied w = (\<lambda>_ _. False)" and "node_at (fs w) dedup_work = Some (Dir 0)" and "p \<in> {base_p, diff_p}"
    and "node_at (fs w) p = None" and "made = Inr b"
  shows "\<exists>f. write_made E p made w = Some (Inr (), w\<lparr>fs := f\<rparr>) \<and>
    (\<forall>q \<in> {dedup_work, base_p, diff_p, out_p, conf_p}. node_at f q = (if q = p then Some (File b (clock w)) else node_at (fs w) q))"
proof -
  let ?w = "w\<lparr>fs := fs_put p (File [] (clock w)) (fs w)\<rparr>"
  have ne: "q \<noteq> lit ''/''" if "q \<in> {dedup_work, base_p, diff_p, out_p, conf_p}" for q using that dedup_distinct by auto
  have d: "dedup_work \<noteq> p" using assms(3) dedup_distinct by auto
  have 1: "write_file E p [] w = Some (Inr (), ?w)" using assms by (intro put_file) auto
  have 2: "write_file E p b ?w = Some (Inr (), ?w\<lparr>fs := fs_put p (File b (clock ?w)) (fs ?w)\<rparr>)"
    using assms ne d by (intro put_file) (auto simp: node_at_fs_put)
  show ?thesis
    by (rule exI [of _ "fs_put p (File b (clock w)) (fs ?w)"])
       (use 1 2 assms(5) ne in \<open>auto simp: write_made_def seq_def bind_def lift_def node_at_fs_put\<close>)
qed

lemma script_ram_length: "length script_ram = RAM"
  unfolding script_ram_def by (simp add: length_concat o_def sum_list_triv RAM_def NPAGES_def)

lemma script_files:
  obtains base diff out where "base_file script_ram = Inr base" "diff_file script_changed = Inr diff"
    "materializeDiff base diff = Some out" "verified out script_ram script_changed = Inr True"
proof -
  have "\<forall>(idx, v) \<in> set script_changed. idx < NPAGES" "length script_changed < 256 ^ 4"
    by (simp_all add: script_changed_def NPAGES_def)
  from materialize_folds [OF script_ram_length this] that show thesis by blast
qed

lemma own_dir_kept:
  assumes "own_dir E w"
  shows "makedirs E dedup_work True w = Some (Inr (), w)" and "path_exists E out_p w = Some (Inr False, w)"
  using assms
  by (simp_all add: own_dir_def makedirs_def dedup_full dedup_ancestors is_dir_def stat_link_free link_free_def node_at_def
      seq_def bind_def get_def when_io_def ret_def path_exists_def)

lemma dedup_files_run:
  assumes "own_dir E w" and "base_file script_ram = Inr base" and "diff_file script_changed = Inr diff"
  obtains w' where "dedup_files E w = Some (Inr (), w')" "contents E conf_p w' = Some (map word_of_nat dedup_conf)"
    "contents E base_p w' = Some base" "contents E diff_p w' = Some diff" "denied w' = (\<lambda>_ _. False)"
proof -
  let ?K = "{dedup_work, base_p, diff_p, out_p, conf_p}"
  have own: "denied w = (\<lambda>_ _. False)" "node_at (fs w) dedup_work = Some (Dir 0)" "\<forall>p \<in> {base_p, diff_p, out_p, conf_p}. node_at (fs w) p = None"
    using assms(1) by (simp_all add: own_dir_def)
  have ne: "distinct [lit ''/'', dedup_work, base_p, diff_p, out_p, conf_p]" by (rule dedup_distinct)
  obtain f where f: "write_made E base_p (base_file script_ram) w = Some (Inr (), w\<lparr>fs := f\<rparr>)"
    "\<forall>q \<in> ?K. node_at f q = (if q = base_p then Some (File base (clock w)) else node_at (fs w) q)"
    using write_made_run [OF own(1,2), of base_p "base_file script_ram" base E] own(3) assms(2) by auto
  let ?w1 = "w\<lparr>fs := f\<rparr>"
  obtain g where g: "write_made E diff_p (diff_file script_changed) ?w1 = Some (Inr (), ?w1\<lparr>fs := g\<rparr>)"
    "\<forall>q \<in> ?K. node_at g q = (if q = diff_p then Some (File diff (clock w)) else node_at f q)"
    using write_made_run [of ?w1 diff_p "diff_file script_changed" diff E] own f(2) ne assms(3) by auto
  let ?w2 = "?w1\<lparr>fs := g\<rparr>" and ?c = "map word_of_nat dedup_conf :: bytes"
  have e: "encode dedup_conf = Inr ?c" by (rule encode_ascii) (simp add: dedup_conf_def dedup_paths lit_def)
  let ?w3 = "?w2\<lparr>fs := fs_put conf_p (File ?c (clock w)) g\<rparr>"
  have "write_file E conf_p ?c ?w2 = Some (Inr (), ?w3)"
    using put_file [of ?w2 conf_p E ?c] own f(2) g(2) ne by auto
  then have "dedup_files E w = Some (Inr (), ?w3)"
    using f(1) g(1) own_dir_kept [OF assms(1)] e
    by (simp add: dedup_files_def write_text_def seq_def bind_def when_io_def ret_def)
  moreover have "node_at (fs ?w3) conf_p = Some (File ?c (clock w))" "node_at (fs ?w3) base_p = Some (File base (clock w))"
    "node_at (fs ?w3) diff_p = Some (File diff (clock w))"
    using f(2) g(2) ne by (auto simp: node_at_fs_put)
  then have "contents E conf_p ?w3 = Some ?c" "contents E base_p ?w3 = Some base" "contents E diff_p ?w3 = Some diff"
    using own(1) by (simp_all add: contents_link_free link_free_def dedup_full)
  ultimately show thesis by (rule that) (simp add: own(1))
qed

section \<open>Properties\<close>

text \<open>
  C21: in a directory of its own, with a binary that folds a diff into its base as \<open>snapshot.zig\<close> does, the
  script writes the base and the diff, leaves the base with the diff folded in, raises nothing and none of its
  assertions fails; its status is 0 exactly when the free space has gone down, from when the files were
  written, by less than a quarter of a full copy, and 2 otherwise.
\<close>

theorem dedup_verifies:
  assumes "own_dir E w" and "folds_on_request E"
  shows "\<exists>v w' base diff. dedup_files E w = Some (Inr (), v) \<and> contents E base_p v = Some base \<and> contents E diff_p v = Some diff \<and>
    contents E out_p w' = materializeDiff base diff \<and> dedup_script E free_bytes w =
    Some (Inr (if int (free_bytes v) - int (free_bytes w') < int ((RAM_OFF + RAM) div 4) then 0 else 2), w')"
proof -
  obtain base diff out where files: "base_file script_ram = Inr base" "diff_file script_changed = Inr diff"
    "materializeDiff base diff = Some out" "verified out script_ram script_changed = Inr True"
    by (rule script_files)
  obtain v where v: "dedup_files E w = Some (Inr (), v)" "contents E conf_p v = Some (map word_of_nat dedup_conf)"
    "contents E base_p v = Some base" "contents E diff_p v = Some diff" "denied v = (\<lambda>_ _. False)"
    by (rule dedup_files_run [OF assms(1) files(1,2)])
  obtain dt f where run: "run_bin E v dedup_work = (dt, f, Code 0)"
    "contents E out_p (v\<lparr>clock := clock v + dt, fs := f\<rparr>) = Some out"
    using assms(2) v(2-5) files(3) unfolding folds_on_request_def by blast
  let ?w' = "v\<lparr>clock := clock v + dt, fs := f\<rparr>"
  have "run_nether E dedup_work v = Some (Inr 0, ?w')" using run(1) by (simp add: run_nether_def)
  then have "dedup_script E free_bytes w = Some (Inr (if int (free_bytes v) - int (free_bytes ?w') < int ((RAM_OFF + RAM) div 4) then 0 else 2), ?w')"
    using v(1) run(2) files(4)
    by (simp add: dedup_script_def Let_def seq_def bind_def get_def read_file_def ret_def lift_def dedup_check_def)
  then show ?thesis using v(1,3,4) run(2) files(3) by auto
qed

end
