(* ===== verification/Samples.thy ===== *)
theory Samples
  imports Cli Dedup
begin

text \<open>
  One concrete host, small enough to evaluate: its directory \<open>/p\<close> holds a park from time 0, a base
  without manifest and a base with one.  The properties of the tools that need a host with certain
  files are applied here.
\<close>

section \<open>The host\<close>

definition sample_env :: "pystr \<Rightarrow> env" where
  "sample_env nb = \<lparr>NB = nb, cwd = lit ''/c'', environ = \<lambda>_. None, has_tomllib = True, sha256 = \<lambda>b. map unat b,
     toml_loads = \<lambda>_. Inl ValueError, float_of = \<lambda>_. PInt 0, too_deep = \<lambda>_. False, py_repr = \<lambda>_. [], utc_text = \<lambda>_. lit ''t'',
     tmp_name = \<lambda>_. None, others = fs, oversleep = \<lambda>_. 0, spawns = \<lambda>_. False, dial = \<lambda>_ _. (0, None),
     run_bin = \<lambda>w _. (0, fs w, NoExec)\<rparr>"

definition snap_header :: "nat \<Rightarrow> nat \<Rightarrow> bytes" where
  "snap_header kind enc = poke 84 (le_bytes 4 enc) (poke 80 (le_bytes 4 kind)
     (poke 4 (le_bytes 4 SNAP_VERSION) (poke 0 (le_bytes 4 SNAP_MAGIC) (replicate 128 0))))"

lemma header_field_kind: "kind < 256 ^ 4 \<Longrightarrow> header_field 80 (snap_header kind enc) = Some kind"
  by (simp add: header_field_def snap_header_def le_val_le_bytes SNAP_MAGIC_def SNAP_VERSION_def)

lemma header_field_enc: "enc < 256 ^ 4 \<Longrightarrow> header_field 84 (snap_header kind enc) = Some enc"
  by (simp add: header_field_def snap_header_def le_val_le_bytes SNAP_MAGIC_def SNAP_VERSION_def)

definition sample_world :: world where
  "sample_world = \<lparr>fs = [(lit ''/p'', Dir 0), (lit ''/p/a.snap'', File (snap_header 1 0) 0),
       (lit ''/p/b.snap'', File (snap_header 0 2) 0), (lit ''/p/b.snap.hydrated'', File [] 1)],
     denied = \<lambda>_ _. False, clock = 9000000, socks = [], procs = []\<rparr>"

lemmas digits_eval = str_of_int_def str_of_nat_def dec_digits.simps

lemmas path_eval = lit_def full_def abspath_def isabs_def normpath_def initial_slashes_def join_def basename_def
  dirname_def split_last_def is_snap_name_def endswith_def suffix_to_prefix

lemmas sample_eval = sample_env_def sample_world_def path_eval node_at_def manifest_path_def

lemma sample_snaps: "snaps_of (sample_env nb) (lit ''/p'') sample_world = [lit ''/p/a.snap'', lit ''/p/b.snap'']"
  by (simp add: sample_eval snaps_in_def)

lemma sample_sorted: "sort [lit ''/p/a.snap'', lit ''/p/b.snap''] = [lit ''/p/a.snap'', lit ''/p/b.snap'']"
  by (simp add: lit_def)

lemma sample_tidy: "tidy (sample_env nb) (lit ''/p'') sample_world"
  unfolding tidy_def sample_snaps by (simp add: sample_eval untangled_def link_free_def)

lemma sample_contents:
  "contents (sample_env nb) (lit ''/p/a.snap'') sample_world = Some (snap_header 1 0)"
  "contents (sample_env nb) (lit ''/p/b.snap'') sample_world = Some (snap_header 0 2)"
  "stat (sample_env nb) (lit ''/p/a.snap'') sample_world = Some (File (snap_header 1 0) 0)"
  "stat (sample_env nb) (lit ''/p/b.snap'') sample_world = Some (File (snap_header 0 2) 0)"
  "stat (sample_env nb) (lit ''/p/b.snap'' @ lit ''.hydrated'') sample_world = Some (File [] 1)"
  by (simp_all add: contents_link_free stat_link_free link_free_def sample_eval)

section \<open>The reapers\<close>

lemma sample_expired:
  "expired_park (sample_env nb) 5 9000000 (lit ''/p/a.snap'') sample_world"
  "\<not> expired_park (sample_env nb) 5 9000000 (lit ''/p/b.snap'') sample_world"
  by (simp_all add: expired_park_def sample_contents header_field_kind SNAP_KIND_PARK_def node_mtime_def)

theorem reap_parks_exact_witness:
  "reap_parks (sample_env (lit ''/n'')) (lit ''/p'') 5 False None sample_world =
     Some (Inr [(lit ''a.snap'', 9)], sample_world\<lparr>fs := [(lit ''/p'', Dir 0),
       (lit ''/p/b.snap'', File (snap_header 0 2) 0), (lit ''/p/b.snap.hydrated'', File [] 1)]\<rparr>)"
proof -
  have t: "at_time None sample_world = 9000000" by (simp add: at_time_def sample_world_def)
  have r: "park_report (sample_env (lit ''/n'')) 9000000 (lit ''/p/a.snap'') sample_world = (lit ''a.snap'', 9)"
  proof -
    have "basename (lit ''/p/a.snap'') = lit ''a.snap''" by (simp add: path_eval)
    then show ?thesis by (simp add: park_report_def sample_contents node_mtime_def whole_seconds_def)
  qed
  have "without (sample_env (lit ''/n'')) sample_world [lit ''/p/a.snap''] = [(lit ''/p'', Dir 0),
       (lit ''/p/b.snap'', File (snap_header 0 2) 0), (lit ''/p/b.snap.hydrated'', File [] 1)]"
    by (simp add: without_def removable_def sample_eval)
  then show ?thesis
    using reap_parks_exact [OF sample_tidy, of "lit ''/n''" 5 None]
    by (simp add: sample_snaps sample_sorted t sample_expired r)
qed

theorem reap_parks_dry_run_witness:
  "\<exists>r w'. reap_parks (sample_env (lit ''/n'')) (lit ''/p'') 5 True None sample_world = Some (Inr r, sample_world) \<and>
     reap_parks (sample_env (lit ''/n'')) (lit ''/p'') 5 False None sample_world = Some (Inr r, w')"
  by (rule reap_parks_dry_run [OF sample_tidy])

theorem reap_parks_spares_witness:
  "\<exists>r w'. reap_parks (sample_env (lit ''/n'')) (lit ''/p'') 5 False None sample_world = Some (Inr r, w') \<and>
     node_at (fs w') (lit ''/p/b.snap'') = Some (File (snap_header 0 2) 0)"
proof -
  obtain r w' where r: "reap_parks (sample_env (lit ''/n'')) (lit ''/p'') 5 False None sample_world = Some (Inr r, w')"
    and sp: "\<forall>q. node_at (fs w') q \<noteq> node_at (fs sample_world) q \<longrightarrow>
      (\<exists>s \<in> set (snaps_of (sample_env (lit ''/n'')) (lit ''/p'') sample_world).
         expired_park (sample_env (lit ''/n'')) 5 (at_time None sample_world) s sample_world \<and> q \<in> set (files_of (sample_env (lit ''/n'')) s))"
    using reap_parks_spares [of "sample_env (lit ''/n'')" "lit ''/p''" 5 False None sample_world] by blast
  have "at_time None sample_world = 9000000" by (simp add: at_time_def sample_world_def)
  then have "node_at (fs w') (lit ''/p/b.snap'') = node_at (fs sample_world) (lit ''/p/b.snap'')"
    using sp sample_expired unfolding sample_snaps by (fastforce simp: sample_eval)
  with r show ?thesis by (simp add: sample_eval)
qed

text \<open>A base with the manifest that the build \<open>o\<close> wrote for \<open>/r\<close>.\<close>

definition sample_manifest :: bytes where
  "sample_manifest = map word_of_nat (json_text (\<lambda>_. []) 0
     (manifest_value (lit ''/p/b.snap'') (base_key (lit ''o'') (lit ''k'') None (lit ''h'')) (lit ''/r'') (lit ''t'')))"

definition baked_world :: world where
  "baked_world = \<lparr>fs = [(lit ''/p'', Dir 0), (lit ''/p/a.snap'', File (snap_header 0 0) 0),
       (lit ''/p/b.snap'', File (snap_header 0 0) 0), (lit ''/p/b.snap.manifest.json'', File sample_manifest 1), (lit ''/n/zig-out/bin/nether'', File [] 0)],
     denied = \<lambda>_ _. False, clock = 9000000, socks = [], procs = []\<rparr>"

lemma sample_manifest_value:
  "manifest_in E (Some sample_manifest) =
     Inr (manifest_value (lit ''/p/b.snap'') (base_key (lit ''o'') (lit ''k'') None (lit ''h'')) (lit ''/r'') (lit ''t''))"
  unfolding sample_manifest_def
  by (rule manifest_in_text, unfold json_safe_manifest)
     (simp add: manifest_value_def json_exact_base_key path_eval is_scalar_def digits_eval)

lemmas baked_eval = baked_world_def sample_env_def path_eval node_at_def manifest_path_def

lemma baked_snaps: "snaps_of (sample_env nb) (lit ''/p'') baked_world = [lit ''/p/a.snap'', lit ''/p/b.snap'']"
  by (simp add: baked_eval snaps_in_def)

lemma baked_tidy: "tidy (sample_env nb) (lit ''/p'') baked_world"
  unfolding tidy_def baked_snaps by (simp add: baked_eval untangled_def link_free_def)

lemma baked_manifests:
  "contents (sample_env nb) (manifest_path (lit ''/p/a.snap'')) baked_world = None"
  "contents (sample_env nb) (manifest_path (lit ''/p/b.snap'')) baked_world = Some sample_manifest"
  by (simp_all add: contents_link_free link_free_def baked_eval)

lemma baked_values:
  "manifest_in (sample_env nb) None = Inr PNone"
  "keyed_manifest (manifest_in (sample_env nb) (Some sample_manifest))"
  "same_recipe (manifest_in (sample_env nb) (Some sample_manifest)) (lit ''/r'')"
  "stale_build (manifest_in (sample_env nb) (Some sample_manifest)) h \<longleftrightarrow> h \<noteq> lit ''o''"
  by (auto simp: manifest_in_def [of _ None] sample_manifest_value manifest_value_def base_key_def keyed_manifest_def
      same_recipe_def stale_build_def lit_def)

lemma keyed_dict: "keyed_manifest m \<Longrightarrow> dict_manifest m"
  by (auto simp: keyed_manifest_def dict_manifest_def split: sum.splits pyval.splits)

lemma baked_keyed:
  "\<forall>s \<in> set (snaps_of (sample_env nb) (lit ''/p'') baked_world).
     keyed_manifest (manifest_in (sample_env nb) (contents (sample_env nb) (manifest_path s) baked_world))"
  unfolding baked_snaps using baked_manifests baked_values(1,2) by (simp add: keyed_manifest_def)

lemma baked_without: "without (sample_env nb) baked_world [lit ''/p/b.snap''] =
    [(lit ''/p'', Dir 0), (lit ''/p/a.snap'', File (snap_header 0 0) 0), (lit ''/n/zig-out/bin/nether'', File [] 0)]"
  by (simp add: without_def removable_def baked_eval)

theorem gc_superseded_exact_witness:
  "gc_superseded (sample_env (lit ''/n'')) (lit ''/p'') (lit ''/p/a.snap'') (lit ''/r'') baked_world =
     Some (Inr [lit ''b.snap''],
       baked_world\<lparr>fs := [(lit ''/p'', Dir 0), (lit ''/p/a.snap'', File (snap_header 0 0) 0),
         (lit ''/n/zig-out/bin/nether'', File [] 0)]\<rparr>)"
proof -
  have "filter (\<lambda>s. superseded (sample_env (lit ''/n'')) (full (sample_env (lit ''/n'')) (lit ''/p/a.snap'')) (lit ''/r'') s baked_world)
      [lit ''/p/a.snap'', lit ''/p/b.snap''] = [lit ''/p/b.snap'']"
    using baked_values(3) by (simp add: superseded_def baked_manifests) (simp add: path_eval sample_env_def)
  moreover have "basename (lit ''/p/b.snap'') = lit ''b.snap''" by (simp add: path_eval)
  ultimately show ?thesis
    using gc_superseded_exact [OF baked_tidy, of "lit ''/n''" "lit ''/p/a.snap''" "lit ''/r''"] baked_keyed keyed_dict
    unfolding baked_snaps by (simp add: baked_without)
qed

theorem do_gc_exact_witness:
  "do_gc (sample_env (lit ''/n'')) (lit ''/p'') False baked_world =
     Some (Inr 0, baked_world\<lparr>fs := [(lit ''/p'', Dir 0), (lit ''/p/a.snap'', File (snap_header 0 0) 0),
       (lit ''/n/zig-out/bin/nether'', File [] 0)]\<rparr>)"
proof -
  have c: "contents (sample_env (lit ''/n'')) (BIN (sample_env (lit ''/n''))) baked_world = Some []"
    by (simp add: BIN_def contents_link_free link_free_def baked_eval)
  have "sha256 (sample_env (lit ''/n'')) [] = []" by (simp add: sample_env_def)
  moreover have "filter (\<lambda>s. garbage (sample_env (lit ''/n'')) [] False s baked_world)
      [lit ''/p/a.snap'', lit ''/p/b.snap''] = [lit ''/p/b.snap'']"
    using baked_values(4) [of "lit ''/n''" "[]"]
    by (simp add: garbage_def baked_manifests baked_values(1) sample_manifest_value manifest_value_def lit_def [of "''o''"])
  ultimately show ?thesis
    using do_gc_exact [OF baked_tidy c baked_keyed, where orphans = False] unfolding baked_snaps by (simp add: baked_without)
qed

theorem do_gc_without_binary_witness:
  "\<exists>w'. do_gc (sample_env (lit ''/q'')) (lit ''/p'') False baked_world = Some (Inr 0, w') \<and> map_of (fs w') (lit ''/p/b.snap'') = None"
proof -
  have f: "full (sample_env (lit ''/q'')) (lit ''/p/b.snap'') = lit ''/p/b.snap''" by (simp add: path_eval sample_env_def)
  have b: "baked_by (sample_env (lit ''/q'')) (lit ''/p/b.snap'') baked_world (lit ''o'')"
    unfolding baked_by_def baked_manifests sample_manifest_value
    by (simp add: manifest_value_def base_key_def lit_def)
  show ?thesis
    using do_gc_without_binary [OF baked_tidy _ baked_keyed _ b]
    by (simp add: baked_snaps f) (simp add: baked_eval BIN_def stat_link_free link_free_def removable_def)
qed

theorem manifest_round_trip_witness:
  "\<exists>w'. write_manifest (sample_env (lit ''/n'')) (lit ''/p/a.snap'') PNone (lit ''/r'') (lit ''t'') baked_world =
       Some (Inr (manifest_value (lit ''/p/a.snap'') PNone (lit ''/r'') (lit ''t'')), w') \<and>
     read_manifest (sample_env (lit ''/n'')) (lit ''/p/a.snap'') w' =
       Some (Inr (manifest_value (lit ''/p/a.snap'') PNone (lit ''/r'') (lit ''t'')), w') \<and>
     (\<forall>key'. key_matches (manifest_value (lit ''/p/a.snap'') PNone (lit ''/r'') (lit ''t'')) key' = Inr (py_eq PNone key'))"
  by (rule manifest_round_trip)
     (simp_all add: can_write_def resolve_link_free link_free_def writable_def parent_ok_def manifest_value_def is_scalar_def
       baked_eval digits_eval json_safe_def)

section \<open>Recipes and bases\<close>

definition sample_recipe :: pyval where
  "sample_recipe = PDict [(lit ''image'', PDict [(lit ''kernel'', PStr (lit ''/r/k''))]),
     (lit ''snapshot'', PDict [(lit ''out'', PStr (lit ''b.snap''))]),
     (lit ''network'', PDict [(lit ''egress'', PStr (lit ''allow''))])]"

theorem conf_network_witness:
  "\<exists>t. render_conf (sample_env []) sample_recipe (lit ''b.sock'') (lit ''b.data'') None = Inr t \<and>
     lit ''net=1'' \<in> set (split_all 10 t) \<and> lit ''net_open=1'' \<in> set (split_all 10 t)"
proof -
  have c: "\<exists>ls. conf_lines (sample_env []) sample_recipe (lit ''b.sock'') (lit ''b.data'') None = Inr ls \<and> (\<forall>l \<in> set ls. 10 \<notin> set l)"
    by (simp add: conf_lines_def opt_line_def net_lines_def sample_recipe_def lit_def digits_eval Let_def)
  then obtain ls t where ls: "conf_lines (sample_env []) sample_recipe (lit ''b.sock'') (lit ''b.data'') None = Inr ls"
    "\<forall>l \<in> set ls. 10 \<notin> set l" "render_conf (sample_env []) sample_recipe (lit ''b.sock'') (lit ''b.data'') None = Inr t"
    by (auto simp: render_conf_def)
  have e: "egress_of sample_recipe = Inr (PStr (lit ''allow''))" by (simp add: egress_of_def sample_recipe_def lit_def)
  show ?thesis using conf_network [OF ls(3,1,2) e] ls(3) by (auto simp: lit_def)
qed

theorem push_over_limit_witness:
  "let f = PDict [(lit ''host'', PStr (lit ''m'')), (lit ''guest'', PStr (lit ''/m''))];
       w = baked_world\<lparr>fs := [(lit ''/r/m'', File (replicate 16777217 0) 0)]\<rparr> in
   check_file (sample_env []) f w = Some (Inr (), w) \<and>
   push_file (sample_env []) 0 (PDict [(lit ''_dir'', PStr (lit ''/r''))]) f =
     seq (on_cmd (sample_env []) 0 (lit ''__put__ '' @ join (lit ''/r'') (lit ''m'') @ lit '' '' @ lit ''/m'') (seconds 30)) (ret ())"
  unfolding Let_def
  by (rule push_over_limit [where n = "File (replicate 16777217 0) 0"])
     (simp_all add: stat_link_free link_free_def baked_eval MAX_XFER_def node_size_def)

text \<open>A host on which the hydrated copy of \<open>/p/b.snap\<close> is older than the base and the binary cannot be run.\<close>

definition stale_world :: world where
  "stale_world = sample_world\<lparr>fs := [(lit ''/p/b.snap'', File (snap_header 0 2) 2), (lit ''/p/b.snap.hydrated'', File [] 1)]\<rparr>"

theorem ensure_forkable_not_stale_witness:
  "\<exists>e w'. ensure_forkable (sample_env []) (lit ''/p/b.snap'') stale_world = Some (Inl e, w')"
proof -
  let ?E = "sample_env []" and ?s = "lit ''/p/b.snap''" and ?h = "lit ''/p/b.snap'' @ lit ''.hydrated''"
  have f: "stat ?E ?s stale_world = Some (File (snap_header 0 2) 2)" "contents ?E ?s stale_world = Some (snap_header 0 2)"
    "stat ?E ?h stale_world = Some (File [] 1)"
    by (simp_all add: contents_link_free stat_link_free link_free_def stale_world_def sample_eval)
  have comp: "\<not> Option.bind (contents ?E ?s stale_world) (header_field 84) \<noteq> Some RAM_COMPRESSED"
    by (simp add: f header_field_enc RAM_COMPRESSED_def)
  have old: "\<not> (\<exists>n h. stat ?E ?s stale_world = Some n \<and> stat ?E ?h stale_world = Some h \<and> node_mtime n \<le> node_mtime h)"
    by (simp add: f node_mtime_def)
  have no: "snd (snd (run_bin ?E u d)) \<noteq> Code 0" for u d by (simp add: sample_env_def)
  from ensure_forkable_not_stale [of ?E ?s stale_world, unfolded if_not_P [OF comp] if_not_P [OF old]]
  obtain r w' where run: "ensure_forkable ?E ?s stale_world = Some (r, w')" and "\<nexists>p. r = Inr p" using no by fastforce
  then show ?thesis by (cases r) auto
qed

theorem materialize_verified_witness:
  "\<exists>base diff out. base_file script_ram = Inr base \<and> diff_file script_changed = Inr diff \<and>
     materializeDiff base diff = Some out \<and> verified out script_ram script_changed = Inr True \<and> length out = length base"
  by (rule materialize_verified [OF script_ram_length]) (simp_all add: script_changed_def NPAGES_def)

definition hit_world :: world where
  "hit_world = baked_world\<lparr>fs := [(lit ''/n/zig-out/bin/nether'', File [98] 0), (lit ''/r/k'', File [107] 0),
     (lit ''/r/x.toml'', File [] 0), (lit ''/r/b.snap'', File [] 0),
     (lit ''/r/b.snap.manifest.json'', File (map word_of_nat (json_text (\<lambda>_. []) 0
        (manifest_value (lit ''/r/b.snap'') (base_key [98] [107] None []) (lit ''/r/x.toml'') (lit ''t'')))) 0)]\<rparr>"

definition hit_env :: env where
  "hit_env = (sample_env (lit ''/n''))\<lparr>toml_loads := \<lambda>_. Inr sample_recipe\<rparr>"

lemmas hit_eval = hit_env_def hit_world_def baked_eval

lemma hit_files:
  "stat hit_env (BIN hit_env) hit_world = Some (File [98] 0)" "contents hit_env (BIN hit_env) hit_world = Some [98]"
  "stat hit_env (lit ''/r/k'') hit_world = Some (File [107] 0)" "contents hit_env (lit ''/r/k'') hit_world = Some [107]"
  "contents hit_env (lit ''/r/x.toml'') hit_world = Some []" "stat hit_env (lit ''/r/b.snap'') hit_world = Some (File [] 0)"
  by (simp_all add: stat_link_free contents_link_free link_free_def hit_eval BIN_def)

definition hit_recipe :: pyval where
  "hit_recipe = PDict [(lit ''image'', PDict [(lit ''kernel'', PStr (lit ''/r/k''))]),
     (lit ''snapshot'', PDict [(lit ''out'', PStr (lit ''b.snap''))]),
     (lit ''network'', PDict [(lit ''egress'', PStr (lit ''allow''))]), (lit ''_dir'', PStr (lit ''/r''))]"

lemma hit_load: "load_recipe hit_env (lit ''/r/x.toml'') hit_world = Some (Inr (hit_recipe, []), hit_world)"
proof -
  have "dirname (full hit_env (lit ''/r/x.toml'')) = lit ''/r''" by (simp add: hit_eval)
  moreover have "has_tomllib hit_env" "toml_loads hit_env t = Inr sample_recipe" for t
    by (simp_all add: hit_env_def sample_env_def)
  ultimately show ?thesis
    by (simp add: load_recipe_def bind_read_file hit_files decode_strict_def encode_def)
       (simp add: try_except_def bind_lift Let_def io_simps sample_recipe_def hit_recipe_def resolve_image_def lit_def isabs_def)
qed

lemma hit_valid: "validate_recipe hit_env hit_recipe hit_world = Some (Inr (), hit_world)"
  unfolding validate_recipe_def hit_recipe_def
  by (simp add: bind_lift seq_Some_iff check_image_ok check_storage_ok check_files_ok)
     (simp add: image_found_def storage_ok_def hit_files, simp add: lit_def)

lemma hit_key:
  "recipe_key hit_env [] (PDict [(lit ''kernel'', PStr (lit ''/r/k''))]) hit_world =
     Some (Inr (base_key [98] [107] None []), hit_world)"
proof -
  have "nether_build_id hit_env hit_world = Some (Inr [98], hit_world)"
    using nether_build_id_run(2) [OF hit_files(2)] by (simp add: hit_env_def sample_env_def)
  moreover have "sha256_file hit_env (lit ''/r/k'') hit_world = Some (Inr [107], hit_world)"
    by (simp add: sha256_file_def bind_read_file hit_files ret_def) (simp add: hit_env_def sample_env_def)
  moreover have "lit ''initramfs'' \<noteq> lit ''kernel''" "sha256 hit_env [] = []"
    by (simp_all add: lit_def hit_env_def sample_env_def)
  ultimately show ?thesis by (simp add: recipe_key_def bind_lift io_simps base_key_def)
qed

lemma hit_plan:
  "bake_plan hit_env (lit ''/r/x.toml'') hit_world =
    Some (Inr (hit_recipe, lit ''/r/b.snap'', base_key [98] [107] None [], lit ''/r/k''), hit_world)"
proof -
  have "py_index hit_recipe (lit ''image'') = Inr (PDict [(lit ''kernel'', PStr (lit ''/r/k''))])"
    "py_index hit_recipe (lit ''snapshot'') = Inr (PDict [(lit ''out'', PStr (lit ''b.snap''))])"
    "py_index hit_recipe (lit ''_dir'') = Inr (PStr (lit ''/r''))"
    "host_path (PStr (lit ''/r'')) (lit ''b.snap'') = lit ''/r/b.snap''"
    by (simp_all add: hit_recipe_def lit_def host_path_def isabs_def join_def)
  then show ?thesis
    by (simp add: bake_plan_def bind_path_exists hit_files hit_load hit_valid hit_key io_simps bind_lift Let_def)
qed

lemma hit_manifest:
  "manifest_in hit_env (contents hit_env (manifest_path (lit ''/r/b.snap'')) hit_world) =
     Inr (manifest_value (lit ''/r/b.snap'') (base_key [98] [107] None []) (lit ''/r/x.toml'') (lit ''t''))"
proof -
  have "contents hit_env (manifest_path (lit ''/r/b.snap'')) hit_world = Some (map word_of_nat (json_text (\<lambda>_. []) 0
        (manifest_value (lit ''/r/b.snap'') (base_key [98] [107] None []) (lit ''/r/x.toml'') (lit ''t''))))"
    by (simp add: contents_link_free link_free_def hit_eval)
  moreover have "json_safe (manifest_value (lit ''/r/b.snap'') (base_key [98] [107] None []) (lit ''/r/x.toml'') (lit ''t''))"
    unfolding json_safe_manifest by (simp add: manifest_value_def json_exact_base_key path_eval is_scalar_def digits_eval)
  ultimately show ?thesis by (simp add: manifest_in_text)
qed

lemma hit_bake: "do_bake hit_env (lit ''/r/x.toml'') False None hit_world = Some (Inr 0, hit_world)"
proof -
  have "is_current hit_env (lit ''/r/b.snap'') (base_key [98] [107] None []) hit_world = Some (Inr True, hit_world)"
    by (simp add: is_current_def bind_path_exists hit_files read_manifest_run bind_ret hit_manifest lift_run key_matches_def
        manifest_value_def py_eq_base_key) (simp add: lit_def py_eq_base_key)
  then show ?thesis by (simp add: do_bake_def hit_plan bind_ret ret_run)
qed

theorem bake_again_is_cache_hit_witness:
  "do_bake hit_env (lit ''/r/x.toml'') False None hit_world = Some (Inr 0, hit_world)"
proof (rule bake_again_is_cache_hit [OF hit_bake hit_plan hit_plan])
  show "\<forall>t. json_safe (manifest_value (lit ''/r/b.snap'') (base_key [98] [107] None []) (full hit_env (lit ''/r/x.toml'')) (utc_text hit_env t))"
    unfolding json_safe_manifest by (simp add: manifest_value_def json_exact_base_key is_scalar_def digits_eval hit_eval)
qed (simp_all add: hit_files, simp_all add: hit_eval link_free_def)

theorem read_manifest_typed_witness:
  "\<exists>r. read_manifest hit_env (lit ''/r/b.snap'') hit_world = Some (r, hit_world) \<and>
     (case r of
        Inr v \<Rightarrow> json_typed v
      | Inl e \<Rightarrow> e = RecursionError \<and>
          (\<exists>b t. contents hit_env (manifest_path (lit ''/r/b.snap'')) hit_world = Some b \<and> decode_strict b = Inr t \<and> 50 < json_depth t))"
  by (rule read_manifest_typed) (simp add: hit_env_def sample_env_def)

section \<open>VMs that stop talking, and one that does not\<close>

text \<open>A peer that says three things of its own accord and then nothing.\<close>

definition brief_sock :: sock where
  "brief_sock = \<lparr>inbox = [], closes = None, sent = [], shut = False, broken = \<lambda>_. None,
     drip = \<lambda>_ k. if k < 3 then Some (Chunk k 121 [10]) else None, dripped = 0, tmo = 0, now = 0, peer = \<lambda>_. []\<rparr>"

definition brief_env :: env where
  "brief_env = hit_env\<lparr>spawns := \<lambda>_. True, dial := \<lambda>_ _. (0, Some brief_sock)\<rparr>"

lemma brief_patient: "patient brief_env hit_world"
proof -
  have "terse brief_sock" unfolding terse_def by (intro allI exI [of _ 3]) (simp add: brief_sock_def)
  then show ?thesis by (simp add: patient_def all_terse_def brief_env_def hit_world_def baked_world_def)
qed

theorem do_bake_stops_vm_witness:
  "patient brief_env hit_world \<and>
   (\<exists>r w'. do_bake brief_env (lit ''/r/x.toml'') True None hit_world = Some (r, w') \<and>
      (procs w' = [] \<or> (\<exists>d. procs w' = [stopped d])))"
  using do_bake_stops_vm [of brief_env "lit ''/r/x.toml''" True None hit_world] brief_patient
  by (auto simp: hit_world_def baked_world_def)

theorem do_fork_leaves_vm_witness:
  "patient brief_env hit_world \<and>
   (\<exists>r w'. do_fork brief_env (lit ''/r/b.snap'') (lit ''f'') None hit_world = Some (r, w') \<and>
      ((\<exists>e. r = Inl e) \<and> procs w' = [] \<or> (\<exists>d. procs w' = [running d])))"
  using do_fork_leaves_vm [of brief_env "lit ''/r/b.snap''" "lit ''f''" None hit_world] brief_patient
  by (auto simp: hit_world_def baked_world_def)

theorem main_returns_witness:
  "patient brief_env hit_world \<and> (\<exists>r w'. main brief_env [lit ''bake'', lit ''/r/x.toml'', lit ''--force''] hit_world = Some (r, w'))"
  using main_returns [OF brief_patient] brief_patient by blast

text \<open>A VM that answers its first command with \<open>y\<close> and a newline every second, for ever.\<close>

definition yes_sock :: sock where
  "yes_sock = \<lparr>inbox = [], closes = None, sent = [], shut = False, broken = \<lambda>_. None,
     drip = \<lambda>_ k. Some (Chunk (k * 1000000) 121 [10]), dripped = 0, tmo = 0, now = 0, peer = \<lambda>_. []\<rparr>"

definition yes_env :: env where
  "yes_env = (sample_env (lit ''/n''))\<lparr>spawns := \<lambda>_. True, dial := \<lambda>_ _. (0, Some yes_sock)\<rparr>"

definition yes_world :: world where
  "yes_world = \<lparr>fs = [(lit ''/w'', Dir 0), (lit ''/w/b.sock'', File [] 0)], denied = \<lambda>_ _. False, clock = 0, socks = [], procs = []\<rparr>"

lemma yes_streams:
  "streams (\<lambda>b. b \<noteq> RS) (yes_sock\<lparr>tmo := seconds 30, sent := h, shut := False, dripped := 0, now := 0\<rparr>)"
  by (auto simp: streams_def yes_sock_def prompt_def chunks_def pending_def arrival_def in_time_def RS_def)

lemma wait_sock_there:
  assumes "stat E p w \<noteq> None" and "0 < t"
  shows "wait_sock E p t w = Some (Inr True, w)"
proof -
  have "poll_body E (clock w) t 300 (bind (path_exists E p) (\<lambda>x. ret (if x then Some () else None))) () w = Some (Inr (Inr (Some ())), w)"
    using assms by (simp add: poll_body_def time_time_def bind_get bind_path_exists bind_def [of "bind _ _"] ret_def)
  then have "poll E (clock w) t 300 (bind (path_exists E p) (\<lambda>x. ret (if x then Some () else None))) w = Some (Inr (Some ()), w)"
    unfolding poll_def by (rule iterate_done)
  then show ?thesis by (simp add: wait_sock_def time_time_def bind_get bind_ret ret_def)
qed

theorem bake_hangs_on_stream_witness:
  "boot_and_freeze yes_env hit_recipe (lit ''/w/b.snap'') (lit ''/w'') yes_world = None"
proof -
  let ?w1 = "yes_world\<lparr>fs := fs yes_world @ [(lit ''/w/bake.log'', File [] 0)], procs := [running (lit ''/w'')]\<rparr>"
  have l: "launch yes_env (lit ''/w'') (lit ''bake.log'') yes_world = Some (Inr 0, ?w1)"
    by (simp add: launch_def seq_ret write_file_def resolve_link_free link_free_def writable_def parent_ok_def popen_def
        running_def yes_env_def yes_world_def sample_env_def path_eval node_at_def)
  have "stat yes_env (join (lit ''/w'') (lit ''b.sock'')) ?w1 \<noteq> None"
    by (simp add: stat_link_free link_free_def yes_env_def yes_world_def sample_env_def path_eval node_at_def)
  then have s: "wait_sock yes_env (join (lit ''/w'') (lit ''b.sock'')) (seconds 40) ?w1 = Some (Inr True, ?w1)"
    by (rule wait_sock_there) simp
  have "dial yes_env ?w1 (join (lit ''/w'') (lit ''b.sock'')) = (0, Some yes_sock)" by (simp add: yes_env_def)
  from bake_hangs_on_stream [OF l s this] yes_streams [of "blit ''__info__'' @ [10]"] show ?thesis
    by (simp add: yes_sock_def yes_world_def)
qed

text \<open>A host whose binary folds diffs into bases, with an empty directory for the script.\<close>

definition fold_env :: env where
  "fold_env = (sample_env (lit ''/n''))\<lparr>run_bin := \<lambda>w d.
     case (contents (sample_env (lit ''/n'')) base_p w, contents (sample_env (lit ''/n'')) diff_p w) of
       (Some base, Some diff) \<Rightarrow>
         (case materializeDiff base diff of
            Some out \<Rightarrow> (0, fs_put out_p (File out 0) (fs w), Code 0)
          | None \<Rightarrow> (0, fs w, Code 1))
     | _ \<Rightarrow> (0, fs w, Code 1)\<rparr>"

definition fold_world :: world where
  "fold_world = \<lparr>fs = [(lit ''/tmp'', Dir 0), (dedup_work, Dir 0)], denied = \<lambda>_ _. False, clock = 0, socks = [], procs = []\<rparr>"

lemma fold_env_folds: "folds_on_request fold_env"
  unfolding folds_on_request_def
proof (intro allI impI)
  fix w base diff out
  assume "denied w = (\<lambda>_ _. False)" and b: "contents fold_env base_p w = Some base" "contents fold_env diff_p w = Some diff"
    and m: "materializeDiff base diff = Some out"
  have "contents fold_env p v = contents (sample_env (lit ''/n'')) p v" for p v
    by (simp add: contents_def full_def fold_env_def)
  with b m have "run_bin fold_env w dedup_work = (0, fs_put out_p (File out 0) (fs w), Code 0)"
    by (simp add: fold_env_def)
  moreover have "out_p \<noteq> lit ''/''" by (simp add: dedup_paths lit_def)
  then have "contents fold_env out_p (w\<lparr>clock := clock w + 0, fs := fs_put out_p (File out 0) (fs w)\<rparr>) = Some out"
    using \<open>denied w = _\<close> \<open>out_p \<noteq> lit ''/''\<close> by (simp add: contents_link_free link_free_def dedup_full node_at_fs_put)
  ultimately show "\<exists>dt f. run_bin fold_env w dedup_work = (dt, f, Code 0) \<and>
      contents fold_env out_p (w\<lparr>clock := clock w + dt, fs := f\<rparr>) = Some out" by blast
qed

theorem dedup_verifies_witness:
  "\<exists>v w' base diff. dedup_files fold_env fold_world = Some (Inr (), v) \<and> contents fold_env base_p v = Some base \<and>
     contents fold_env diff_p v = Some diff \<and> contents fold_env out_p w' = materializeDiff base diff \<and>
     dedup_script fold_env (\<lambda>_. 5) fold_world = Some (Inr 0, w')"
proof -
  have own: "own_dir fold_env fold_world"
    by (simp add: own_dir_def fold_world_def node_at_def dedup_paths lit_def)
  have "int 5 - int 5 < int ((RAM_OFF + RAM) div 4)" by (simp add: geometry)
  then show ?thesis using dedup_verifies [OF own fold_env_folds, of "\<lambda>_. 5"] by (simp only: if_True)
qed

end
