(* ===== verification/Serve_Samples.thy ===== *)
theory Serve_Samples
  imports Serve Samples
begin

text \<open>
  Concrete hosts for the properties of the serving proofs: one on which the second fork of a pool
  cannot be started, and one whose VMs refuse every connection.
\<close>

section \<open>A host that can start VMs\<close>

definition live_env :: env where
  "live_env = (sample_env (lit ''/n''))\<lparr>spawns := \<lambda>_. True, oversleep := \<lambda>_. 40000000\<rparr>"

definition live_world :: world where
  "live_world = \<lparr>fs = [(lit ''/tmp'', Dir 0), (lit ''/n/zig-out/bin/nether'', File [] 0), (lit ''/tmp/vm0'', Dir 0),
       (lit ''/tmp/vm1'', File [] 0)],
     denied = \<lambda>_ _. False, clock = 0, socks = [], procs = []\<rparr>"

lemmas live_eval = live_env_def live_world_def sample_env_def path_eval node_at_def

lemma live_ancestors: "ancestors (lit ''/tmp/vm0'') = [lit ''/'', lit ''/tmp'', lit ''/tmp/vm0'']"
  "ancestors (lit ''/tmp/vm1'') = [lit ''/'', lit ''/tmp'', lit ''/tmp/vm1'']"
  by (simp_all add: ancestors.simps path_eval)

lemma live_full: "full live_env (lit ''/tmp/vm0'') = lit ''/tmp/vm0''" "full live_env (lit ''/tmp/vm1'') = lit ''/tmp/vm1''"
  "join (lit ''/tmp'') (lit ''vm'' @ str_of_nat 0) = lit ''/tmp/vm0''" "join (lit ''/tmp'') (lit ''vm'' @ str_of_nat 1) = lit ''/tmp/vm1''"
  "join (lit ''/tmp/vm0'') (lit ''nether.conf'') = lit ''/tmp/vm0/nether.conf''"
  "join (lit ''/tmp/vm0'') (lit ''vm.log'') = lit ''/tmp/vm0/vm.log''"
  by (simp_all add: live_eval digits_eval)

lemma live_nodes:
  "node_at (fs live_world) (lit ''/tmp/vm0'') = Some (Dir 0)" "node_at (fs live_world) (lit ''/tmp/vm1'') = Some (File [] 0)"
  "node_at (fs live_world) (lit ''/tmp'') = Some (Dir 0)" "node_at f (lit ''/'') = Some (Dir 0)"
  by (simp_all add: live_eval)

lemma makedirs_exist_ok:
  assumes "is_dir E p w" and "list_all (\<lambda>q. node_at (fs w) q \<noteq> None) (butlast (ancestors (full E p)))"
  shows "makedirs E p True w = Some (Inr (), w)"
proof -
  have "for_each qs (\<lambda>q. bind (get (\<lambda>w. node_at (fs w) q \<noteq> None)) (\<lambda>x. when_io (\<not> x) (\<lambda>w. Some (mkdir q w)))) w = Some (Inr (), w)"
    if "list_all (\<lambda>q. node_at (fs w) q \<noteq> None) qs" for qs
    using that by (induction qs) (auto simp: ret_def seq_def bind_def get_def when_io_def)
  then show ?thesis using assms by (simp add: makedirs_def seq_ret)
qed

section \<open>A pool whose second fork cannot be started\<close>

text \<open>A base VM that meets every line with the same text, which is at once ready, up and a good snapshot; the
  directory of the second fork is a file.\<close>

definition pool_reply :: bytes where
  "pool_reply = blit ''ready UP OK'' @ [10, RS]"

definition pool_sock :: "bytes \<Rightarrow> sock" where
  "pool_sock h = \<lparr>inbox = [], closes = None, sent = h, shut = False, broken = \<lambda>_. None, drip = \<lambda>_ _. None, dripped = 0,
     tmo = seconds 20, now = 0, peer = \<lambda>_. [(0, pool_reply)]\<rparr>"

definition pool_env :: env where
  "pool_env = live_env\<lparr>dial := \<lambda>_ _. (0, Some (pool_sock []))\<rparr>"

definition pool_world :: world where
  "pool_world = \<lparr>fs = [(lit ''/tmp'', Dir 0), (lit ''/tmp/base'', Dir 0), (lit ''/tmp/base/base.sock'', File [] 0),
       (lit ''/tmp/vm0'', Dir 0), (lit ''/tmp/vm1'', File [] 0)],
     denied = \<lambda>_ _. False, clock = 0, socks = [], procs = []\<rparr>"

text \<open>The world once the base runs: its log is there and the control connection has carried \<open>h\<close>.\<close>

definition pool_up :: "sock list \<Rightarrow> world" where
  "pool_up ss = pool_world\<lparr>fs := fs pool_world @ [(lit ''/tmp/base/boot.log'', File [] 0)], socks := ss,
     procs := [running (lit ''/tmp/base'')]\<rparr>"

lemmas pool_eval = pool_env_def pool_world_def pool_up_def live_env_def sample_env_def path_eval node_at_def

lemma pool_paths:
  "join (lit ''/tmp'') (lit ''base'') = lit ''/tmp/base''" "join (lit ''/tmp/base'') (lit ''boot.log'') = lit ''/tmp/base/boot.log''"
  "join (lit ''/tmp/base'') (lit ''base.sock'') = lit ''/tmp/base/base.sock''"
  by (simp_all add: path_eval)

lemma pool_full: "full pool_env (lit ''/tmp/vm0'') = lit ''/tmp/vm0''" "full pool_env (lit ''/tmp/vm1'') = lit ''/tmp/vm1''"
  by (simp_all add: pool_eval)

lemma pool_popen: "popen pool_env d w = Some (Inr (length (procs w)), w\<lparr>procs := procs w @ [running d]\<rparr>)"
  by (simp add: popen_def pool_env_def live_env_def running_def)

lemma pool_launch: "launch pool_env (lit ''/tmp/base'') (lit ''boot.log'') pool_world = Some (Inr 0, pool_up [])"
proof -
  have "write_file pool_env (lit ''/tmp/base/boot.log'') [] pool_world =
      Some (Inr (), pool_world\<lparr>fs := fs pool_world @ [(lit ''/tmp/base/boot.log'', File [] 0)]\<rparr>)"
    by (simp add: write_file_def resolve_link_free link_free_def writable_def parent_ok_def pool_eval)
  then show ?thesis by (simp add: launch_def pool_paths seq_ret pool_popen pool_up_def) (simp add: pool_world_def)
qed

lemma pool_wait:
  "wait_path pool_env (lit ''/tmp/base/base.sock'') (clock (pool_up [])) (seconds 40) 300 (pool_up []) = Some (Inr (), pool_up [])"
proof -
  let ?p = "bind (path_exists pool_env (lit ''/tmp/base/base.sock'')) (\<lambda>x. ret (if x then Some () else None))"
  have "stat pool_env (lit ''/tmp/base/base.sock'') (pool_up []) \<noteq> None"
    by (simp add: stat_link_free link_free_def pool_eval)
  then have "poll_body pool_env (clock (pool_up [])) (seconds 40) 300 ?p () (pool_up []) = Some (Inr (Inr (Some ())), pool_up [])"
    by (simp add: poll_body_def time_time_def bind_get bind_path_exists bind_def [of "bind _ _"] ret_def)
  then have "poll pool_env (clock (pool_up [])) (seconds 40) 300 ?p (pool_up []) = Some (Inr (Some ()), pool_up [])"
    unfolding poll_def by (rule iterate_done)
  then show ?thesis by (simp add: wait_path_def seq_ret ret_def)
qed

lemma pool_connect: "uconn pool_env p (seconds 20) (pool_up []) = Some (Inr 0, pool_up [pool_sock []])"
  by (simp add: uconn_def connect_def pool_eval elapse_def Let_def pool_sock_def)

text \<open>What one exchange with the base gives.\<close>

lemma pool_exchange:
  assumes "list_all is_scalar line"
  shows "\<exists>h'. on_sock pool_env 0 (fork_serve_cmd line) (pool_up [pool_sock h]) = Some (Inr (lit ''ready UP OK'' @ [10]), pool_up [pool_sock h'])"
    and "\<exists>h' rep. on_meta pool_env 0 line to (pool_up [pool_sock h]) = Some (Inr rep, pool_up [pool_sock h'])"
proof -
  obtain b where enc: "encode line = Inr b" using assms by (simp add: encode_def)
  let ?h = "h @ b @ [10]"
  let ?got = "\<lambda>t. (pool_sock ?h)\<lparr>tmo := t, inbox := [(0, pool_reply)]\<rparr>"
  have now: "(pool_sock h)\<lparr>now := clock (pool_up ss)\<rparr> = pool_sock h" for ss
    by (simp add: pool_sock_def pool_up_def pool_world_def)
  have send: "send_line line ((pool_sock h)\<lparr>tmo := t\<rparr>) = Some (Inr (), ?got t)" for t
    by (simp add: send_line_def bind_lift enc sendall_def pool_sock_def pool_reply_def)
  have recv: "recv n (?got t) = Some (Inr pool_reply, (pool_sock ?h)\<lparr>tmo := t\<rparr>)" if "13 \<le> n" for n t
    using that by (simp add: recv_def chunks_def pool_sock_def) (simp add: pool_reply_def blit_def lit_def)
  have loop: "iterate (read_body (recv n) stop eof id) [] (?got t) = Some (Inr pool_reply, (pool_sock ?h)\<lparr>tmo := t\<rparr>)"
    if "13 \<le> n" "stop pool_reply" "\<not> stop []" for n t stop eof
  proof -
    have "read_body (recv n) stop eof id [] (?got t) = Some (Inr (Inl pool_reply), (pool_sock ?h)\<lparr>tmo := t\<rparr>)"
      using that recv [OF that(1)] by (simp add: read_body_def bind_ret ret_def pool_reply_def)
    then have "iterate (read_body (recv n) stop eof id) [] (?got t) =
        iterate (read_body (recv n) stop eof id) pool_reply ((pool_sock ?h)\<lparr>tmo := t\<rparr>)" by (rule iterate_step)
    also have "\<dots> = Some (Inr (id pool_reply), (pool_sock ?h)\<lparr>tmo := t\<rparr>)" using that(2) by (rule read_body_stop [of stop pool_reply])
    finally show ?thesis by simp
  qed
  have tmo: "(pool_sock g)\<lparr>tmo := 20000000\<rparr> = pool_sock g" "tmo (pool_sock g) = 20000000" for g by (simp_all add: pool_sock_def)
  have nl: "RS \<in> set pool_reply" "10 \<in> set pool_reply" by (simp_all add: pool_reply_def)
  have same: "elapse pool_env (now (pool_sock ?h) - clock (pool_up [pool_sock h])) ((pool_up [pool_sock h])\<lparr>socks := [pool_sock ?h]\<rparr>) = pool_up [pool_sock ?h]"
    by (simp add: elapse_def Let_def pool_eval pool_sock_def)
  have idx: "socks (pool_up [x]) = [x]" for x by (simp add: pool_up_def)
  have dec: "decode (before RS pool_reply) = lit ''ready UP OK'' @ [10]"
    using decode_encode [OF encode_ascii, of "lit ''ready UP OK'' @ [10]"]
    by (simp add: pool_reply_def blit_def lit_def RS_def before_def)
  have "fork_serve_cmd line (pool_sock h) = Some (Inr (lit ''ready UP OK'' @ [10]), pool_sock ?h)"
    using send [of 20000000, unfolded tmo(1)] loop [of 4096 "\<lambda>b. RS \<in> set b" "\<lambda>b. ret (Inl b)" 20000000] nl
    by (simp add: fork_serve_cmd_def fork_serve_frame_def seq_ret bind_ret ret_def dec tmo)
  then show "\<exists>h'. on_sock pool_env 0 (fork_serve_cmd line) (pool_up [pool_sock h]) = Some (Inr (lit ''ready UP OK'' @ [10]), pool_up [pool_sock h'])"
    using same by (auto simp: on_sock_def idx now)
  have "meta line to (pool_sock h) = Some (Inr (strip (decode pool_reply)), pool_sock ?h)"
    using send [of to] loop [of 256 "\<lambda>b. 10 \<in> set b" "\<lambda>b. ret (Inr b)" to] nl
    by (simp add: meta_def bind_get seq_ret settimeout_run bind_ret ret_def tmo)
  then show "\<exists>h' rep. on_meta pool_env 0 line to (pool_up [pool_sock h]) = Some (Inr rep, pool_up [pool_sock h'])"
    using same by (auto simp: on_sock_def idx now)
qed

lemma scalar_lit: "list_all is_scalar (lit s)"
proof -
  have "of_char c < (256::nat)" for c :: char by (rule nat_of_char_less_256)
  then have "of_char c < (55296::nat)" for c :: char by (rule less_trans) simp
  then show ?thesis by (simp add: list_all_iff lit_def is_scalar_def)
qed

lemma scalar_SERVE_SRV: "list_all is_scalar SERVE_SRV"
  unfolding SERVE_SRV_def by (simp only: list_all_append scalar_lit) (simp add: is_scalar_def)

lemma pool_warm: "\<exists>up iid h. warm_base pool_env (lit ''/tmp/base'') (pool_up []) = Some (Inr (0, up, iid), pool_up [pool_sock h])"
proof -
  let ?r = "lit ''ready UP OK'' @ [10]"
  have c: "contains (lit ''ready'') ?r" "contains (lit ''UP'') (strip ?r)"
    by (simp_all add: lit_def strip_by_def is_space_def)
  obtain h1 where 1: "on_sock pool_env 0 (fork_serve_cmd (lit ''__info__'')) (pool_up [pool_sock []]) = Some (Inr ?r, pool_up [pool_sock h1])"
    using pool_exchange(1) [OF scalar_lit] by blast
  obtain h2 where 2: "on_sock pool_env 0 (fork_serve_cmd (lit ''echo ready'')) (pool_up [pool_sock h1]) = Some (Inr ?r, pool_up [pool_sock h2])"
    using pool_exchange(1) [OF scalar_lit] by blast
  obtain h3 where 3: "on_sock pool_env 0 (fork_serve_cmd SERVE_SRV) (pool_up [pool_sock h2]) = Some (Inr ?r, pool_up [pool_sock h3])"
    using pool_exchange(1) [OF scalar_SERVE_SRV] by blast
  have cat: "\<exists>h'. serve_cat pool_env 0 (lit p) (pool_up [pool_sock h]) = Some (Inr (strip ?r), pool_up [pool_sock h'])" for p h
    using pool_exchange(1) [of "lit ''cat '' @ lit p @ lit '' 2>/dev/null; echo''" h]
    by (auto simp: serve_cat_def bind_ret ret_def scalar_lit simp del: append_assoc)
  obtain h4 where 4: "serve_cat pool_env 0 (lit ''/tmp/up'') (pool_up [pool_sock h3]) = Some (Inr (strip ?r), pool_up [pool_sock h4])"
    using cat by blast
  obtain h5 where 5: "serve_cat pool_env 0 (lit ''/tmp/iid'') (pool_up [pool_sock h4]) = Some (Inr (strip ?r), pool_up [pool_sock h5])"
    using cat by blast
  have retry: "retry pool_env 120 (bind (on_sock pool_env 0 (fork_serve_cmd (lit ''echo ready''))) (\<lambda>r. ret (contains (lit ''ready'') r)))
      (pool_up [pool_sock h1]) = Some (Inr (), pool_up [pool_sock h2])"
    using 2 c by (simp add: numeral_eq_Suc bind_ret ret_def)
  have any: "any_of pool_env 40 (bind (serve_cat pool_env 0 (lit ''/tmp/up'')) (\<lambda>r. ret (contains (lit ''UP'') r)))
      (pool_up [pool_sock h3]) = Some (Inr True, pool_up [pool_sock h4])"
    using 4 c by (simp add: numeral_eq_Suc bind_ret ret_def)
  have "warm_base pool_env (lit ''/tmp/base'') (pool_up []) = Some (Inr (0, True, strip ?r), pool_up [pool_sock h5])"
    unfolding warm_base_def using pool_connect 1 retry 3 any 5 by (simp add: bind_ret seq_ret ret_def)
  then show ?thesis by blast
qed

lemma pool_fork0:
  assumes "list_all is_scalar snap"
  shows "\<exists>b t. fork_vm pool_env (lit ''/tmp'') snap 0 (pool_up ss) =
    Some (Inr (lit ''/tmp/vm0'', 1, t), (pool_up ss)\<lparr>fs := fs (pool_up ss) @ [(lit ''/tmp/vm0/nether.conf'', File b 0), (lit ''/tmp/vm0/vm.log'', File [] 0)],
      procs := [running (lit ''/tmp/base''), running (lit ''/tmp/vm0'')]\<rparr>)"
proof -
  obtain b where enc: "encode (vm_conf snap) = Inr b"
  proof -
    have "list_all is_scalar (str_of_nat n)" for n using str_of_nat_chars [of _ n] by (fastforce simp: list_all_iff is_scalar_def)
    then have "list_all is_scalar (vm_conf snap)"
      unfolding vm_conf_def using assms by (simp add: scalar_lit) (simp add: is_scalar_def)
    then show ?thesis using that by (simp add: encode_def)
  qed
  have n: "node_at (fs (pool_up ss)) (lit ''/tmp/vm0'') = Some (Dir 0)" "node_at (fs (pool_up ss)) (lit ''/tmp'') = Some (Dir 0)"
    by (simp_all add: pool_eval)
  have mk: "makedirs pool_env (lit ''/tmp/vm0'') True (pool_up ss) = Some (Inr (), pool_up ss)"
    by (rule makedirs_exist_ok) (simp_all add: is_dir_def stat_link_free link_free_def pool_full live_ancestors live_nodes n)
  have w: "write_file pool_env (lit ''/tmp/vm0/nether.conf'') b (pool_up ss) =
      Some (Inr (), (pool_up ss)\<lparr>fs := fs (pool_up ss) @ [(lit ''/tmp/vm0/nether.conf'', File b 0)]\<rparr>)"
    "write_file pool_env (lit ''/tmp/vm0/vm.log'') [] ((pool_up ss)\<lparr>fs := fs (pool_up ss) @ [(lit ''/tmp/vm0/nether.conf'', File b 0)]\<rparr>) =
      Some (Inr (), (pool_up ss)\<lparr>fs := fs (pool_up ss) @ [(lit ''/tmp/vm0/nether.conf'', File b 0), (lit ''/tmp/vm0/vm.log'', File [] 0)]\<rparr>)"
    by (simp_all add: write_file_def resolve_link_free link_free_def writable_def parent_ok_def pool_eval)
  have "procs (pool_up ss) = [running (lit ''/tmp/base'')]" by (simp add: pool_up_def)
  then show ?thesis
    by (intro exI [of _ b]) (simp add: fork_vm_def Let_def live_full mk enc write_text_def w io_simps time_time_def launch_def pool_popen)
qed

lemma pool_fork1:
  assumes "fs w = fs (pool_up ss) @ [(lit ''/tmp/vm0/nether.conf'', x), (lit ''/tmp/vm0/vm.log'', y)]"
  shows "fork_vm pool_env (lit ''/tmp'') snap 1 w = Some (Inl OSError, w)"
proof -
  have n: "node_at (fs w) (lit ''/tmp/vm1'') = Some (File [] 0)" "node_at (fs w) (lit ''/tmp'') = Some (Dir 0)"
    by (simp_all add: assms pool_eval)
  have "\<not> is_dir pool_env (lit ''/tmp/vm1'') w" by (simp add: is_dir_def stat_link_free link_free_def pool_full n)
  then have "makedirs pool_env (lit ''/tmp/vm1'') True w = Some (Inl OSError, w)"
    by (simp add: makedirs_def pool_full live_ancestors n live_nodes io_simps bind_get when_io_def mkdir_def)
  then show ?thesis unfolding fork_vm_def Let_def live_full by (rule seq_raise)
qed

theorem pool_leaks_fork_witness:
  "\<exists>w'. with_procs pool_env 500000 (pool_body pool_env (\<lambda>_ w. (fs w, 0, socks w)) 4 (lit ''/tmp'')) pool_world = Some (Inl OSError, w') \<and>
     procs w' = [stopped (lit ''/tmp/base''), running (lit ''/tmp/vm0'')]"
proof -
  let ?snap = "join (join (lit ''/tmp'') (lit ''base'')) (lit ''base.snap'')"
  obtain up iid h where warm: "warm_base pool_env (lit ''/tmp/base'') (pool_up []) = Some (Inr (0, up, iid), pool_up [pool_sock h])"
    using pool_warm by blast
  obtain h' rep where snap: "on_meta pool_env 0 (lit ''__snapshot__ base.snap'') (seconds 60) (pool_up [pool_sock h]) = Some (Inr rep, pool_up [pool_sock h'])"
    using pool_exchange(2) [OF scalar_lit] by blast
  have "?snap = lit ''/tmp/base/base.snap''" by (simp add: path_eval)
  then have "list_all is_scalar ?snap" using scalar_lit by simp
  then obtain b t w5 where f0: "fork_vm pool_env (lit ''/tmp'') ?snap 0 (pool_up [pool_sock h']) = Some (Inr (lit ''/tmp/vm0'', 1, t), w5)"
    and w5: "fs w5 = fs (pool_up [pool_sock h']) @ [(lit ''/tmp/vm0/nether.conf'', File b 0), (lit ''/tmp/vm0/vm.log'', File [] 0)]"
    using pool_fork0 by fastforce
  note f1 = pool_fork1 [OF w5, of ?snap]
  show ?thesis
    using pool_leaks_fork [of pool_env "lit ''/tmp''", unfolded pool_paths, OF pool_launch pool_wait warm snap] f0 f1
    by (simp add: pool_paths live_full pool_world_def)
qed

text \<open>A host whose VMs refuse every connection: the script comes back by itself.\<close>

abbreviation patient_host :: "env \<Rightarrow> world \<times> nat list \<Rightarrow> bool" where
  "patient_host E \<equiv> \<lambda>s. patient E (fst s)"

lemma returning_on_world: "settles (patient E) R m \<Longrightarrow> settles (patient_host E) (\<lambda>_ _. True) (on_world m)"
  by (fastforce simp: settles_def on_world_def split: option.splits prod.splits)

lemma returning_note: "settles (patient_host E) (\<lambda>_ _. True) (modify (\<lambda>(w, ps). (w, f ps)))"
  by (simp add: settles_def modify_def split_beta)

lemma returning_boot: "settles (patient_host E) (\<lambda>_ _. True) (boot E d l)"
  unfolding boot_def by (intro returning.forms returning_on_world [OF launch_patient] returning_note)

lemma returning_signal: "settles (patient E) (\<lambda>_ _. True) (swallow (send_signal p g))"
  by (intro returning.forms) (auto simp: settles_def send_signal_def modify_def)

lemma returning_stop_all: "settles (patient_host E) (\<lambda>_ _. True) (stop_all E nap)"
  unfolding stop_all_def signal_all_def
  by (intro returning.forms returning_on_world [OF returning_signal] returning_on_world [OF quiet_sleep])

lemma refused_warm_base:
  assumes "\<And>w p. snd (dial E w p) = None"
  shows "settles (patient_host E) (\<lambda>_ _. True) (bind (on_world (warm_base E base)) f)"
proof -
  have w: "\<exists>w'. warm_base E base w = Some (Inl OSError, w') \<and> socks w' = socks w" for w
  proof -
    have "\<exists>w'. uconn E p to w = Some (Inl OSError, w') \<and> socks w' = socks w" for p to
      using assms [of w p] by (cases "dial E w p") (auto simp: uconn_def connect_def elapse_def Let_def)
    then obtain w' where "uconn E (join base (lit ''base.sock'')) (seconds 20) w = Some (Inl OSError, w')" "socks w' = socks w" by blast
    then show ?thesis unfolding warm_base_def by (simp add: bind_raise)
  qed
  show ?thesis
  proof (rule settlesI)
    fix s :: "world \<times> nat list" assume "patient_host E s"
    moreover obtain w' where "warm_base E base (fst s) = Some (Inl OSError, w')" "socks w' = socks (fst s)" using w by blast
    moreover from this have "on_world (warm_base E base) s = Some (Inl OSError, (w', snd s))" by (simp add: on_world_def split_beta)
    ultimately show "\<exists>r s'. bind (on_world (warm_base E base)) f s = Some (r, s') \<and> patient_host E s'"
      by (simp add: bind_raise patient_def)
  qed simp
qed

lemma refused_fork_serve:
  assumes "\<And>w p. snd (dial E w p) = None" and "socks w = []"
  shows "\<exists>r w'. fork_serve_main E sched w = Some (r, w')"
proof -
  have body: "settles (patient_host E) (\<lambda>_ _. True) (fork_serve_body E sched base fork)" for base fork
    unfolding fork_serve_body_def
    by (intro returning.s_seq returning.s_bind returning.s_if returning.s_ret returning_boot
        refused_warm_base assms(1) returning_on_world [OF quiet_wait_sock])
  have "settles (patient E) (\<lambda>_ _. True) (with_procs E 500000 (fork_serve_body E sched base fork))" for base fork
  proof (rule settlesI)
    fix w assume "patient E w"
    then obtain r s where "try_finally (fork_serve_body E sched base fork) (stop_all E 500000) (w, []) = Some (r, s)" "patient_host E s"
      using settlesD [OF returning.s_finally [OF body returning_stop_all [of E 500000]], of "(w, [])"] by fastforce
    then show "\<exists>r w'. with_procs E 500000 (fork_serve_body E sched base fork) w = Some (r, w') \<and> patient E w'"
      by (cases s) (simp add: with_procs_def)
  qed simp
  then have "settles (patient E) (\<lambda>_ _. True) (fork_serve_main E sched)"
    unfolding fork_serve_main_def Let_def by (intro returning.forms quiet_calls [THEN returning_weaken])
  moreover have "patient E w" using assms by (simp add: patient_def all_terse_def)
  ultimately show ?thesis using settlesD [of "patient E" "\<lambda>_ _. True"] by blast
qed

lemma live_refuses: "snd (dial live_env w p) = None"
  by (simp add: live_env_def sample_env_def)

theorem fork_serve_stops_vms_witness:
  "\<exists>r w' ds. fork_serve_main live_env (\<lambda>_ w. (fs w, 0, socks w)) live_world = Some (r, w') \<and>
     procs w' = procs live_world @ map stopped ds"
proof -
  obtain r w' where run: "fork_serve_main live_env (\<lambda>_ w. (fs w, 0, socks w)) live_world = Some (r, w')"
    using refused_fork_serve [OF live_refuses, of live_world] by (simp add: live_world_def) blast
  from fork_serve_stops_vms [OF run] run show ?thesis by blast
qed

end
