(* ===== verification/Live_Samples.thy ===== *)
theory Live_Samples
  imports Live Serve_Samples
begin

text \<open>
  A concrete host for the properties of the live runs: it starts a VM whose control socket refuses every
  connection.
\<close>

abbreviation relay_files :: "fs \<Rightarrow> world" where
  "relay_files new \<equiv> live_world\<lparr>fs := fs live_world @ new\<rparr>"

lemma relay_full:
  "join (lit ''/tmp'') (lit ''v1'') = lit ''/tmp/v1''" "full live_env (lit ''/tmp/v1'') = lit ''/tmp/v1''"
  "join (lit ''/tmp/v1'') (lit ''kernels'') = lit ''/tmp/v1/kernels''"
  "join (lit ''/tmp/v1'') (lit ''nether.conf'') = lit ''/tmp/v1/nether.conf''"
  "join (lit ''/tmp/v1'') (lit ''boot.log'') = lit ''/tmp/v1/boot.log''"
  by (simp_all add: live_eval)

lemma relay_ancestors: "ancestors (lit ''/tmp/v1'') = [lit ''/'', lit ''/tmp'', lit ''/tmp/v1'']"
  by (simp add: ancestors.simps path_eval)

lemma relay_makedirs:
  "makedirs live_env (lit ''/tmp/v1'') False live_world = Some (Inr (), relay_files [(lit ''/tmp/v1'', Dir 0)])"
proof -
  have "mkdir (lit ''/tmp/v1'') live_world = (Inr (), relay_files [(lit ''/tmp/v1'', Dir 0)])"
    by (simp add: mkdir_def parent_ok_def live_eval)
  then show ?thesis
    by (simp add: makedirs_def relay_full relay_ancestors live_nodes io_simps bind_get when_io_def)
qed

lemma relay_symlink:
  "symlink live_env (lit ''/n/kernels'') (lit ''/tmp/v1/kernels'') (relay_files [(lit ''/tmp/v1'', Dir 0)]) =
     Some (Inr (), relay_files [(lit ''/tmp/v1'', Dir 0), (lit ''/tmp/v1/kernels'', Symlink (lit ''/n/kernels''))])"
  by (simp add: symlink_def parent_ok_def live_eval)

definition relay_bytes :: bytes where
  "relay_bytes = map word_of_nat (relay_conf [])"

lemma relay_encode: "encode (relay_conf []) = Inr relay_bytes"
  unfolding relay_bytes_def by (rule encode_ascii) (simp add: relay_conf_def lit_def)

lemma relay_write:
  "write_file live_env (lit ''/tmp/v1/nether.conf'') b
     (relay_files [(lit ''/tmp/v1'', Dir 0), (lit ''/tmp/v1/kernels'', Symlink (lit ''/n/kernels''))]) =
   Some (Inr (), relay_files [(lit ''/tmp/v1'', Dir 0), (lit ''/tmp/v1/kernels'', Symlink (lit ''/n/kernels'')),
     (lit ''/tmp/v1/nether.conf'', File b 0)])"
  "write_file live_env (lit ''/tmp/v1/boot.log'') []
     (relay_files [(lit ''/tmp/v1'', Dir 0), (lit ''/tmp/v1/kernels'', Symlink (lit ''/n/kernels'')),
       (lit ''/tmp/v1/nether.conf'', File b 0)]) =
   Some (Inr (), relay_files [(lit ''/tmp/v1'', Dir 0), (lit ''/tmp/v1/kernels'', Symlink (lit ''/n/kernels'')),
     (lit ''/tmp/v1/nether.conf'', File b 0), (lit ''/tmp/v1/boot.log'', File [] 0)])"
  by (simp_all add: write_file_def resolve_link_free link_free_def writable_def parent_ok_def live_eval)

theorem relay_boot_leaks_witness:
  "\<exists>w'. with_procs live_env 500000 (relay_body live_env (lit ''/tmp'')) live_world = Some (Inl OSError, w') \<and>
     procs w' = [running (lit ''/tmp/v1'')]"
proof -
  have NB: "NB live_env @ lit ''/kernels'' = lit ''/n/kernels''" by (simp add: live_env_def sample_env_def lit_def)
  have conf: "write_text live_env (lit ''/tmp/v1/nether.conf'') (relay_conf []) w =
      write_file live_env (lit ''/tmp/v1/nether.conf'') relay_bytes w" for w
    by (simp add: write_text_def relay_encode)
  have p: "popen live_env d w = Some (Inr (length (procs w)), w\<lparr>procs := procs w @ [running d]\<rparr>)" for d w
    by (simp add: popen_def live_env_def running_def)
  have "\<exists>w'. with_procs live_env 500000 (relay_body live_env (lit ''/tmp'')) live_world = Some (Inl OSError, w') \<and>
      procs w' = procs live_world @ [running (join (lit ''/tmp'') (lit ''v1''))]"
    by (rule relay_boot_leaks, unfold relay_full NB conf, rule relay_makedirs, rule relay_symlink, rule relay_write,
        unfold launch_def relay_full, subst seq_ret, rule relay_write, rule p, rule live_refuses)
  then show ?thesis by (simp add: relay_full live_world_def)
qed

end
