(* ===== verification/Park_Samples.thy ===== *)
theory Park_Samples
  imports Parks Serve_Samples
begin

text \<open>
  A concrete host on which \<open>park_multi_proof.py\<close> succeeds: the VMs start, their agents answer every command
  at once, and the broker has parked the four requests.
\<close>

section \<open>The host\<close>

definition reply_table :: "(bytes \<times> bytes) list" where
  "reply_table =
     [(blit ''echo ready'', blit ''ready''),
      (blit ''__park__ multi.snap'', blit ''OK parked''),
      (blit ''cat /tmp/r-alpha 2>/dev/null; echo'', blit ''REPLY-FOR-alpha''),
      (blit ''cat /tmp/r-bravo 2>/dev/null; echo'', blit ''REPLY-FOR-bravo''),
      (blit ''cat /tmp/r-charlie 2>/dev/null; echo'', blit ''REPLY-FOR-charlie''),
      (blit ''cat /tmp/r-delta 2>/dev/null; echo'', blit ''REPLY-FOR-delta''),
      (blit ''cat /tmp/req.log 2>/dev/null; echo'', blit ''all-done'')]"

definition reply_to :: "bytes \<Rightarrow> bytes" where
  "reply_to line = (case map_of reply_table line of None \<Rightarrow> [] | Some r \<Rightarrow> r)"

definition last_line :: "bytes \<Rightarrow> bytes" where
  "last_line hist = rev (takeWhile (\<lambda>c. c \<noteq> 10) (rev (butlast hist)))"

definition park_sock :: sock where
  "park_sock = \<lparr>inbox = [], closes = None, sent = [], shut = False, broken = \<lambda>_. None, drip = \<lambda>_ _. None, dripped = 0, tmo = 0, now = 0,
     peer = \<lambda>hist. [(0, agent_reply (reply_to (last_line hist)) 0)]\<rparr>"

definition park_fs :: fs where
  "park_fs = [(lit ''/n/zig-out/bin/nether'', File [] 0), (lit ''/w'', Dir 0), (lit ''/w/b'', Dir 0), (lit ''/w/f'', Dir 0),
     (lit ''/w/b/c.sock'', SockFile 0), (lit ''/w/f/f.sock'', SockFile 0), (lit ''/w/f/fork.log'', File (blit ''revived 4/4'') 0)]"

definition park_env :: env where
  "park_env = (sample_env (lit ''/n''))\<lparr>environ := \<lambda>_. Some (lit ''/w''), spawns := \<lambda>_. True, others := \<lambda>_. park_fs,
     dial := \<lambda>_ _. (0, Some park_sock)\<rparr>"

definition park_world :: world where
  "park_world = \<lparr>fs = [(lit ''/n/zig-out/bin/nether'', File [] 0)], denied = \<lambda>_ _. False, clock = 0, socks = [], procs = []\<rparr>"

lemmas park_eval = park_env_def sample_env_def park_fs_def path_eval node_at_def

section \<open>Runs on this host\<close>

definition good_sock :: "sock \<Rightarrow> bool" where
  "good_sock s \<longleftrightarrow> peer s = peer park_sock \<and> pending s = [] \<and> (sent s = [] \<or> last (sent s) = 10)"

definition awake :: "nat \<Rightarrow> world \<Rightarrow> bool" where
  "awake n w \<longleftrightarrow> denied w = (\<lambda>_ _. False) \<and> length (socks w) = n \<and> list_all good_sock (socks w)"

definition at_rest :: "nat \<Rightarrow> world \<Rightarrow> bool" where
  "at_rest n w \<longleftrightarrow> awake n w \<and> fs w = park_fs"

lemma at_rest_awake: "at_rest n w \<Longrightarrow> awake n w"
  by (simp add: at_rest_def)

lemma at_rest_elapse: "awake n w \<Longrightarrow> at_rest n (elapse park_env d w)"
  by (simp add: at_rest_def awake_def elapse_def Let_def park_env_def)

definition does :: "nat \<Rightarrow> 'a sys \<Rightarrow> 'a \<Rightarrow> nat \<Rightarrow> bool" where
  "does n m a n' \<longleftrightarrow> (\<forall>w. at_rest n w \<longrightarrow> (\<exists>w'. m w = Some (Inr a, w') \<and> at_rest n' w'))"

lemma does_ret: "does n (ret a) a n"
  by (simp add: does_def ret_def)

lemma does_bind: "does n m a n1 \<Longrightarrow> does n1 (f a) b n2 \<Longrightarrow> does n (bind m f) b n2"
  unfolding does_def bind_Some_iff by blast

lemma does_seq: "does n m a n1 \<Longrightarrow> does n1 m' b n2 \<Longrightarrow> does n (seq m m') b n2"
  unfolding seq_def by (rule does_bind)

lemma does_time: "(\<And>t. does n (f t) b n') \<Longrightarrow> does n (bind time_time f) b n'"
  unfolding does_def time_time_def by (simp add: bind_get)

lemma does_sleep: "does n (sleep park_env d) () n"
  by (auto simp: does_def sleep_def modify_def intro: at_rest_elapse at_rest_awake)

lemma does_look: "does n (look park_env (\<lambda>_. b)) b n"
  unfolding look_def by (rule does_seq [OF does_sleep]) (simp add: does_def get_def)

lemma does_wait_until: "does n ok True n \<Longrightarrow> does n (wait_until park_env t0 to ok) () n"
  unfolding wait_until_def does_def by (fastforce intro!: iterate_done simp: bind_def ret_def)

lemma does_swallow: "does n m a n' \<Longrightarrow> does n (swallow m) () n'"
  by (fastforce simp: does_def swallow_def try_except_def seq_def bind_def ret_def)

text \<open>A command gets its reply.\<close>

lemma last_line: "10 \<notin> set b \<Longrightarrow> h = [] \<or> last h = 10 \<Longrightarrow> last_line (h @ b @ [10]) = b"
proof -
  assume b: "10 \<notin> set b" and h: "h = [] \<or> last h = 10"
  have "takeWhile (\<lambda>c. c \<noteq> 10) (rev b @ rev h) = rev b"
  proof (cases "h = []")
    case False
    then obtain t where "rev h = 10 # t" using h by (cases "rev h") (auto simp: last_rev [symmetric] hd_rev)
    then show ?thesis using b by (simp add: takeWhile_append)
  qed (use b in \<open>auto simp: takeWhile_eq_all_conv\<close>)
  then show ?thesis by (simp add: last_line_def butlast_append)
qed

lemma park_cmd_reply:
  assumes "good_sock s" and "encode line = Inr b" and "10 \<notin> set b" and "0 < to"
  shows "\<exists>s'. park_cmd line to s = Some (Inr (decode (reply_to b)), s') \<and> good_sock s'"
proof -
  let ?h = "\<lambda>hist. (reply_to (last_line hist), 0 :: int)"
  have "answers s to ?h" using assms(1,4) by (simp add: good_sock_def answers_def park_sock_def str_of_int_def digits_eval)
  from pk.exchange [OF this _ assms(2)] assms(1) obtain s' where
    "seq (send_line line) (framed to) s = Some (Inr (reply_to (last_line (sent s @ b @ [10])), Some 0), s')"
    "pending s' = []" "sent s' = sent s @ b @ [10]" "peer s' = peer s" by (auto simp: good_sock_def)
  moreover have "last_line (sent s @ b @ [10]) = b" using last_line [OF assms(3)] assms(1) by (simp add: good_sock_def)
  moreover have "park_cmd line to = bind (seq (send_line line) (framed to)) (\<lambda>(b, e). ret (decode b))"
    by (simp add: park_cmd_def seq_def bind_assoc)
  ultimately show ?thesis using assms(1) by (simp add: good_sock_def bind_ret ret_run)
qed

lemma does_cmd:
  assumes "i < n" and "encode line = Inr b" and "10 \<notin> set b" and "0 < to" and "decode (reply_to b) = r"
  shows "does n (guest_cmd park_env i line to) r n"
  unfolding does_def
proof (intro allI impI)
  fix w assume st: "at_rest n w"
  then have g: "good_sock ((socks w ! i)\<lparr>now := clock w\<rparr>)"
    using assms(1) by (auto simp: at_rest_def awake_def list_all_length good_sock_def pending_def)
  obtain s' where s': "park_cmd line to ((socks w ! i)\<lparr>now := clock w\<rparr>) = Some (Inr r, s')" "good_sock s'"
    using park_cmd_reply [OF g assms(2-4)] assms(5) by blast
  have "awake n (w\<lparr>socks := (socks w)[i := s']\<rparr>)"
    using st s'(2) set_update_subset_insert [of "socks w" i s'] by (auto simp: at_rest_def awake_def list_all_iff)
  then show "\<exists>w'. guest_cmd park_env i line to w = Some (Inr r, w') \<and> at_rest n w'"
    using s'(1) st assms(1) at_rest_elapse by (auto simp: guest_cmd_def on_sock_def at_rest_def [of n w] awake_def [of n w])
qed

lemma encode_lit: "\<forall>c \<in> set s. of_char c < (128 :: nat) \<Longrightarrow> encode (lit s) = Inr (blit s)"
  unfolding blit_def by (rule encode_ascii) (auto simp: lit_def)

lemma lit_append: "lit a @ lit b = lit (a @ b)"
  by (simp add: lit_def)

lemma does_lit_cmd:
  assumes "i < n" and "0 < to" and "\<forall>c \<in> set s. of_char c < (128 :: nat) \<and> of_char c \<noteq> (10 :: nat)" and "decode (reply_to (blit s)) = r"
  shows "does n (guest_cmd park_env i (lit s) to) r n"
proof (rule does_cmd [OF assms(1) encode_lit _ assms(2,4)])
  show "10 \<notin> set (blit s)"
  proof
    assume "10 \<in> set (blit s)"
    then obtain c where "c \<in> set s" "word_of_nat (of_char c) = (10 :: byte)" by (auto simp: blit_def lit_def)
    with assms(3) have "unat (10 :: byte) = of_char c" using unat_byte [of "of_char c"] by fastforce
    then show False using assms(3) \<open>c \<in> set s\<close> by simp
  qed
qed (use assms(3) in blast)

lemmas reply_eval = reply_to_def reply_table_def blit_def lit_def

lemma replies:
  "decode (reply_to (blit ''echo ready'')) = lit ''ready''"
  "decode (reply_to (blit ''__park__ multi.snap'')) = lit ''OK parked''"
  "decode (reply_to (blit ''cat /tmp/r-alpha 2>/dev/null; echo'')) = lit ''REPLY-FOR-alpha''"
  "decode (reply_to (blit ''cat /tmp/r-bravo 2>/dev/null; echo'')) = lit ''REPLY-FOR-bravo''"
  "decode (reply_to (blit ''cat /tmp/r-charlie 2>/dev/null; echo'')) = lit ''REPLY-FOR-charlie''"
  "decode (reply_to (blit ''cat /tmp/r-delta 2>/dev/null; echo'')) = lit ''REPLY-FOR-delta''"
  "decode (reply_to (blit ''cat /tmp/req.log 2>/dev/null; echo'')) = lit ''all-done''"
  by (simp_all add: reply_to_def reply_table_def decode_blit) (simp_all add: blit_def lit_def)

text \<open>Waiting for a socket that the started VM creates, and connecting to it.\<close>

lemma reach_sock:
  assumes "awake n w" and "clock w = t0" and "nap < to" and "node_at park_fs (full park_env p) = Some (SockFile k)"
  shows "\<exists>w1 w2. wait_path park_env p t0 to nap w = Some (Inr (), w1) \<and> uconn park_env p c w1 = Some (Inr n, w2) \<and>
    at_rest (Suc n) w2 \<and> clock w2 \<le> t0 + nap"
proof -
  let ?probe = "bind (path_exists park_env p) (\<lambda>x. ret (if x then Some () else None))"
  have there: "stat park_env p v = Some (SockFile k)" if "fs v = park_fs" for v
    using assms(4) that by (simp add: stat_link_free link_free_def)
  have found: "wait_path park_env p t0 to nap v = Some (Inr (), v)"
    if "stat park_env p v \<noteq> None" "clock v - t0 < to" for v
    unfolding wait_path_def poll_def poll_body_def
    by (subst seq_ret, rule iterate_done, insert that)
       (auto simp: bind_def time_time_def get_def path_exists_def ret_def)
  have dialled: "\<exists>w2. uconn park_env p c v = Some (Inr n, w2) \<and> at_rest (Suc n) w2 \<and> clock w2 = clock v" if "awake n v" for v
    using that
    by (simp add: uconn_def connect_def park_env_def elapse_def Let_def at_rest_def awake_def good_sock_def park_sock_def pending_def)
  show ?thesis
  proof (cases "stat park_env p w = None")
    case False
    then show ?thesis using found [of w] dialled [OF assms(1)] assms(2,3) by fastforce
  next
    case True
    let ?v = "elapse park_env nap w"
    have v: "at_rest n ?v" "clock ?v = t0 + nap" using at_rest_elapse [OF assms(1)] assms(2) by (simp_all add: elapse_def Let_def)
    have "poll_body park_env t0 to nap ?probe () w = Some (Inr (Inl ()), ?v)"
      using True assms(2,3)
      by (simp add: poll_body_def bind_def seq_def time_time_def get_def path_exists_def ret_def sleep_def modify_def
          park_env_def sample_env_def)
    then have "wait_path park_env p t0 to nap w = wait_path park_env p t0 to nap ?v"
      unfolding wait_path_def poll_def seq_def bind_def by (simp add: iterate_step)
    also have "\<dots> = Some (Inr (), ?v)"
      using there v assms(3) by (intro found) (auto simp: at_rest_def)
    finally show ?thesis using dialled [OF at_rest_awake [OF v(1)]] v(2) by fastforce
  qed
qed

lemma does_retry: "0 < k \<Longrightarrow> does n probe True n \<Longrightarrow> does n (retry park_env k probe) () n"
  by (cases k) (simp_all add: does_bind [where a = True] does_ret)

lemma does_park_cat:
  assumes "i < n" and "\<forall>c \<in> set f. of_char c < (128 :: nat) \<and> of_char c \<noteq> (10 :: nat)"
    and "decode (reply_to (blit (''cat '' @ f @ '' 2>/dev/null; echo''))) = lit r" and "strip (lit r) = lit r"
  shows "does n (park_cat park_env i (lit f)) (lit r) n"
proof -
  have "does n (guest_cmd park_env i (lit (''cat '' @ f @ '' 2>/dev/null; echo'')) (seconds 8)) (lit r) n"
    by (rule does_lit_cmd [OF assms(1) _ _ assms(3)]) (use assms(2) in auto)
  moreover have "does n (ret (strip (lit r))) (lit r) n" unfolding assms(4) by (rule does_ret)
  ultimately show ?thesis unfolding park_cat_def lit_append by (rule does_bind)
qed

lemma does_self_exit: "does n (self_exit park_env (\<lambda>_ _. (0, Some 0)) p) [] n"
  unfolding self_exit_def
  by (auto simp: does_def wait_exit_def try_except_def bind_def ret_def intro!: at_rest_elapse at_rest_awake)

lemma does_park_vm: "i < n \<Longrightarrow> does n (park_vm park_env i ''multi.snap'') (lit ''OK parked'') n"
  unfolding park_vm_def lit_append by (rule does_lit_cmd) (simp_all add: replies)

lemma does_bye: "i < n \<Longrightarrow> does n (park_bye park_env i) () n"
  unfolding park_bye_def by (rule does_swallow, rule does_lit_cmd) (simp_all add: lit_def)

lemma does_fork_log: "does n (read_log park_env (lit ''/w/f/fork.log'')) (lit ''revived 4/4'') n"
proof -
  have "contents park_env (lit ''/w/f/fork.log'') w = Some (blit ''revived 4/4'')" if "at_rest n w" for w
  proof -
    have n: "node_at park_fs (lit ''/w/f/fork.log'') = Some (File (blit ''revived 4/4'') 0)"
      "full park_env (lit ''/w/f/fork.log'') = lit ''/w/f/fork.log''" by (simp_all add: park_eval)
    show ?thesis using that n by (simp add: contents_link_free link_free_def at_rest_def awake_def)
  qed
  moreover have "decode_strict (blit ''revived 4/4'') = Inr (lit ''revived 4/4'')"
    by (rule decode_strict_encode, rule encode_lit) simp
  ultimately show ?thesis
    by (auto simp: does_def read_log_def read_file_def bind_get bind_def get_def ret_def lift_def)
qed

section \<open>The run\<close>

lemma does_drive:
  assumes "i < n" and "length (parked b) = length TAGS" and "card (set (map snd (parked b))) = length TAGS"
  shows "does n (multi_drive park_env (\<lambda>_. b) i) (Some []) n"
proof -
  have "does n (guest_cmd park_env i REQ4 (seconds 15)) (decode (reply_to (map word_of_nat REQ4))) n"
  proof (rule does_cmd [OF assms(1) encode_ascii _ _ refl])
    show "\<forall>c \<in> set REQ4. c < 128" "10 \<notin> set (map word_of_nat REQ4 :: bytes)" by (simp_all add: REQ4_def lit_def)
  qed simp
  moreover have "does n (bind (look park_env (\<lambda>_. b)) (\<lambda>b. ret (length TAGS \<le> length (parked b)))) True n"
    by (rule does_bind [OF does_look]) (simp add: assms(2) does_ret)
  ultimately show ?thesis unfolding multi_drive_def
    by (rule does_seq [OF _ does_time [OF does_seq [OF does_wait_until does_bind [OF does_look]]]])
       (simp add: assms(2), rule does_bind [OF does_look], rule does_seq [OF does_sleep], simp add: assms(3) [unfolded list.set_map] does_ret)
qed

definition all_replies :: "(pystr \<times> pystr) list" where
  "all_replies = map (\<lambda>g. (g, lit ''REPLY-FOR-'' @ g)) TAGS"

lemma does_collect_step:
  assumes "g \<notin> set (map fst got)" and "does n (park_cat park_env i (lit ''/tmp/r-'' @ g)) v n" and "v \<noteq> []"
    and "does n (collect_replies park_env i gs (got @ [(g, v)])) r n"
  shows "does n (collect_replies park_env i (g # gs) got) r n"
  using assms(1,3,4) does_bind [OF assms(2), of "\<lambda>v. collect_replies park_env i gs (if v = [] then got else got @ [(g, v)])"]
  by (simp del: list.set_map)

lemma does_collect: "i < n \<Longrightarrow> does n (collect_replies park_env i TAGS []) all_replies n"
proof -
  assume i: "i < n"
  have cat: "does n (park_cat park_env i (lit ''/tmp/r-'' @ lit ''alpha'')) (lit ''REPLY-FOR-alpha'') n"
    "does n (park_cat park_env i (lit ''/tmp/r-'' @ lit ''bravo'')) (lit ''REPLY-FOR-bravo'') n"
    "does n (park_cat park_env i (lit ''/tmp/r-'' @ lit ''charlie'')) (lit ''REPLY-FOR-charlie'') n"
    "does n (park_cat park_env i (lit ''/tmp/r-'' @ lit ''delta'')) (lit ''REPLY-FOR-delta'') n"
    unfolding lit_append by (rule does_park_cat [OF i], simp, simp add: replies, simp add: strip_by_def is_space_def lit_def)+
  have ne: "lit (c # s) \<noteq> []" for c s by (simp add: lit_def)
  have new: "lit ''bravo'' \<noteq> lit ''alpha''" "lit ''charlie'' \<noteq> lit ''alpha''" "lit ''charlie'' \<noteq> lit ''bravo''"
    "lit ''delta'' \<noteq> lit ''alpha''" "lit ''delta'' \<noteq> lit ''bravo''" "lit ''delta'' \<noteq> lit ''charlie''" by (simp_all add: lit_def)
  show ?thesis unfolding TAGS_def
    by (rule does_collect_step, simp, rule cat(1), rule ne,
        rule does_collect_step, simp add: new, rule cat(2), rule ne,
        rule does_collect_step, simp add: new, rule cat(3), rule ne,
        rule does_collect_step, simp add: new, rule cat(4), rule ne)
       (simp add: all_replies_def TAGS_def lit_append does_ret)
qed

lemma gather_run:
  assumes "at_rest n w" and "i < n" and "clock w - t0 < seconds 30"
  shows "\<exists>w'. gather park_env i t0 w = Some (Inr all_replies, w') \<and> at_rest n w'"
proof -
  let ?body = "\<lambda>got. bind time_time (\<lambda>t. if t - t0 < seconds 30 \<and> length got < length TAGS
       then bind (collect_replies park_env i TAGS got) (\<lambda>got. seq (sleep park_env 300) (ret (Inl got))) else ret (Inr got))"
  have "does n (bind (collect_replies park_env i TAGS []) (\<lambda>got. seq (sleep park_env 300) (ret (Inl got :: _ + (pystr \<times> pystr) list))))
      (Inl all_replies) n"
    by (rule does_bind [OF does_collect [OF assms(2)]], rule does_seq [OF does_sleep], rule does_ret)
  then obtain v where v: "at_rest n v" "?body [] w = Some (Inr (Inl all_replies), v)"
    using assms(1,3) by (auto simp: does_def time_time_def bind_get TAGS_def)
  then have "gather park_env i t0 w = iterate ?body all_replies v" unfolding gather_def by (intro iterate_step)
  also have "\<dots> = Some (Inr all_replies, v)"
    by (rule iterate_done) (simp add: time_time_def bind_get all_replies_def ret_def)
  finally show ?thesis using v(1) by blast
qed

lemma park_paths:
  "join (lit ''/w'') (lit ''b'') = lit ''/w/b''" "join (lit ''/w'') (lit ''f'') = lit ''/w/f''"
  "join (lit ''/w'') (lit ''e.sock'') = lit ''/w/e.sock''" "join (lit ''/w/b'') (lit ''kernels'') = lit ''/w/b/kernels''"
  "join (lit ''/w/b'') (lit ''nether.conf'') = lit ''/w/b/nether.conf''" "join (lit ''/w/b'') (lit ''boot.log'') = lit ''/w/b/boot.log''"
  "join (lit ''/w/b'') (lit ''c.sock'') = lit ''/w/b/c.sock''" "join (lit ''/w/b'') (lit ''multi.snap'') = lit ''/w/b/multi.snap''"
  "join (lit ''/w/f'') (lit ''nether.conf'') = lit ''/w/f/nether.conf''" "join (lit ''/w/f'') (lit ''fork.log'') = lit ''/w/f/fork.log''"
  "join (lit ''/w/f'') (lit ''f.sock'') = lit ''/w/f/f.sock''"
  by (simp_all add: path_eval)

lemma wake_run:
  assumes "awake 1 w" and "clock w = t0"
  shows "\<exists>w'. multi_wake park_env (lit ''/w/f'') t0 w = Some (Inr [], w') \<and> at_rest 2 w'"
proof -
  have "node_at park_fs (full park_env (lit ''/w/f/f.sock'')) = Some (SockFile 0)" by (simp add: park_eval)
  from reach_sock [OF assms, of 300 "seconds 30" _ _ "seconds 30", OF _ this] obtain w1 w2 where
    r: "wait_path park_env (lit ''/w/f/f.sock'') t0 (seconds 30) 300 w = Some (Inr (), w1)"
    "uconn park_env (lit ''/w/f/f.sock'') (seconds 30) w1 = Some (Inr 1, w2)" "at_rest 2 w2" "clock w2 \<le> t0 + 300"
    by (auto simp: numeral_2_eq_2)
  obtain w3 where g: "gather park_env 1 t0 w2 = Some (Inr all_replies, w3)" "at_rest 2 w3"
  proof -
    have "clock w2 - t0 < seconds 30" using r(4) by simp
    from gather_run [OF r(3) _ this, of 1] show thesis using that by auto
  qed
  have cat: "does 2 (park_cat park_env 1 (lit ''/tmp/req.log'')) (lit ''all-done'') 2"
    by (rule does_park_cat, simp, simp, simp add: replies, simp add: strip_by_def is_space_def lit_def)
  have "mixups all_replies = []" by (simp add: mixups_def all_replies_def TAGS_def lit_def)
  then have "does 2 (bind (read_log park_env (lit ''/w/f/fork.log'')) (\<lambda>flog.
      bind (park_cat park_env 1 (lit ''/tmp/req.log'')) (\<lambda>req_log. seq (park_bye park_env 1) (
      ret ((if contains (lit ''revived 4/4'') flog then [] else [''not all revived'']) @ mixups all_replies @
          (if contains (lit ''all-done'') req_log then [] else [''requester did not finish''])))))) [] 2"
    by (intro does_bind [OF does_fork_log] does_bind [OF cat] does_seq [OF does_bye])
       (simp_all add: contains_def lit_def does_ret)
  then show ?thesis using r g
    by (auto simp: multi_wake_def wake_reach_def park_paths does_def seq_ret bind_ret)
qed

lemma node_at_put: "p \<noteq> lit ''/'' \<Longrightarrow> node_at (fs_put q n f) p = (if p = q then Some n else node_at f p)"
  by (simp add: node_at_def map_of_fs_put)

lemma write_run:
  assumes "full park_env p = p" and "p \<noteq> lit ''/''" and "denied w = (\<lambda>_ _. False)"
    and "node_at (fs w) (dirname p) = Some (Dir k)" and "node_at (fs w) p = None \<or> (\<exists>c t. node_at (fs w) p = Some (File c t))"
  shows "write_file park_env p b w = Some (Inr (), w\<lparr>fs := fs_put p (File b (clock w)) (fs w)\<rparr>)"
  using assms by (auto simp: write_file_def resolve_link_free link_free_def writable_def parent_ok_def)

lemma boot_run:
  assumes "full park_env (join d l) = join d l" and "join d l \<noteq> lit ''/''" and "denied w = (\<lambda>_ _. False)"
    and "node_at (fs w) (dirname (join d l)) = Some (Dir k)"
    and "node_at (fs w) (join d l) = None \<or> (\<exists>c t. node_at (fs w) (join d l) = Some (File c t))"
  shows "boot park_env d l (w, ps) = Some (Inr (length (procs w)),
    (w\<lparr>fs := fs_put (join d l) (File [] (clock w)) (fs w), procs := procs w @ [running d]\<rparr>, ps @ [length (procs w)]))"
  using write_run [OF assms, of "[]"]
  by (simp add: boot_def on_world_def launch_def bind_def seq_def popen_def park_env_def running_def modify_def ret_def)

text \<open>The directories are made, and the base starts.\<close>

definition base_fs :: "bytes \<Rightarrow> fs" where
  "base_fs conf = [(lit ''/n/zig-out/bin/nether'', File [] 0), (lit ''/w'', Dir 0), (lit ''/w/b'', Dir 0), (lit ''/w/f'', Dir 0),
     (lit ''/w/b/kernels'', Symlink (lit ''/n/kernels'')), (lit ''/w/b/nether.conf'', File conf 0), (lit ''/w/e.sock'', SockFile 0)]"

lemma park_ancestors: "ancestors (lit ''/w/b'') = [lit ''/'', lit ''/w'', lit ''/w/b'']"
  "ancestors (lit ''/w/f'') = [lit ''/'', lit ''/w'', lit ''/w/f'']"
  by (simp_all add: ancestors.simps path_eval)

lemma park_full:
  "full park_env (lit ''/w'') = lit ''/w''" "full park_env (lit ''/w/b'') = lit ''/w/b''" "full park_env (lit ''/w/f'') = lit ''/w/f''"
  "full park_env (lit ''/w/b/kernels'') = lit ''/w/b/kernels''" "full park_env (lit ''/w/b/nether.conf'') = lit ''/w/b/nether.conf''"
  "full park_env (lit ''/w/e.sock'') = lit ''/w/e.sock''" "full park_env (lit ''/w/b/boot.log'') = lit ''/w/b/boot.log''"
  "full park_env (lit ''/w/f/nether.conf'') = lit ''/w/f/nether.conf''" "full park_env (lit ''/w/f/fork.log'') = lit ''/w/f/fork.log''"
  by (simp_all add: park_eval)

lemma park_conf_bytes: "\<exists>b. encode (park_conf (lit ''/w/e.sock'')) = Inr b" "\<exists>b. encode (wake_conf (lit ''/w/b/multi.snap'') (lit ''f.sock'') (lit ''/w/e.sock'')) = Inr b"
  by (rule exI, rule encode_ascii, simp add: park_conf_def wake_conf_def lit_def)+

lemma lit_inject: "lit a = lit b \<longleftrightarrow> a = b"
  by (auto simp: lit_def inj_map_eq_map inj_def)

lemma node_at_Nil: "node_at [] q = (if q = lit ''/'' then Some (Dir 0) else None)"
  by (simp add: node_at_def)

lemma node_at_Cons: "node_at ((p, n) # f) q = (if q = lit ''/'' then Some (Dir 0) else if q = p then Some n else node_at f q)"
  by (simp add: node_at_def)

lemma park_dirs:
  "dirname (lit ''/w'') = lit ''/''" "dirname (lit ''/w/b'') = lit ''/w''" "dirname (lit ''/w/f'') = lit ''/w''"
  "dirname (lit ''/w/b/kernels'') = lit ''/w/b''" "dirname (lit ''/w/b/nether.conf'') = lit ''/w/b''"
  "dirname (lit ''/w/e.sock'') = lit ''/w''" "dirname (lit ''/w/b/boot.log'') = lit ''/w/b''"
  "dirname (lit ''/w/f/nether.conf'') = lit ''/w/f''" "dirname (lit ''/w/f/fork.log'') = lit ''/w/f''"
  by (simp_all add: path_eval)

lemmas park_nodes = lit_inject node_at_Nil node_at_Cons park_dirs park_full parent_ok_def park_world_def

lemma setup_run: "\<exists>conf. park_setup park_env (lit ''/w'') park_world = Some (Inr (), park_world\<lparr>fs := base_fs conf\<rparr>)"
proof -
  obtain conf where conf: "encode (park_conf (lit ''/w/e.sock'')) = Inr conf" using park_conf_bytes(1) by blast
  let ?B = "(lit ''/n/zig-out/bin/nether'', File [] 0)" and ?w = "(lit ''/w'', Dir 0)" and ?b = "(lit ''/w/b'', Dir 0)"
    and ?f = "(lit ''/w/f'', Dir 0)" and ?k = "(lit ''/w/b/kernels'', Symlink (lit ''/n/kernels''))"
    and ?c = "(lit ''/w/b/nether.conf'', File conf 0)"
  have 1: "rmtree park_env (lit ''/w'') park_world = Some (Inr (), park_world)"
    by (simp add: rmtree_def modify_def Let_def park_nodes)
  have 2: "makedirs park_env (lit ''/w/b'') False park_world = Some (Inr (), park_world\<lparr>fs := [?B, ?w, ?b]\<rparr>)"
    by (simp add: makedirs_def park_ancestors mkdir_def io_simps bind_get when_io_def park_nodes)
  have 3: "makedirs park_env (lit ''/w/f'') False (park_world\<lparr>fs := [?B, ?w, ?b]\<rparr>) = Some (Inr (), park_world\<lparr>fs := [?B, ?w, ?b, ?f]\<rparr>)"
    by (simp add: makedirs_def park_ancestors mkdir_def io_simps bind_get when_io_def park_nodes)
  have NB: "NB park_env @ lit ''/kernels'' = lit ''/n/kernels''" by (simp add: park_env_def sample_env_def lit_append)
  have 4: "symlink park_env (lit ''/n/kernels'') (lit ''/w/b/kernels'') (park_world\<lparr>fs := [?B, ?w, ?b, ?f]\<rparr>) =
      Some (Inr (), park_world\<lparr>fs := [?B, ?w, ?b, ?f, ?k]\<rparr>)"
    by (simp add: symlink_def park_nodes) (simp add: lit_def)
  have 5: "write_text park_env (lit ''/w/b/nether.conf'') (park_conf (lit ''/w/e.sock'')) (park_world\<lparr>fs := [?B, ?w, ?b, ?f, ?k]\<rparr>) =
      Some (Inr (), park_world\<lparr>fs := [?B, ?w, ?b, ?f, ?k, ?c]\<rparr>)"
    unfolding write_text_def conf sum.case by (subst write_run [of _ _ 0]) (simp_all add: park_nodes)
  have e: "encode (lit ''/w/e.sock'') = Inr (blit ''/w/e.sock'')" "length (blit ''/w/e.sock'') < SUN_PATH_MAX"
    by (rule encode_lit) (simp_all add: SUN_PATH_MAX_def blit_def lit_def)
  have 6: "listen_at park_env (lit ''/w/e.sock'') (park_world\<lparr>fs := [?B, ?w, ?b, ?f, ?k, ?c]\<rparr>) = Some (Inr (), park_world\<lparr>fs := base_fs conf\<rparr>)"
    using e by (simp add: listen_at_def bind_path_def path_exists_def stat_link_free link_free_def io_simps bind_get when_io_def
        base_fs_def park_nodes)
  show ?thesis unfolding park_setup_def Let_def park_paths NB
    by (rule exI [of _ conf], subst seq_ret, rule 1, subst seq_ret, rule 2, subst seq_ret, rule 3, subst seq_ret, rule 4,
        subst seq_ret, rule 5, rule 6)
qed

text \<open>The whole run of \<open>main\<close>: no failure, whatever broker is seen that has the four tags parked.\<close>

definition reaps_all :: reaper where
  "reaps_all = (\<lambda>_ _. (0, Some 0))"

lemma base_run:
  "\<exists>w' ps. bind (boot park_env (lit ''/w/b'') (lit ''boot.log'')) (\<lambda>bp. bind (on_world (park_reach park_env (lit ''/w/b/c.sock''))) (\<lambda>x. ret (bp, x)))
     (park_world\<lparr>fs := base_fs conf\<rparr>, []) = Some (Inr (0, 0, 0), (w', ps)) \<and> at_rest 1 w'"
proof -
  let ?w = "park_world\<lparr>fs := base_fs conf\<rparr>"
  obtain w1 where b: "boot park_env (lit ''/w/b'') (lit ''boot.log'') (?w, []) = Some (Inr 0, (w1, [0]))" "awake 0 w1" "clock w1 = 0"
  proof -
    have "boot park_env (lit ''/w/b'') (lit ''boot.log'') (?w, []) = Some (Inr (length (procs ?w)), (?w\<lparr>fs := fs_put (join (lit ''/w/b'') (lit ''boot.log''))
        (File [] (clock ?w)) (fs ?w), procs := procs ?w @ [running (lit ''/w/b'')]\<rparr>, [] @ [length (procs ?w)]))"
      by (rule boot_run [of _ _ _ 0], unfold park_paths)
         (simp_all add: park_nodes base_fs_def)
    then show thesis using that by (simp add: park_world_def awake_def)
  qed
  have "node_at park_fs (full park_env (lit ''/w/b/c.sock'')) = Some (SockFile 0)" by (simp add: park_eval)
  from reach_sock [OF b(2,3), of 300 "seconds 40" _ _ "seconds 30", OF _ this] obtain w2 w3 where
    r: "wait_path park_env (lit ''/w/b/c.sock'') 0 (seconds 40) 300 w1 = Some (Inr (), w2)"
    "uconn park_env (lit ''/w/b/c.sock'') (seconds 30) w2 = Some (Inr 0, w3)" "at_rest 1 w3"
    by auto
  have "does 1 (guest_cmd park_env 0 (lit ''echo ready'') (seconds 5)) (lit ''ready'') 1"
    by (rule does_lit_cmd) (simp_all add: replies)
  moreover have "does 1 (ret (contains (lit ''ready'') (lit ''ready''))) True 1" by (simp add: lit_def does_ret)
  ultimately have "does 1 (seq (retry park_env 120 (bind (guest_cmd park_env 0 (lit ''echo ready'') (seconds 5))
      (\<lambda>r. ret (contains (lit ''ready'') r)))) (ret (0, 0))) (0 :: nat, 0 :: nat) 1"
    by (intro does_seq [OF does_retry does_ret] does_bind) simp_all
  then obtain w4 where "park_reach park_env (lit ''/w/b/c.sock'') w1 = Some (Inr (0, 0), w4)" "at_rest 1 w4"
    using r b(3) by (auto simp: park_reach_def time_time_def bind_get does_def seq_ret bind_ret)
  then show ?thesis using b(1) by (auto simp: bind_ret on_world_def ret_run)
qed

lemma fork_run:
  assumes "at_rest 1 w"
  shows "\<exists>w' ps'. seq (on_world (write_text park_env (lit ''/w/f/nether.conf'') (wake_conf (lit ''/w/b/multi.snap'') (lit ''f.sock'') (lit ''/w/e.sock'')))) (
      bind (on_world time_time) (\<lambda>t_r. bind (boot park_env (lit ''/w/f'') (lit ''fork.log'')) (\<lambda>fp.
      bind (on_world (multi_wake park_env (lit ''/w/f'') t_r)) (\<lambda>f3. ret (h f3))))) (w, ps) = Some (Inr (h []), (w', ps'))"
proof -
  obtain conf where conf: "encode (wake_conf (lit ''/w/b/multi.snap'') (lit ''f.sock'') (lit ''/w/e.sock'')) = Inr conf"
    using park_conf_bytes(2) by blast
  let ?w1 = "w\<lparr>fs := fs_put (lit ''/w/f/nether.conf'') (File conf (clock w)) (fs w)\<rparr>"
  have w: "fs w = park_fs" "denied w = (\<lambda>_ _. False)" using assms by (simp_all add: at_rest_def awake_def)
  have 1: "write_text park_env (lit ''/w/f/nether.conf'') (wake_conf (lit ''/w/b/multi.snap'') (lit ''f.sock'') (lit ''/w/e.sock'')) w = Some (Inr (), ?w1)"
    unfolding write_text_def conf sum.case
    by (rule write_run [of _ _ 0]) (simp_all add: w park_fs_def park_nodes)
  let ?w2 = "?w1\<lparr>fs := fs_put (join (lit ''/w/f'') (lit ''fork.log'')) (File [] (clock ?w1)) (fs ?w1), procs := procs ?w1 @ [running (lit ''/w/f'')]\<rparr>"
  have 2: "boot park_env (lit ''/w/f'') (lit ''fork.log'') (?w1, ps) = Some (Inr (length (procs ?w1)), (?w2, ps @ [length (procs ?w1)]))"
    by (rule boot_run [of _ _ _ 0], unfold park_paths) (simp_all add: w park_fs_def park_nodes)
  have "awake 1 ?w2" "clock ?w2 = clock w" using assms by (simp_all add: at_rest_def awake_def)
  from wake_run [OF this] obtain w3 where 3: "multi_wake park_env (lit ''/w/f'') (clock w) ?w2 = Some (Inr [], w3)" by blast
  show ?thesis using 1 2 3 by (simp add: seq_def bind_def on_world_def time_time_def get_def ret_def)
qed

lemma body_run:
  assumes "length (parked b) = length TAGS" and "card (set (map snd (parked b))) = length TAGS"
  shows "\<exists>w' ps. multi_body park_env reaps_all (\<lambda>_. b) (lit ''/w'') (park_world\<lparr>fs := base_fs conf\<rparr>, []) = Some (Inr [], (w', ps))"
proof -
  obtain w1 ps where 1: "bind (boot park_env (lit ''/w/b'') (lit ''boot.log'')) (\<lambda>bp. bind (on_world (park_reach park_env (lit ''/w/b/c.sock'')))
      (\<lambda>x. ret (bp, x))) (park_world\<lparr>fs := base_fs conf\<rparr>, []) = Some (Inr (0, 0, 0), (w1, ps))" "at_rest 1 w1"
    using base_run by blast
  then obtain w0 ps0 where b: "boot park_env (lit ''/w/b'') (lit ''boot.log'') (park_world\<lparr>fs := base_fs conf\<rparr>, []) = Some (Inr 0, (w0, ps0))"
    "on_world (park_reach park_env (lit ''/w/b/c.sock'')) (w0, ps0) = Some (Inr (0, 0), (w1, ps))"
    by (auto simp: bind_Some_iff ret_def)
  obtain w2 where 2: "multi_drive park_env (\<lambda>_. b) 0 w1 = Some (Inr (Some []), w2)" "at_rest 1 w2"
    using does_drive [of 0 1 b] assms 1(2) by (auto simp: does_def)
  obtain w3 where 3: "park_vm park_env 0 ''multi.snap'' w2 = Some (Inr (lit ''OK parked''), w3)" "at_rest 1 w3"
    using does_park_vm [of 0 1] 2(2) by (auto simp: does_def)
  obtain w4 where 4: "self_exit park_env reaps_all 0 w3 = Some (Inr [], w4)" "at_rest 1 w4"
    using does_self_exit [of 1 0] 3(2) by (auto simp: does_def reaps_all_def)
  have 5: "not_parked (lit ''OK parked'') = []" by (simp add: not_parked_def lit_def)
  obtain w5 ps5 where 6: "seq (on_world (write_text park_env (lit ''/w/f/nether.conf'') (wake_conf (lit ''/w/b/multi.snap'') (lit ''f.sock'') (lit ''/w/e.sock'')))) (
      bind (on_world time_time) (\<lambda>t_r. bind (boot park_env (lit ''/w/f'') (lit ''fork.log'')) (\<lambda>fp.
      bind (on_world (multi_wake park_env (lit ''/w/f'') t_r)) (\<lambda>f3. ret ([] @ [] @ [] @ f3))))) (w4, ps) = Some (Inr ([] @ [] @ [] @ []), (w5, ps5))"
    using fork_run [OF 4(2), of "\<lambda>f3. [] @ [] @ [] @ f3" ps] by blast
  have "multi_body park_env reaps_all (\<lambda>_. b) (lit ''/w'') (park_world\<lparr>fs := base_fs conf\<rparr>, []) = Some (Inr ([] @ [] @ [] @ []), (w5, ps5))"
    unfolding multi_body_def Let_def park_paths
    by (subst bind_ret, rule b(1), subst bind_ret, rule b(2), unfold prod.case, subst bind_ret, simp add: on_world_def 2(1),
        unfold option.case, subst bind_ret, simp add: on_world_def 3(1), subst bind_ret, simp add: on_world_def 4(1),
        unfold 5, rule 6)
  then show ?thesis by auto
qed

lemma multi_run:
  assumes "length (parked b) = length TAGS" and "card (set (map snd (parked b))) = length TAGS" and "errors b = []"
  shows "\<exists>w'. multi_main park_env reaps_all (\<lambda>_. b) park_world = Some (Inr 0, w')"
proof -
  have bin: "path_exists park_env (BIN park_env) park_world = Some (Inr True, park_world)"
  proof -
    have "full park_env (BIN park_env) = lit ''/n/zig-out/bin/nether''" by (simp add: BIN_def park_eval)
    then show ?thesis by (simp add: path_exists_def get_def stat_link_free link_free_def park_world_def node_at_Cons lit_inject)
  qed
  obtain conf where s: "park_setup park_env (lit ''/w'') park_world = Some (Inr (), park_world\<lparr>fs := base_fs conf\<rparr>)"
    using setup_run by blast
  obtain w1 ps where b: "multi_body park_env reaps_all (\<lambda>_. b) (lit ''/w'') (park_world\<lparr>fs := base_fs conf\<rparr>, []) = Some (Inr [], (w1, ps))"
    using body_run [OF assms(1,2)] by blast
  obtain w2 where 2: "with_procs park_env 400000 (multi_body park_env reaps_all (\<lambda>_. b) (lit ''/w'')) (park_world\<lparr>fs := base_fs conf\<rparr>) = Some (Inr [], w2)"
  proof -
    obtain w2 where "stop_all park_env 400000 (w1, ps) = Some (Inr (), (w2, ps))"
      using keepsD [OF noted_multi_body noted_start b] stop_all_noted by blast
    then show thesis using that b by (auto simp: with_procs_def try_finally_def)
  qed
  have WORK: "or_default (environ park_env (lit ''NETHER_WORK'')) (lit ''/tmp/npkm'') = lit ''/w''"
    by (simp add: park_env_def or_default_def)
  have "multi_main park_env reaps_all (\<lambda>_. b) park_world =
      bind (look park_env (\<lambda>_. b)) (\<lambda>b. ret (if ([] :: string list) = [] \<and> errors b = [] then 0 else 1)) w2"
    unfolding multi_main_def Let_def WORK
    by (subst bind_ret, rule bin, subst if_not_P, simp, subst seq_ret, rule s, subst bind_ret, rule 2, rule refl)
  then show ?thesis by (simp add: look_def sleep_def modify_def get_def ret_def bind_def seq_def assms(3))
qed

section \<open>The broker\<close>

text \<open>A fresh connection \<open>c\<close> that parks a request.\<close>

definition park_one :: "nat \<Rightarrow> bytes \<Rightarrow> int \<Rightarrow> bytes \<Rightarrow> pystr \<Rightarrow> multi_broker \<Rightarrow> multi_broker" where
  "park_one c line cid req g b = multi_park c cid g (multi_request c cid req (multi_preamble c line (set_thread c Greet b)))"

text \<open>A reachable broker with these requests parked by its first \<open>n\<close> connections.\<close>

definition holds :: "multi_broker \<Rightarrow> (int \<times> pystr) list \<Rightarrow> nat \<Rightarrow> bool" where
  "holds b l n \<longleftrightarrow> multi_step\<^sup>*\<^sup>* multi_init b \<and> parked b = l \<and> errors b = [] \<and> (\<forall>c \<ge> n. threads b c = None)"

lemma update_new: "k \<notin> fst ` set l \<Longrightarrow> AList.update k v l = l @ [(k, v)]"
  by (induction l) auto

lemma holds_more:
  assumes "holds b l n" and "parse_preamble line = Inr (pre, cid, False)" and "tag_of req = Some g" and "cid \<notin> fst ` set l"
  shows "holds (park_one n line cid req g b) (l @ [(cid, g)]) (Suc n)"
proof -
  note step = rtranclp.rtrancl_into_rtrancl [where r = multi_step]
  note eval = set_thread_def multi_preamble_def multi_request_def multi_park_def assms(2,3) Let_def
  have b: "multi_step\<^sup>*\<^sup>* multi_init b" "threads b n = None" using assms(1) by (simp_all add: holds_def)
  have 1: "multi_step\<^sup>*\<^sup>* multi_init (set_thread n Greet b)" by (rule step [OF b(1) multi_step.accept]) (rule b(2))
  have 2: "multi_step\<^sup>*\<^sup>* multi_init (multi_preamble n line (set_thread n Greet b))"
    by (rule step [OF 1 multi_step.preamble]) (simp add: set_thread_def)
  have 3: "multi_step\<^sup>*\<^sup>* multi_init (multi_request n cid req (multi_preamble n line (set_thread n Greet b)))"
    by (rule step [OF 2 multi_step.request]) (simp add: eval)
  have "multi_step\<^sup>*\<^sup>* multi_init (park_one n line cid req g b)"
    unfolding park_one_def by (rule step [OF 3 multi_step.park]) (simp add: eval)
  then show ?thesis using assms(1,4) by (simp add: holds_def park_one_def eval update_new)
qed

lemma four_preambles:
  "parse_preamble (blit ''NETHER-EGRESS v1 conn=1 resume=0'') = Inr (lit ''NETHER-EGRESS v1 conn=1 resume=0'', 1, False)"
  "parse_preamble (blit ''NETHER-EGRESS v1 conn=2 resume=0'') = Inr (lit ''NETHER-EGRESS v1 conn=2 resume=0'', 2, False)"
  "parse_preamble (blit ''NETHER-EGRESS v1 conn=3 resume=0'') = Inr (lit ''NETHER-EGRESS v1 conn=3 resume=0'', 3, False)"
  "parse_preamble (blit ''NETHER-EGRESS v1 conn=4 resume=0'') = Inr (lit ''NETHER-EGRESS v1 conn=4 resume=0'', 4, False)"
  by (simp_all add: parse_preamble_def decode_blit Let_def kv_of_def words_def strip_by_def is_space_def lit_def py_int_def
      digit_val_def digit_zeros_def)

lemma four_tags:
  "tag_of (blit ''GET /alpha'') = Some (lit ''alpha'')" "tag_of (blit ''GET /bravo'') = Some (lit ''bravo'')"
  "tag_of (blit ''GET /charlie'') = Some (lit ''charlie'')" "tag_of (blit ''GET /delta'') = Some (lit ''delta'')"
  by (simp_all add: tag_of_def decode_blit TAGS_def lit_def)

definition four_parked :: multi_broker where
  "four_parked =
     park_one 3 (blit ''NETHER-EGRESS v1 conn=4 resume=0'') 4 (blit ''GET /delta'') (lit ''delta'')
     (park_one 2 (blit ''NETHER-EGRESS v1 conn=3 resume=0'') 3 (blit ''GET /charlie'') (lit ''charlie'')
     (park_one 1 (blit ''NETHER-EGRESS v1 conn=2 resume=0'') 2 (blit ''GET /bravo'') (lit ''bravo'')
     (park_one 0 (blit ''NETHER-EGRESS v1 conn=1 resume=0'') 1 (blit ''GET /alpha'') (lit ''alpha'') multi_init)))"

lemma four_parked: "holds four_parked [(1, lit ''alpha''), (2, lit ''bravo''), (3, lit ''charlie''), (4, lit ''delta'')] 4"
proof -
  have 0: "holds multi_init [] 0" by (simp add: holds_def multi_init_def)
  note 1 = holds_more [OF 0 four_preambles(1) four_tags(1), simplified]
  note 2 = holds_more [OF 1 four_preambles(2) four_tags(2), simplified]
  note 3 = holds_more [OF 2 four_preambles(3) four_tags(3), simplified]
  note 4 = holds_more [OF 3 four_preambles(4) four_tags(4), simplified]
  from 4 show ?thesis unfolding four_parked_def by (simp add: eval_nat_numeral)
qed

theorem multi_pass_asked_witness:
  "\<exists>w'. multi_main park_env reaps_all (\<lambda>_. four_parked) park_world = Some (Inr 0, w') \<and>
     (\<exists>cid. inj_on cid (set TAGS) \<and>
        (\<forall>g \<in> set TAGS. \<exists>c req. Asked c (cid g) req \<in> set (events four_parked) \<and> tag_of req = Some g))"
proof -
  have "length (parked four_parked) = length TAGS" "card (set (map snd (parked four_parked))) = length TAGS"
    "errors four_parked = []" "multi_step\<^sup>*\<^sup>* multi_init four_parked"
    using four_parked by (simp_all add: holds_def TAGS_def lit_inject)
  moreover from multi_run [OF this(1-3)] obtain w' where
    "multi_main park_env reaps_all (\<lambda>_. four_parked) park_world = Some (Inr 0, w')" by blast
  ultimately show ?thesis using multi_pass_asked [of "\<lambda>_. four_parked" park_env reaps_all park_world w'] by blast
qed

end
