(* ===== verification/Spec2Isabelle.thy ===== *)
theory Spec2Isabelle
  imports Cli Gateway Fleet Clocks Live_Samples Park_Samples Samples
begin

text \<open>
  \<^bold>\<open>The host tools of nether.\<close>

  nether is a virtual machine monitor (Zig, \<open>src/src/\<close>) with a guest agent (\<open>src/tools/agent.c\<close>) and a
  set of Python host tools (\<open>src/scripts/\<close>).  The tools are what this development verifies: the baking of
  warm base snapshots with their manifests and garbage collection (\<open>bake.py\<close>), the readers of the control
  protocol that every tool repeats, the brokers that park and resume egress connections, the fuzzer of the
  snapshot parser, the serving proofs, and the folding of a diff snapshot into its base.  The tools
  interact with a VM in three ways only: they start the binary in a directory with a \<open>nether.conf\<close>, they
  speak the control protocol over Unix sockets, and they read and remove the snapshot files it leaves.

  \<^bold>\<open>Layers.\<close>
  \<^item> \<open>Py_IO\<close>, \<open>Py_Text\<close>, \<open>Py_Value\<close>, \<open>Paths\<close>, \<open>Json\<close>: the parts of Python the scripts use.  A statement is
    a function from the state to \<open>None\<close> (it never returns) or to an outcome (exception or value) and a new
    state; \<open>while\<close> loops are \<open>iterate\<close> (\<open>partial_function (option)\<close>), so a loop that spins is the value
    \<open>None\<close> and returning is something a theorem has to prove.  \<open>settles I R\<close> says that the states before and
    after a program are related by \<open>R\<close> whenever it returns, and that it returns from every state with \<open>I\<close>;
    its rules are the locale \<open>steady\<close>.
  \<^item> \<open>Wire\<close>: sockets and all readers and writers of the control protocol.  A peer answers what is sent to it
    (\<open>peer\<close>), may close, and may go on sending for as long as it likes, or reset the connection (\<open>drip\<close>);
    a send it does not answer may fail (\<open>broken\<close>).  Every timeout is that of one socket call.  A peer that at
    some point stops sending is \<open>terse\<close>; a host all of whose peers are is \<open>patient\<close>.  The locale \<open>stream_source\<close> states
    what a reader may rely on (chunks come in order, none is lost); \<open>framed_reader\<close> what a reader of v2
    replies promises, and what a session built on it gives; the readers of the park proofs and of
    \<open>proto_v2.py\<close> are instances.
  \<^item> \<open>Host\<close>: the machine: \<open>world\<close> (files, rights, clock, sockets, processes) and \<open>env\<close> (what the scripts do
    not decide).
  \<^item> \<open>Snapshot\<close>: \<open>read_snap_kind\<close> and \<open>read_snap_encoding\<close> of \<open>bake.py\<close>, the files that
    \<open>materialize_dedup_proof.py\<close> builds, and \<open>spliceAndOverlay\<close> and \<open>materializeDiff\<close> of \<open>snapshot.zig\<close>.
  \<^item> \<open>Manifest\<close>: the keys, the manifests and the three collectors (\<open>gc_superseded\<close>, \<open>do_gc\<close>, \<open>reap_parks\<close>).
    The locale \<open>sweep\<close> is the contract of a loop over the snapshots of a directory that removes the ones
    a condition selects; each collector is an instance with its own condition.
  \<^item> \<open>Recipe\<close>: \<open>load_recipe\<close>, \<open>validate_recipe\<close>, \<open>render_conf\<close>.
  \<^item> \<open>Bake\<close>: \<open>wait_sock\<close>, \<open>launch\<close>, \<open>do_bake\<close>, \<open>wait_ready\<close>, \<open>do_fork\<close>, \<open>compress_base\<close>, \<open>ensure_forkable\<close>.
  \<^item> \<open>Cli\<close>: \<open>main\<close> and \<open>selftest\<close> of \<open>bake.py\<close>.
  \<^item> \<open>Broker\<close>: the brokers of \<open>park_multi_proof.py\<close>, \<open>park_await_proof.py\<close> and \<open>park_density_proof.py\<close> as
    step relations, one step per lock or socket call of one thread, in any interleaving (in the last of
    the three, receiving a request and noting what it was are one step).  The locale \<open>desk\<close>
    is the contract (who asked what, who is answered with what) that the first two are instances of.
  \<^item> \<open>Harness\<close>: what the live proofs share (the list of started VMs, the \<open>finally\<close> block that stops them,
    the HTTP probe).  The locale \<open>tally\<close> is the contract of a program that leaves the processes in a given
    relation to those before; \<open>Noting\<close> extends it to scripts whose VMs may also be killed or waited for.
  \<^item> The live proofs: \<open>Fuzz\<close> (\<open>fuzz_restore.py\<close>), \<open>Serve\<close> (\<open>fork_serve.py\<close>, \<open>pool_serve.py\<close>), \<open>Burst\<close> and \<open>Gateway\<close>
    (\<open>swerver_guest_burst.py\<close>: the threads and their barrier as a step relation; the locale \<open>burst_worker\<close>,
    a \<open>running_down\<close> system, has both workers as instances, and \<open>gateway_hit\<close> is a \<open>uniform_worker\<close>),
    \<open>Data_Plane\<close> (\<open>data_plane_pacing.py\<close>, \<open>data_plane_fairness.py\<close>), \<open>Live\<close> (\<open>proto_v2.py\<close>,
    \<open>relay_proof.py\<close>), \<open>Forks\<close> (\<open>fork_entropy_proof.py\<close>, \<open>vmgenid_proof.py\<close>, \<open>snapshot_quiesce_proof.py\<close>),
    \<open>Parks\<close> (\<open>main\<close> of \<open>park_multi_proof.py\<close> and \<open>park_await_proof.py\<close>), \<open>Fleet\<close> (\<open>main\<close> of
    \<open>park_density_proof.py\<close>), \<open>Clocks\<close> (\<open>park_timer_proof.py\<close>, \<open>wallclock_proof.py\<close>), \<open>Dedup\<close>
    (\<open>materialize_dedup_proof.py\<close> from end to end).
  \<^item> \<open>Samples\<close>, \<open>Serve_Samples\<close>, \<open>Live_Samples\<close>, \<open>Park_Samples\<close>: concrete hosts on which the properties with
    hypotheses are evaluated; \<open>Park_Samples\<close> runs \<open>park_multi_proof.py\<close> to its success.

  \<^bold>\<open>What is shown.\<close>
  \<^item> Bakes: whenever a bake comes back it has stopped the VM it started, whatever the VM answers and whatever
    other processes do, and on a patient host every command comes back; a VM that sends for ever hangs the
    bake; a second bake is a cache hit; the manifest written is the manifest read, and what reading a
    damaged one gives; no fork runs from a stale hydrated copy; recipes are accepted exactly when they
    meet the documented conditions.
  \<^item> Collectors: each removes exactly the snapshots its condition selects, with their manifests, and
    nothing else; a dry run reports the same; with links and missing rights no other path is touched.
  \<^item> Protocol: the wire format is prefix-free; the v2 readers return body and exit code for every chunking;
    sessions answer in order; what each reader does at end of file, on silence and with stale bytes.
  \<^item> Brokers: no reply reaches a connection that did not ask for it, in every interleaving.
    A success of \<open>park_multi_proof.py\<close> means that its broker was asked for all four tags.
  \<^item> Snapshots: folding a diff into its base gives the image the script expects, and
    \<open>materialize_dedup_proof.py\<close> then reports what the free space says; the fuzzer's mutants and its verdict.
  \<^item> Processes: which scripts stop every VM they started, and where one is left running; when a burst ends
    and when it hangs (at its barrier, which it never does through a gateway, or in a read that never ends).
    That a VM is stopped means that \<open>terminate()\<close> and \<open>kill()\<close> have been called on it; on a child that is
    known to have exited these calls send nothing.

  \<^bold>\<open>Parameters.\<close>  Code that is not part of the repository, and the behaviour of other processes, are fields
  of \<open>env\<close> or arguments: \<open>sha256\<close>, \<open>toml_loads\<close>, \<open>float_of\<close> and \<open>py_repr\<close> (float literals), \<open>too_deep\<close> (which
  texts nested more than 50 deep exceed the interpreter's recursion limit), \<open>utc_text\<close>, \<open>tmp_name\<close>,
  \<open>spawns\<close>, \<open>dial\<close> (what a \<open>connect\<close> gives), \<open>run_bin\<close> (one run of the binary), \<open>others\<close> (what other
  processes do to the files while a script blocks), \<open>oversleep\<close>; in \<open>Fuzz\<close> the random numbers, the binary under its
  resource limits, what the platform says to a limit and \<open>Popen.wait\<close>; in \<open>Serve\<close> the scheduler; in
  \<open>Data_Plane\<close> when the downloading thread ends (\<open>alive\<close>) and the time it notes (\<open>took\<close>); in \<open>Gateway\<close> what the
  host's server answers, if it ever ends its answer, and the checks of a URL that rest on the Unicode tables and on \<open>ipaddress\<close>; in \<open>Live\<close> the compiler and the reference client; in \<open>Forks\<close> and after it
  \<open>Popen.wait\<close> (\<open>reaper\<close>); in \<open>Parks\<close> and \<open>Fleet\<close> what \<open>main\<close> sees of its broker at a moment (\<open>watch\<close>) and
  \<open>pgrep\<close>; in \<open>Dedup\<close> the free space of the volume.  The theorems hold for all of them, or name the
  hypothesis they need.

  \<^bold>\<open>Bounds.\<close>  Words are 8-bit in byte strings; header fields are little-endian numbers of their width.  The
  fuel of the JSON reader is the length of the text (each call consumes a character) and \<open>Json\<close> shows it is
  enough for every text the tool writes.  A JSON text nested at most 50 deep never meets the recursion limit
  (the tool writes none deeper than two; the default limit is 1000).  Links are followed 40 times, as the kernel does.  Times are
  microseconds.

  \<^bold>\<open>Not modelled.\<close>  Console output; the VMM and the guest, which the tools see through sockets, exit statuses
  and files; the bytes \<open>http.client\<close> exchanges with the gateway; the closing of sockets by the interpreter's
  memory management (explicit \<open>close\<close> calls and \<open>with\<close> blocks are modelled); the empty path name, which
  is taken for the working directory except by \<open>rmtree\<close>, which leaves it alone; symbolic links inside a path and the times of directories; the rounding of
  floats (they are exact rationals); interference inside one read of a dictionary that threads share.
\<close>

section \<open>Bakes and collectors together\<close>

text \<open>
  C9: a base that has just been baked survives \<open>gc\<close>, also with \<open>--orphans\<close>, as long as the binary is the
  one that baked it: neither the snapshot nor its manifest is removed.
\<close>

theorem gc_keeps_fresh_bake:
  assumes "do_bake E p force work w = Some (Inr 0, w1)"
    and "bake_plan E p w = Some (Inr (r, snap, base_key (sha256 E bin) k i h, kern), w)"
    and "stat E snap w1 \<noteq> None" and "isabs (cwd E)" and "is_snap_name (basename snap)"
    and "link_free (fs w1) (full E (manifest_path snap))" and "\<not> denied w1 Rd (full E (manifest_path snap))"
    and "\<forall>t. json_safe (manifest_value snap (base_key (sha256 E bin) k i h) (full E p) (utc_text E t))"
    and "\<forall>t. json_typed (float_of E t)"
    and "contents E (BIN E) w1 = Some bin" and "tidy E d w1" and "snap \<in> set (snaps_of E d w1)"
    and "\<forall>s \<in> set (snaps_of E d w1). keyed_manifest (manifest_in E (contents E (manifest_path s) w1))"
  shows "\<exists>w2. do_gc E d orphans w1 = Some (Inr 0, w2) \<and>
    map_of (fs w2) (full E snap) = map_of (fs w1) (full E snap) \<and>
    map_of (fs w2) (full E (manifest_path snap)) = map_of (fs w1) (full E (manifest_path snap))"
proof -
  let ?v = "filter (\<lambda>s. garbage E (sha256 E bin) orphans s w1) (snaps_of E d w1)"
  have "do_gc E d orphans w1 = Some (Inr 0, w1\<lparr>fs := without E w1 ?v\<rparr>)"
    by (rule do_gc_run [OF assms(11) nether_build_id_run(2) [OF assms(10)] assms(13)])
  moreover have "\<not> garbage E (sha256 E bin) orphans snap w1"
    by (rule current_not_garbage [OF bake_leaves_current [OF assms(1-8)]]) (use assms(9) in blast)
  then have "map_of (without E w1 ?v) q = map_of (fs w1) q" if "q \<in> set (files_of E snap)" for q
    using that assms(11,12) by (intro without_spares [of E "snaps_of E d w1"]) (auto simp: tidy_def intro: snaps_apart)
  then have "map_of (without E w1 ?v) (full E snap) = map_of (fs w1) (full E snap)"
    "map_of (without E w1 ?v) (full E (manifest_path snap)) = map_of (fs w1) (full E (manifest_path snap))"
    by simp_all
  ultimately show ?thesis by simp
qed

theorem gc_keeps_fresh_bake_witness:
  "\<exists>w2. do_gc hit_env (lit ''/r'') True hit_world = Some (Inr 0, w2) \<and>
    map_of (fs w2) (lit ''/r/b.snap'') = Some (File [] 0)"
proof -
  have snaps: "snaps_of hit_env (lit ''/r'') hit_world = [lit ''/r/b.snap'']"
    by (simp add: snaps_in_def is_snap_name_def hit_eval)
  have sha: "sha256 hit_env [98] = [98]" by (simp add: hit_env_def sample_env_def)
  have safe: "\<forall>t. json_safe (manifest_value (lit ''/r/b.snap'') (base_key (sha256 hit_env [98]) [107] None [])
      (full hit_env (lit ''/r/x.toml'')) (utc_text hit_env t))"
    unfolding json_safe_manifest by (simp add: sha manifest_value_def json_exact_base_key is_scalar_def digits_eval hit_eval)
  have files: "isabs (cwd hit_env)" "is_snap_name (basename (lit ''/r/b.snap''))"
    "link_free (fs hit_world) (full hit_env (manifest_path (lit ''/r/b.snap'')))"
    "\<not> denied hit_world Rd (full hit_env (manifest_path (lit ''/r/b.snap'')))"
    "\<forall>t. json_typed (float_of hit_env t)"
    by (simp_all add: hit_eval link_free_def)
  have tidy: "tidy hit_env (lit ''/r'') hit_world"
    unfolding tidy_def snaps by (simp add: untangled_def link_free_def hit_eval)
  have keyed: "\<forall>s \<in> set (snaps_of hit_env (lit ''/r'') hit_world).
      keyed_manifest (manifest_in hit_env (contents hit_env (manifest_path s) hit_world))"
    unfolding snaps by (simp add: hit_manifest keyed_manifest_def) (simp add: manifest_value_def base_key_def lit_def)
  have there: "stat hit_env (lit ''/r/b.snap'') hit_world \<noteq> None" "lit ''/r/b.snap'' \<in> set (snaps_of hit_env (lit ''/r'') hit_world)"
    by (simp_all add: hit_files snaps)
  from gc_keeps_fresh_bake [OF hit_bake hit_plan [folded sha] there(1) files(1-4) safe files(5) hit_files(2) tidy there(2) keyed]
  show ?thesis by (auto simp: hit_eval)
qed

section \<open>What the live proofs leave running\<close>

text \<open>
  C19: whenever \<open>data_plane_pacing.py\<close>, \<open>data_plane_fairness.py\<close>, \<open>proto_v2.py\<close>, \<open>fork_entropy_proof.py\<close>,
  \<open>park_multi_proof.py\<close>, \<open>park_density_proof.py\<close> or \<open>wallclock_proof.py\<close> comes back, with whatever status or
  exception and whatever the VMs and the programs they run did, \<open>terminate()\<close> and \<open>kill()\<close> have in
  the end been called on every VM it started; for \<open>park_await_proof.py\<close> this holds of all but the VM of the second wake (in
  \<open>f2\<close>), which it never notes.  \<open>relay_proof.py\<close>, \<open>vmgenid_proof.py\<close>, \<open>snapshot_quiesce_proof.py\<close> and
  \<open>park_timer_proof.py\<close> leave no VM running when they raise nothing.  None of them touches another process.
\<close>

theorem live_proofs_stop_vms:
  "stops (pacing_main E alive sched) \<and> stops (fairness_main E alive sched took) \<and> stops (proto_main E cc client) \<and>
   ends (entropy_main E reaper) \<and> ends (multi_main E reaper multi_watch) \<and> ends (fleet_main E reaper fleet_watch pgrep) \<and>
   ends (wall_main E reaper) \<and>
   leaves (ended_since {join (or_default (environ E (lit ''NETHER_WORK'')) (lit ''/tmp/npk'')) (lit ''f2'')})
     (await_main E reaper await_watch) \<and>
   ends_ok (relay_main E) \<and> ends_ok (genid_main E reaper) \<and> ends_ok (quiesce_script E) \<and> ends_ok (timer_main E reaper)"
  by (intro conjI stops_pacing stops_fairness stops_proto ends_entropy ends_multi ends_fleet ends_wall ends_await
      ends_ok_relay ends_ok_genid ends_ok_quiesce ends_ok_timer)

end
